(* ===== verification/Prelude.thy ===== *)
theory Prelude
  imports Complex_Main "HOL-Library.Sublist" "HOL-Library.AList"
begin

text \<open>
  Shared vocabulary of the development: Go byte strings and the functions of Go's
  standard packages \<open>strings\<close> and \<open>strconv\<close> that the repository calls, with the
  lemmas about them that the component theories use.

  A Go \<open>string\<close> and a Go \<open>[]byte\<close> are both a list of bytes; a byte is Isabelle's
  8-bit \<open>char\<close>. Indices and lengths are byte counts, as in Go. A fallible function
  returns \<open>'e + 'a\<close>, with \<open>Inl\<close> for the error. Functions are named after the Go
  functions they model.
\<close>

named_theorems strs "facts about the string functions of the Go standard library"

type_synonym bytes = string

abbreviation TAB :: char where "TAB \<equiv> CHR 0x09"
abbreviation LF :: char where "LF \<equiv> CHR 0x0A"
abbreviation CR :: char where "CR \<equiv> CHR 0x0D"
abbreviation SQ :: char where "SQ \<equiv> CHR 0x27"
abbreviation DQ :: char where "DQ \<equiv> CHR 0x22"
abbreviation BSL :: char where "BSL \<equiv> CHR 0x5C"

section \<open>Byte classes\<close>

definition is_lower :: "char \<Rightarrow> bool" where
  "is_lower c \<longleftrightarrow> c \<in> set ''abcdefghijklmnopqrstuvwxyz''"

definition is_upper :: "char \<Rightarrow> bool" where
  "is_upper c \<longleftrightarrow> c \<in> set ''ABCDEFGHIJKLMNOPQRSTUVWXYZ''"

definition is_digit :: "char \<Rightarrow> bool" where
  "is_digit c \<longleftrightarrow> c \<in> set ''0123456789''"

definition is_letter :: "char \<Rightarrow> bool" where
  "is_letter c \<longleftrightarrow> is_lower c \<or> is_upper c"

definition is_alnum :: "char \<Rightarrow> bool" where
  "is_alnum c \<longleftrightarrow> is_letter c \<or> is_digit c"

lemmas byte_class_defs = is_lower_def is_upper_def is_digit_def is_letter_def is_alnum_def

section \<open>Package strings\<close>

definition HasPrefix :: "string \<Rightarrow> string \<Rightarrow> bool" where
  "HasPrefix s p = prefix p s"

definition HasSuffix :: "string \<Rightarrow> string \<Rightarrow> bool" where
  "HasSuffix s p = suffix p s"

definition TrimPrefix :: "string \<Rightarrow> string \<Rightarrow> string" where
  "TrimPrefix s p = (if HasPrefix s p then drop (length p) s else s)"

definition TrimSuffix :: "string \<Rightarrow> string \<Rightarrow> string" where
  "TrimSuffix s p = (if HasSuffix s p then take (length s - length p) s else s)"

fun IndexByte :: "string \<Rightarrow> char \<Rightarrow> nat option" where
  "IndexByte [] c = None"
| "IndexByte (x # xs) c = (if x = c then Some 0 else map_option Suc (IndexByte xs c))"

definition LastIndexByte :: "string \<Rightarrow> char \<Rightarrow> nat option" where
  "LastIndexByte s c = map_option (\<lambda>i. length s - 1 - i) (IndexByte (rev s) c)"

fun Contains :: "string \<Rightarrow> string \<Rightarrow> bool" where
  "Contains [] sub = (sub = [])"
| "Contains (x # xs) sub = (prefix sub (x # xs) \<or> Contains xs sub)"

text \<open>\<open>ReplaceAll\<close> replaces the leftmost, non-overlapping occurrences. No call of the
  repository passes an empty \<open>old\<close>.\<close>

function ReplaceAll :: "string \<Rightarrow> string \<Rightarrow> string \<Rightarrow> string" where
  "ReplaceAll s old new =
     (if old = [] \<or> s = [] then s
      else if prefix old s then new @ ReplaceAll (drop (length old) s) old new
      else hd s # ReplaceAll (tl s) old new)"
  by pat_completeness auto
termination
  by (relation "measure (\<lambda>(s, old, new). length s)") auto

declare ReplaceAll.simps [simp del]

text \<open>\<open>strings.Replace\<close> with a count of 1.\<close>

fun Replace1 :: "string \<Rightarrow> string \<Rightarrow> string \<Rightarrow> string" where
  "Replace1 [] old new = (if old = [] then new else [])"
| "Replace1 (x # xs) old new =
     (if prefix old (x # xs) then new @ drop (length old) (x # xs)
      else x # Replace1 xs old new)"

text \<open>\<open>strings.Split\<close> for a separator of one byte, the only ones in use.\<close>

fun Split :: "string \<Rightarrow> char \<Rightarrow> string list" where
  "Split [] c = [[]]"
| "Split (x # xs) c =
     (if x = c then [] # Split xs c
      else (case Split xs c of [] \<Rightarrow> [[x]] | y # ys \<Rightarrow> (x # y) # ys))"

text \<open>\<open>strings.SplitN\<close> with a one-byte separator: at most \<open>n\<close> pieces, the last one the
  unsplit rest.\<close>

fun SplitN :: "string \<Rightarrow> char \<Rightarrow> nat \<Rightarrow> string list" where
  "SplitN s c 0 = []"
| "SplitN s c (Suc 0) = [s]"
| "SplitN s c (Suc (Suc n)) =
     (case IndexByte s c of None \<Rightarrow> [s]
      | Some i \<Rightarrow> take i s # SplitN (drop (Suc i) s) c (Suc n))"

fun Join :: "string list \<Rightarrow> string \<Rightarrow> string" where
  "Join [] sep = []"
| "Join [x] sep = x"
| "Join (x # y # ys) sep = x @ sep @ Join (y # ys) sep"

text \<open>\<open>strings.TrimSpace\<close> trims the Unicode white space characters; these are their
  UTF-8 encodings.\<close>

definition space_encodings :: "string list" where
  "space_encodings =
     [[CHR 0x09], [CHR 0x0A], [CHR 0x0B], [CHR 0x0C], [CHR 0x0D], [CHR 0x20],
      [CHR 0xC2, CHR 0x85], [CHR 0xC2, CHR 0xA0], [CHR 0xE1, CHR 0x9A, CHR 0x80],
      [CHR 0xE2, CHR 0x80, CHR 0x80], [CHR 0xE2, CHR 0x80, CHR 0x81],
      [CHR 0xE2, CHR 0x80, CHR 0x82], [CHR 0xE2, CHR 0x80, CHR 0x83],
      [CHR 0xE2, CHR 0x80, CHR 0x84], [CHR 0xE2, CHR 0x80, CHR 0x85],
      [CHR 0xE2, CHR 0x80, CHR 0x86], [CHR 0xE2, CHR 0x80, CHR 0x87],
      [CHR 0xE2, CHR 0x80, CHR 0x88], [CHR 0xE2, CHR 0x80, CHR 0x89],
      [CHR 0xE2, CHR 0x80, CHR 0x8A], [CHR 0xE2, CHR 0x80, CHR 0xA8],
      [CHR 0xE2, CHR 0x80, CHR 0xA9], [CHR 0xE2, CHR 0x80, CHR 0xAF],
      [CHR 0xE2, CHR 0x81, CHR 0x9F], [CHR 0xE3, CHR 0x80, CHR 0x80]]"

definition trim_step :: "string list \<Rightarrow> string \<Rightarrow> string option" where
  "trim_step encs s =
     (case filter (\<lambda>e. e \<noteq> [] \<and> prefix e s) encs of [] \<Rightarrow> None
      | e # _ \<Rightarrow> Some (drop (length e) s))"

lemma trim_step_shorter: "trim_step encs s = Some t \<Longrightarrow> length t < length s"
  by (auto simp: trim_step_def prefix_def filter_eq_Cons_iff split: list.splits)

function trim_left :: "string list \<Rightarrow> string \<Rightarrow> string" where
  "trim_left encs s = (case trim_step encs s of None \<Rightarrow> s | Some t \<Rightarrow> trim_left encs t)"
  by pat_completeness auto
termination
  by (relation "measure (\<lambda>(encs, s). length s)") (auto dest: trim_step_shorter)

declare trim_left.simps [simp del]

definition TrimSpace :: "string \<Rightarrow> string" where
  "TrimSpace s =
     rev (trim_left (map rev space_encodings) (rev (trim_left space_encodings s)))"

text \<open>\<open>strings.Fields\<close>: the pieces between runs of white space. \<open>cur\<close> is the piece under way,
  backwards.\<close>

definition flush :: "string \<Rightarrow> string list \<Rightarrow> string list" where
  "flush cur rest = (if cur = [] then rest else rev cur # rest)"

function fields_from :: "string \<Rightarrow> string \<Rightarrow> string list" where
  "fields_from cur s =
     (case trim_step space_encodings s of
        Some t \<Rightarrow> flush cur (fields_from [] t)
      | None \<Rightarrow> (case s of [] \<Rightarrow> flush cur [] | c # t \<Rightarrow> fields_from (c # cur) t))"
  by pat_completeness auto
termination
  by (relation "measure (\<lambda>(cur, s). length s)") (auto dest: trim_step_shorter)

declare fields_from.simps [simp del]

definition Fields :: "string \<Rightarrow> string list" where
  "Fields s = fields_from [] s"

text \<open>\<open>strings.Trim\<close> and \<open>strings.TrimRight\<close> with an ASCII cutset.\<close>

definition TrimRight :: "string \<Rightarrow> string \<Rightarrow> string" where
  "TrimRight s cutset = rev (dropWhile (\<lambda>c. c \<in> set cutset) (rev s))"

definition Trim :: "string \<Rightarrow> string \<Rightarrow> string" where
  "Trim s cutset = TrimRight (dropWhile (\<lambda>c. c \<in> set cutset) s) cutset"

section \<open>Package strconv\<close>

definition digit_char :: "nat \<Rightarrow> char" where
  "digit_char d = ''0123456789'' ! d"

definition digit_val :: "char \<Rightarrow> nat" where
  "digit_val c = (of_char c :: nat) - 48"

fun nat_digits :: "nat \<Rightarrow> string" where
  "nat_digits n = (if n < 10 then [digit_char n] else nat_digits (n div 10) @ [digit_char (n mod 10)])"

declare nat_digits.simps [simp del]

definition Itoa :: "int \<Rightarrow> string" where
  "Itoa i = (if i < 0 then CHR ''-'' # nat_digits (nat (- i)) else nat_digits (nat i))"

definition digits_val :: "string \<Rightarrow> nat" where
  "digits_val s = foldl (\<lambda>a c. 10 * a + digit_val c) 0 s"

text \<open>\<open>strconv.Atoi\<close> for the 64-bit \<open>int\<close>: optional sign, decimal digits, range error
  as \<open>None\<close>.\<close>

definition Atoi :: "string \<Rightarrow> int option" where
  "Atoi s =
     (let neg = (s \<noteq> [] \<and> hd s = CHR ''-'');
          ds = (if s \<noteq> [] \<and> (hd s = CHR ''-'' \<or> hd s = CHR ''+'') then tl s else s);
          v = int (digits_val ds)
      in if ds = [] \<or> \<not> list_all is_digit ds then None
         else if neg then (if v \<le> 2 ^ 63 then Some (- v) else None)
         else if v < 2 ^ 63 then Some v else None)"

text \<open>Texts of ASCII characters.\<close>

definition is_ascii :: "string \<Rightarrow> bool" where
  "is_ascii s \<longleftrightarrow> list_all (\<lambda>c. (of_char c :: nat) < 128) s"

lemma is_ascii_simps [simp]:
  "is_ascii []" "is_ascii (c # s) \<longleftrightarrow> (of_char c :: nat) < 128 \<and> is_ascii s"
  "is_ascii (s @ t) \<longleftrightarrow> is_ascii s \<and> is_ascii t"
  by (auto simp: is_ascii_def)

section \<open>Runes (package unicode/utf8)\<close>

text \<open>\<open>DecodeRune\<close>: the rune a byte string starts with and its width; an invalid byte is
  U+FFFD of width 1.\<close>

definition cont_byte :: "nat \<Rightarrow> bool" where
  "cont_byte b \<longleftrightarrow> 128 \<le> b \<and> b \<le> 191"

fun rune_of :: "nat list \<Rightarrow> nat \<times> nat" where
  "rune_of (a # bs) =
     (if a < 128 then (a, 1)
      else
        (case bs of
           b # cs \<Rightarrow>
             (if 194 \<le> a \<and> a \<le> 223 \<and> cont_byte b then (64 * (a - 192) + (b - 128), 2)
              else
                (case cs of
                   c # ds \<Rightarrow>
                     (if 224 \<le> a \<and> a \<le> 239 \<and> (if a = 224 then 160 else 128) \<le> b \<and>
                          b \<le> (if a = 237 then 159 else 191) \<and> cont_byte c
                      then (4096 * (a - 224) + 64 * (b - 128) + (c - 128), 3)
                      else
                        (case ds of
                           d # _ \<Rightarrow>
                             (if 240 \<le> a \<and> a \<le> 244 \<and> (if a = 240 then 144 else 128) \<le> b \<and>
                                  b \<le> (if a = 244 then 143 else 191) \<and> cont_byte c \<and> cont_byte d
                              then (262144 * (a - 240) + 4096 * (b - 128) + 64 * (c - 128) + (d - 128), 4)
                              else (65533, 1))
                         | [] \<Rightarrow> (65533, 1)))
                 | [] \<Rightarrow> (65533, 1)))
         | [] \<Rightarrow> (65533, 1)))"
| "rune_of [] = (65533, 0)"

text \<open>The runes a \<open>range\<close> over a string visits.\<close>

function runes_from :: "nat list \<Rightarrow> nat list" where
  "runes_from bs =
     (if bs = [] then []
      else (case rune_of bs of (r, w) \<Rightarrow> r # runes_from (drop (max 1 w) bs)))"
  by pat_completeness auto
termination
  by (relation "measure length") auto

declare runes_from.simps [simp del]

definition runes :: "string \<Rightarrow> nat list" where
  "runes s = runes_from (map of_char s)"

section \<open>Lemmas\<close>

lemma Contains_iff_sublist [strs]: "Contains s sub \<longleftrightarrow> sublist sub s"
  by (induction s) (auto simp: sublist_Cons_right)

lemma find_SomeD: "find P xs = Some x \<Longrightarrow> x \<in> set xs \<and> P x"
  by (auto simp: find_Some_iff)

lemma delete_dom [simp]: "fst ` set (AList.delete i xs) = fst ` set xs - {i}"
  using delete_keys [of i xs] by (metis list.set_map set_removeAll)

lemma Split_nonempty [simp]: "Split s c \<noteq> []"
  by (induction s) (auto split: list.splits)

lemma Join_Cons: "ys \<noteq> [] \<Longrightarrow> Join (y # ys) sep = y @ sep @ Join ys sep"
  by (cases ys) auto

lemma Join_Split [strs]: "Join (Split s c) [c] = s"
proof (induction s)
  case (Cons x xs)
  obtain y ys where e: "Split xs c = y # ys"
    by (cases "Split xs c") auto
  with Cons.IH show ?case
    by (cases ys) (auto simp: Join_Cons)
qed simp

lemma Split_no_sep: "p \<in> set (Split s c) \<Longrightarrow> c \<notin> set p"
proof (induction s arbitrary: p)
  case (Cons x xs)
  then show ?case by (cases "Split xs c") (auto split: if_splits)
qed simp

lemma Split_id: "c \<notin> set s \<Longrightarrow> Split s c = [s]"
  by (induction s) auto

lemma Split_append_sep: "c \<notin> set a \<Longrightarrow> Split (a @ c # b) c = a # Split b c"
  by (induction a) auto

lemma Split_Join:
  assumes "ps \<noteq> []" and "\<forall>p \<in> set ps. c \<notin> set p"
  shows "Split (Join ps [c]) c = ps"
  using assms
proof (induction ps)
  case (Cons p ps)
  then show ?case
    by (cases ps) (auto simp: Split_id Join_Cons Split_append_sep)
qed simp

lemma IndexByte_None: "IndexByte s c = None \<longleftrightarrow> c \<notin> set s"
  by (induction s) auto

lemma IndexByte_append: "c \<notin> set a \<Longrightarrow> IndexByte (a @ c # b) c = Some (length a)"
  by (induction a) auto

lemma IndexByte_Some:
  "IndexByte s c = Some i \<Longrightarrow> i < length s \<and> s ! i = c \<and> c \<notin> set (take i s) \<and> s = take i s @ c # drop (Suc i) s"
proof (induction s arbitrary: i)
  case (Cons x xs)
  then show ?case by (cases i) (auto split: if_splits)
qed simp

lemma SplitN_1: "SplitN s c 1 = [s]"
  by simp

lemma SplitN_3:
  assumes "c \<notin> set a" and "c \<notin> set b"
  shows "SplitN (a @ c # b @ c # d) c 3 = [a, b, d]"
  using assms by (simp add: numeral_3_eq_3 IndexByte_append)


subsection \<open>Decimal numbers\<close>

lemma digit_char_table:
  "list_all (\<lambda>n. is_digit (digit_char n) \<and> digit_val (digit_char n) = n) [0..<10]"
  by code_simp

lemma digit_char_props [simp]:
  assumes "n < 10"
  shows "is_digit (digit_char n)" and "digit_val (digit_char n) = n"
  using digit_char_table assms by (simp_all add: list_all_iff)

lemma nat_digits_nonempty [simp]: "nat_digits n \<noteq> []"
  by (subst nat_digits.simps) simp

lemma nat_digits_digits [simp]: "list_all is_digit (nat_digits n)"
proof (induction n rule: nat_digits.induct)
  case (1 n)
  then show ?case by (subst nat_digits.simps) auto
qed

lemma digits_val_nat_digits [simp]: "digits_val (nat_digits n) = n"
proof (induction n rule: nat_digits.induct)
  case (1 n)
  show ?case
  proof (cases "n < 10")
    case True
    then show ?thesis by (subst nat_digits.simps) (simp add: digits_val_def)
  next
    case False
    with 1 show ?thesis by (subst nat_digits.simps) (simp add: digits_val_def)
  qed
qed

lemma nat_digits_hd: "hd (nat_digits n) \<noteq> CHR ''-'' \<and> hd (nat_digits n) \<noteq> CHR ''+''"
proof -
  have "is_digit (hd (nat_digits n))"
    using nat_digits_digits [of n] nat_digits_nonempty [of n] by (metis list.pred_set list.set_sel(1))
  then show ?thesis by (auto simp: is_digit_def)
qed

lemma Atoi_Itoa: "- (2 ^ 63) \<le> i \<Longrightarrow> i < 2 ^ 63 \<Longrightarrow> Atoi (Itoa i) = Some i"
  using nat_digits_hd [of "nat i"] by (auto simp: Atoi_def Itoa_def Let_def)

lemma Itoa_digits: "0 \<le> i \<Longrightarrow> list_all is_digit (Itoa i) \<and> Itoa i \<noteq> []"
  by (simp add: Itoa_def)


subsection \<open>Replacing one byte\<close>

lemma ReplaceAll_char:
  "ReplaceAll s [c] new = concat (map (\<lambda>x. if x = c then new else [x]) s)"
proof (induction s)
  case (Cons x s)
  then show ?case by (subst ReplaceAll.simps) auto
qed (simp add: ReplaceAll.simps)

lemma concat_map_concat: "concat (map f (concat (map g s))) = concat (map (\<lambda>x. concat (map f (g x))) s)"
  by (induction s) auto

lemma ReplaceAll_id: "\<not> Contains s old \<Longrightarrow> ReplaceAll s old new = s"
proof (induction s old new rule: ReplaceAll.induct)
  case (1 s old new)
  show ?case
  proof (cases s)
    case (Cons x xs)
    with 1 have "\<not> prefix old s" "\<not> Contains xs old" by auto
    with 1(2) Cons have "old \<noteq> [] \<Longrightarrow> ReplaceAll xs old new = xs" by simp
    with Cons \<open>\<not> prefix old s\<close> show ?thesis by (subst ReplaceAll.simps) auto
  qed (simp add: ReplaceAll.simps)
qed

subsection \<open>Trimming white space\<close>

text \<open>Visible ASCII bytes.\<close>

definition graph :: "char \<Rightarrow> bool" where
  "graph c \<longleftrightarrow> 33 \<le> (of_char c :: nat) \<and> (of_char c :: nat) \<le> 126"

lemma space_encodings_hidden: "list_all (list_all (\<lambda>c. \<not> graph c)) space_encodings"
  by code_simp

lemma space_no_graph: "e \<in> set space_encodings \<Longrightarrow> c \<in> set e \<Longrightarrow> \<not> graph c"
  using space_encodings_hidden by (auto simp: list_all_iff)

lemma trim_step_Some:
  assumes "trim_step encs s = Some t"
  obtains e where "e \<in> set encs" "e \<noteq> []" "prefix e s" "t = drop (length e) s"
proof (cases "filter (\<lambda>e. e \<noteq> [] \<and> prefix e s) encs")
  case (Cons e es)
  then have "e \<in> set (filter (\<lambda>e. e \<noteq> [] \<and> prefix e s) encs)" by simp
  then have "e \<in> set encs" "e \<noteq> []" "prefix e s" by auto
  moreover from Cons assms have "t = drop (length e) s" by (simp add: trim_step_def)
  ultimately show thesis by (rule that)
qed (use assms in \<open>simp add: trim_step_def\<close>)

lemma trim_step_graph:
  assumes "graph c"
  shows "trim_step space_encodings (c # s) = None" and "trim_step (map rev space_encodings) (c # s) = None"
proof -
  have "\<not> prefix e (c # s)" if "e \<noteq> []" "e \<in> set space_encodings \<or> e \<in> rev ` set space_encodings" for e
  proof -
    from that(2) assms have "c \<notin> set e" using space_no_graph by auto
    with that(1) show ?thesis by (cases e) auto
  qed
  then show "trim_step space_encodings (c # s) = None" "trim_step (map rev space_encodings) (c # s) = None"
    using trim_step_Some by (metis not_None_eq, metis not_None_eq set_map)
qed

lemma trim_left_nil [simp]: "trim_left encs [] = []"
proof -
  have "filter (\<lambda>e. e \<noteq> [] \<and> prefix e []) encs = []" by (auto simp: filter_empty_conv)
  then show ?thesis by (subst trim_left.simps) (simp add: trim_step_def del: prefix_Nil)
qed

lemma trim_left_graph [simp]:
  assumes "graph c"
  shows "trim_left space_encodings (c # s) = c # s" and "trim_left (map rev space_encodings) (c # s) = c # s"
  using trim_step_graph [OF assms] by (subst trim_left.simps, simp)+

lemma TrimSpace_Nil [simp]: "TrimSpace [] = []"
  by (simp add: TrimSpace_def)

lemma TrimSpace_id:
  assumes "s \<noteq> []" and "graph (hd s)" and "graph (last s)"
  shows "TrimSpace s = s"
proof -
  from assms obtain c t where "s = c # t" by (cases s) auto
  with assms(2) have "trim_left space_encodings s = s" by simp
  moreover from assms obtain d u where "rev s = d # u" by (cases "rev s") auto
  with assms(3) have "trim_left (map rev space_encodings) (rev s) = rev s" by (auto simp: hd_rev [symmetric])
  ultimately show ?thesis by (simp add: TrimSpace_def)
qed

lemma TrimSpace_all_graph: "list_all graph s \<Longrightarrow> TrimSpace s = s"
  by (cases "s = []") (auto intro!: TrimSpace_id simp: list_all_iff)

lemma TrimSpace_blank [simp]: "TrimSpace (CHR '' '' # s) = TrimSpace s"
proof -
  have "trim_step space_encodings (CHR '' '' # s) = Some s"
    by (simp add: trim_step_def space_encodings_def)
  then have "trim_left space_encodings (CHR '' '' # s) = trim_left space_encodings s"
    by (subst trim_left.simps) simp
  then show ?thesis by (simp add: TrimSpace_def)
qed

lemma TrimSpace_graph_hd: "graph c \<Longrightarrow> \<exists>t. TrimSpace (c # s) = c # t"
proof -
  assume g: "graph c"
  have keep: "\<exists>v. trim_left (map rev space_encodings) (u @ [c]) = v @ [c]" for u
  proof (induction "length u" arbitrary: u rule: less_induct)
    case less
    show ?case
    proof (cases "trim_step (map rev space_encodings) (u @ [c])")
      case None
      then show ?thesis by (subst trim_left.simps) simp
    next
      case (Some t)
      then obtain e where e: "e \<in> set (map rev space_encodings)" "e \<noteq> []" "prefix e (u @ [c])"
        "t = drop (length e) (u @ [c])"
        by (rule trim_step_Some)
      have "c \<notin> set e" using e(1) g space_no_graph by auto
      then have "e \<noteq> u @ [c]" by auto
      with e(3) have "prefix e u" by (auto simp: prefix_snoc)
      then obtain w where w: "u = e @ w" by (auto simp: prefix_def)
      with e(2) have "length w < length u" by simp
      from less [OF this] e(4) w Some show ?thesis by (subst trim_left.simps) simp
    qed
  qed
  from keep [of "rev s"] obtain v where "trim_left (map rev space_encodings) (rev s @ [c]) = v @ [c]" by blast
  with g show ?thesis by (simp add: TrimSpace_def)
qed

lemma Itoa_ascii: "is_ascii (Itoa i)"
proof -
  have d: "(of_char c :: nat) < 128" if "is_digit c" for c
    using that by (auto simp: is_digit_def)
  have "list_all (\<lambda>c. (of_char c :: nat) < 128) (nat_digits n)" for n
    using nat_digits_digits [of n] by (auto simp: list_all_iff d)
  then show ?thesis by (simp add: Itoa_def is_ascii_def)
qed

end
