(* ===== verification/Authz.thy ===== *)
theory Authz
  imports Prelude
begin

text \<open>
  Bob's authorization policy (\<open>internal/authz/authz.go\<close>): which vault keys an identity
  may touch, and how many decrypt operations per minute it may make. The JSON text of
  \<open>authz.json\<close> is read by \<open>encoding/json\<close>; \<open>OpenOrDefault\<close> here starts from what
  reading and decoding the file gave.
\<close>

record Policy =
  Rules :: "string \<rightharpoonup> string list"
  RateLimits :: "(string \<times> int) list"
  DefaultAllow :: bool

definition DefaultRateLimit :: int where
  "DefaultRateLimit = 100"

text \<open>What \<open>os.ReadFile\<close> followed by \<open>json.Unmarshal\<close> can give.\<close>

datatype policy_file =
    PolicyMissing
  | PolicyUnreadable
  | PolicyMalformed
  | PolicyDecoded "string \<rightharpoonup> string list" "(string \<times> int) list"

datatype authz_error = ReadError | MalformedPolicy | NonPositiveLimit string int

definition OpenOrDefault :: "policy_file \<Rightarrow> authz_error + Policy" where
  "OpenOrDefault f =
     (case f of
        PolicyMissing \<Rightarrow> Inr \<lparr>Rules = Map.empty, RateLimits = [], DefaultAllow = True\<rparr>
      | PolicyUnreadable \<Rightarrow> Inl ReadError
      | PolicyMalformed \<Rightarrow> Inl MalformedPolicy
      | PolicyDecoded rs ls \<Rightarrow>
          (case find (\<lambda>(_, n). n \<le> 0) ls of
             Some (i, n) \<Rightarrow> Inl (NonPositiveLimit i n)
           | None \<Rightarrow> Inr \<lparr>Rules = rs, RateLimits = ls, DefaultAllow = False\<rparr>))"

definition Limit :: "Policy \<Rightarrow> string \<Rightarrow> int" where
  "Limit p identity =
     (case map_of (RateLimits p) identity of
        Some v \<Rightarrow> v
      | None \<Rightarrow> (case map_of (RateLimits p) ''default'' of
                   Some v \<Rightarrow> v
                 | None \<Rightarrow> DefaultRateLimit))"

definition Allowed :: "Policy \<Rightarrow> string \<Rightarrow> string \<Rightarrow> bool" where
  "Allowed p identity key =
     (if DefaultAllow p then True
      else (case Rules p identity of
              None \<Rightarrow> False
            | Some pres \<Rightarrow> list_ex (\<lambda>pre. pre = ''*'' \<or> HasPrefix key pre) pres))"

end
