(* ===== verification/Ratelimit.thy ===== *)
theory Ratelimit
  imports Authz
begin

text \<open>
  The per-identity token bucket of the server (\<open>internal/server/ratelimit.go\<close>).

  Tokens are \<open>float64\<close> in the code and exact rationals here: the rounding of the refill is
  not modelled. Times are nanoseconds of the monotonic clock. The Go map of buckets is a
  partial map; an identity's capacity comes from the policy through \<open>limit\<close>.
\<close>

record bucket =
  tokens :: rat
  lastRefill :: int

type_synonym buckets = "string \<rightharpoonup> bucket"

definition newRateLimiter :: buckets where
  "newRateLimiter = Map.empty"

definition Seconds :: "int \<Rightarrow> rat" where
  "Seconds ns = of_int ns / 1000000000"

definition allow :: "(string \<Rightarrow> int) \<Rightarrow> int \<Rightarrow> string \<Rightarrow> buckets \<Rightarrow> bool \<times> buckets" where
  "allow limit now identity bs =
     (let cap = of_int (limit identity); refillPerSec = cap / 60 in
      case bs identity of
        None \<Rightarrow> (True, bs(identity \<mapsto> \<lparr>tokens = cap - 1, lastRefill = now\<rparr>))
      | Some b \<Rightarrow>
          (let t = tokens b + Seconds (now - lastRefill b) * refillPerSec;
               t = (if cap < t then cap else t)
           in if t < 1 then (False, bs(identity \<mapsto> \<lparr>tokens = t, lastRefill = now\<rparr>))
              else (True, bs(identity \<mapsto> \<lparr>tokens = t - 1, lastRefill = now\<rparr>))))"

section \<open>The contract of a rate limiter\<close>

text \<open>What an identity could spend at a given time.\<close>

definition credit :: "(string \<Rightarrow> int) \<Rightarrow> int \<Rightarrow> string \<Rightarrow> buckets \<Rightarrow> rat" where
  "credit limit now identity bs =
     (let cap = of_int (limit identity) in
      case bs identity of None \<Rightarrow> cap
      | Some b \<Rightarrow> min cap (tokens b + Seconds (now - lastRefill b) * (cap / 60)))"

text \<open>
  The laws: a granted call costs one unit of credit and a refused one nothing; credit is
  needed to be granted; calls of one identity do not touch another's; credit grows with
  time, by at most the refill rate, and never beyond the capacity.
\<close>

locale rate_limiter =
  fixes ask :: "(string \<Rightarrow> int) \<Rightarrow> int \<Rightarrow> string \<Rightarrow> 'b \<Rightarrow> bool \<times> 'b"
    and cred :: "(string \<Rightarrow> int) \<Rightarrow> int \<Rightarrow> string \<Rightarrow> 'b \<Rightarrow> rat"
  assumes cost: "1 \<le> L i \<Longrightarrow> ask L t i b = (ok, b') \<Longrightarrow> cred L t i b' + (if ok then 1 else 0) = cred L t i b"
    and granted: "1 \<le> L i \<Longrightarrow> ask L t i b = (ok, b') \<Longrightarrow> ok \<longleftrightarrow> 1 \<le> cred L t i b"
    and isolated: "i \<noteq> j \<Longrightarrow> ask L t i b = (ok, b') \<Longrightarrow> cred L u j b' = cred L u j b"
    and grows: "1 \<le> L i \<Longrightarrow> t \<le> u \<Longrightarrow> cred L t i b \<le> cred L u i b"
    and refill: "1 \<le> L i \<Longrightarrow> t \<le> u \<Longrightarrow>
        cred L u i b \<le> cred L t i b + Seconds (u - t) * (of_int (L i) / 60)"
    and capped: "cred L t i b \<le> of_int (L i)"
begin

text \<open>A run of calls (time, identity): the number of calls granted to one identity, and the
  limiter afterwards.\<close>

fun grants :: "(string \<Rightarrow> int) \<Rightarrow> string \<Rightarrow> (int \<times> string) list \<Rightarrow> 'b \<Rightarrow> nat \<times> 'b" where
  "grants L i [] b = (0, b)"
| "grants L i ((t, j) # cs) b =
     (let (ok, b') = ask L t j b; (n, b'') = grants L i cs b'
      in ((if ok \<and> j = i then Suc n else n), b''))"

fun in_order :: "int \<Rightarrow> (int \<times> string) list \<Rightarrow> int \<Rightarrow> bool" where
  "in_order t [] u \<longleftrightarrow> t \<le> u"
| "in_order t ((s, j) # cs) u \<longleftrightarrow> t \<le> s \<and> in_order s cs u"

lemma in_order_le: "in_order t cs u \<Longrightarrow> t \<le> u"
  by (induction cs arbitrary: t) fastforce+

lemma ask_other_or_cost:
  assumes "1 \<le> L i" and "ask L t j b = (ok, b')"
  shows "cred L t i b' + (if ok \<and> j = i then 1 else 0) = cred L t i b"
  using assms cost [of L i t b ok b'] isolated [of j i L t b ok b' t] by (cases "j = i") auto

lemma grants_credit:
  assumes "1 \<le> L i" and "in_order t cs u" and "grants L i cs b = (n, b')" and "0 \<le> cred L t i b"
  shows "0 \<le> cred L u i b' \<and>
    of_nat n + cred L u i b' \<le> cred L t i b + Seconds (u - t) * (of_int (L i) / 60)"
  using assms(2-)
proof (induction cs arbitrary: t b n)
  case Nil
  then show ?case using grows [of L i t u b] refill [of L i t u b] assms(1) by auto
next
  case (Cons c cs)
  obtain s j where c: "c = (s, j)" by (cases c)
  from Cons.prems(1) have ts: "t \<le> s" and su: "in_order s cs u" by (simp_all add: c)
  obtain ok b1 where a: "ask L s j b = (ok, b1)" by (cases "ask L s j b")
  obtain m where m: "grants L i cs b1 = (m, b')" "n = (if ok \<and> j = i then Suc m else m)"
    using Cons.prems(2) by (auto simp: c a split: prod.splits)
  have s0: "0 \<le> cred L s i b" using grows [of L i t s b] assms(1) ts Cons.prems(3) by simp
  have e: "cred L s i b1 + (if ok \<and> j = i then 1 else 0) = cred L s i b"
    by (rule ask_other_or_cost [OF assms(1) a])
  have "0 \<le> cred L s i b1"
    using e s0 granted [of L i s b ok b1] assms(1) a by (cases "ok \<and> j = i") auto
  from Cons.IH [OF su m(1) this] have ih: "0 \<le> cred L u i b'"
    "of_nat m + cred L u i b' \<le> cred L s i b1 + Seconds (u - s) * (of_int (L i) / 60)" by auto
  have "Seconds (u - t) * (of_int (L i) / 60) =
      Seconds (u - s) * (of_int (L i) / 60) + Seconds (s - t) * (of_int (L i) / 60)"
    by (simp add: Seconds_def field_simps)
  with ih e refill [of L i t s b] assms(1) ts m(2) show ?case
    by (auto simp del: times_divide_eq_right split: if_splits)
qed

theorem grants_bound:
  assumes "1 \<le> L i" and "in_order t cs u" and "0 \<le> cred L t i b"
  shows "of_nat (fst (grants L i cs b)) \<le> of_int (L i) + Seconds (u - t) * (of_int (L i) / 60)"
  using grants_credit [OF assms(1,2) _ assms(3), of "fst (grants L i cs b)" "snd (grants L i cs b)"]
    capped [of L t i b] by simp

end

lemma Seconds_mono: "t \<le> u \<Longrightarrow> Seconds (t - l) \<le> Seconds (u - l)"
  by (simp add: Seconds_def divide_right_mono)

lemma allow_split:
  "allow limit now i bs =
    (1 \<le> credit limit now i bs \<or> bs i = None,
     bs(i \<mapsto> \<lparr>tokens = credit limit now i bs - (if 1 \<le> credit limit now i bs \<or> bs i = None then 1 else 0),
              lastRefill = now\<rparr>))"
  by (auto simp: allow_def credit_def Let_def min_def split: option.splits)

lemma credit_after:
  "credit limit now i (bs(i \<mapsto> \<lparr>tokens = c, lastRefill = now\<rparr>)) = min (of_int (limit i)) c"
  by (simp add: credit_def Seconds_def)

lemma credit_other: "i \<noteq> j \<Longrightarrow> credit limit now j (bs(i \<mapsto> x)) = credit limit now j bs"
  by (simp add: credit_def)

lemma credit_capped: "credit limit now i bs \<le> of_int (limit i)"
  by (simp add: credit_def Let_def split: option.splits)

lemma credit_rate:
  assumes "1 \<le> L i" and "t \<le> u"
  shows "credit L t i b \<le> credit L u i b"
    and "credit L u i b \<le> credit L t i b + Seconds (u - t) * (of_int (L i) / 60)"
proof -
  let ?c = "of_int (L i) :: rat"
  have c: "0 \<le> ?c / 60" using assms(1) by simp
  have d: "0 \<le> Seconds (u - t) * (?c / 60)"
    using assms c by (intro mult_nonneg_nonneg) (simp_all add: Seconds_def)
  have m: "Seconds (t - l) * (?c / 60) \<le> Seconds (u - l) * (?c / 60)" for l
    using Seconds_mono [OF assms(2)] c by (rule mult_right_mono)
  have s: "Seconds (u - l) * (?c / 60) = Seconds (t - l) * (?c / 60) + Seconds (u - t) * (?c / 60)" for l
    by (simp add: Seconds_def field_simps)
  show "credit L t i b \<le> credit L u i b"
  proof (cases "b i")
    case (Some x)
    from m [of "lastRefill x"] show ?thesis
      by (simp add: credit_def Some Let_def del: times_divide_eq_right)
  qed (simp add: credit_def)
  show "credit L u i b \<le> credit L t i b + Seconds (u - t) * (of_int (L i) / 60)"
  proof (cases "b i")
    case None
    with d show ?thesis by (simp add: credit_def)
  next
    case (Some x)
    from d s [of "lastRefill x"] show ?thesis
      by (simp add: credit_def Some Let_def min_def del: times_divide_eq_right)
  qed
qed

interpretation tb: rate_limiter allow credit
proof unfold_locales
  fix L :: "string \<Rightarrow> int" and i t b ok b'
  assume L: "1 \<le> L i" and a: "allow L t i b = (ok, b')"
  have "1 \<le> credit L t i b" if "b i = None"
    using that L by (simp add: credit_def)
  with a show "ok \<longleftrightarrow> 1 \<le> credit L t i b" by (auto simp: allow_split)
  with a credit_capped [of L t i b] \<open>b i = None \<Longrightarrow> 1 \<le> credit L t i b\<close>
  show "credit L t i b' + (if ok then 1 else 0) = credit L t i b"
    by (auto simp: allow_split credit_after min_def)
next
  fix L :: "string \<Rightarrow> int" and i b and t u :: int
  assume "1 \<le> L i" "t \<le> u"
  then show "credit L u i b \<le> credit L t i b + Seconds (u - t) * (of_int (L i) / 60)"
    by (rule credit_rate)
qed (auto simp: allow_split credit_other credit_rate credit_capped)

end
