(* ===== verification/Crypto.thy ===== *)
theory Crypto
  imports Prelude "HOL-Library.Word"
begin

text \<open>
  The symmetric primitives of \<open>internal/crypto/crypto.go\<close>: AES-256-GCM sealing in the
  \<open>ivHex:tagHex:ctHex\<close> shape and the Argon2id wrapping of the master key.

  The block cipher mode and the key derivation are not code of the repository: they are
  the parameters \<open>aead\<close> (\<open>crypto/cipher\<close>'s GCM over \<open>crypto/aes\<close>) and \<open>kdf\<close>
  (\<open>argon2.IDKey\<close>). What the code relies on is stated by \<open>aead_ok\<close>, \<open>aead_binds\<close> and
  \<open>kdf_ok\<close>. Random bytes are arguments; \<open>None\<close> is a failure of \<open>crypto/rand\<close>.
\<close>

section \<open>Hexadecimal text (package encoding/hex)\<close>

definition hex_digit :: "nat \<Rightarrow> char" where
  "hex_digit d = ''0123456789abcdef'' ! d"

definition hex_val :: "char \<Rightarrow> nat option" where
  "hex_val c =
     (let n = (of_char c :: nat) in
      if 48 \<le> n \<and> n \<le> 57 then Some (n - 48)
      else if 97 \<le> n \<and> n \<le> 102 then Some (n - 87)
      else if 65 \<le> n \<and> n \<le> 70 then Some (n - 55)
      else None)"

definition hex_byte :: "char \<Rightarrow> string" where
  "hex_byte c = (let n = (of_char c :: nat) in [hex_digit (n div 16), hex_digit (n mod 16)])"

definition HexEncode :: "bytes \<Rightarrow> string" where
  "HexEncode bs = concat (map hex_byte bs)"

fun HexDecode :: "string \<Rightarrow> bytes option" where
  "HexDecode [] = Some []"
| "HexDecode [c] = None"
| "HexDecode (a # b # cs) =
     (case (hex_val a, hex_val b) of
        (Some h, Some l) \<Rightarrow> map_option (\<lambda>bs. char_of (16 * h + l) # bs) (HexDecode cs)
      | _ \<Rightarrow> None)"

lemma hex_val_digit [simp]: "n < 16 \<Longrightarrow> hex_val (hex_digit n) = Some n"
proof -
  have "list_all (\<lambda>n. hex_val (hex_digit n) = Some n) [0..<16]" by code_simp
  then show "n < 16 \<Longrightarrow> hex_val (hex_digit n) = Some n" by (simp add: list_all_iff)
qed

lemma of_char_nibbles [simp]: "(of_char c :: nat) div 16 < 16"
  using nat_of_char_less_256 [of c] by (simp add: less_mult_imp_div_less)

lemma hex_roundtrip: "HexDecode (HexEncode bs) = Some bs"
proof (induction bs)
  case (Cons c bs)
  from Cons.IH show ?case
    by (simp add: HexEncode_def hex_byte_def Let_def mult_div_mod_eq)
qed (simp add: HexEncode_def)

lemma hex_digit_set: "n < 16 \<Longrightarrow> hex_digit n \<in> set ''0123456789abcdef''"
  unfolding hex_digit_def by (rule nth_mem) simp

lemma HexEncode_set: "set (HexEncode bs) \<subseteq> set ''0123456789abcdef''"
proof
  fix x assume "x \<in> set (HexEncode bs)"
  then obtain c where "x \<in> set (hex_byte c)" by (auto simp: HexEncode_def)
  then have "x = hex_digit ((of_char c :: nat) div 16) \<or> x = hex_digit ((of_char c :: nat) mod 16)"
    by (auto simp: hex_byte_def Let_def)
  moreover have "(of_char c :: nat) div 16 < 16" by simp
  moreover have "(of_char c :: nat) mod 16 < 16" by simp
  ultimately show "x \<in> set ''0123456789abcdef''" using hex_digit_set by metis
qed

lemma HexEncode_no_colon: "CHR '':'' \<notin> set (HexEncode bs)"
  using HexEncode_set [of bs] by auto

lemma HexEncode_no_LF: "LF \<notin> set (HexEncode bs)"
  using HexEncode_set [of bs] by auto

lemma length_HexEncode: "length (HexEncode bs) = 2 * length bs"
  by (induction bs) (auto simp: HexEncode_def hex_byte_def Let_def)

lemma HexDecode_length: "HexDecode s = Some bs \<Longrightarrow> length s = 2 * length bs"
  by (induction s arbitrary: bs rule: HexDecode.induct) (auto split: option.splits)

section \<open>Base64 text (package encoding/base64)\<close>

definition b64_std :: string where
  "b64_std = ''ABCDEFGHIJKLMNOPQRSTUVWXYZabcdefghijklmnopqrstuvwxyz0123456789+/''"

definition b64_url :: string where
  "b64_url = ''ABCDEFGHIJKLMNOPQRSTUVWXYZabcdefghijklmnopqrstuvwxyz0123456789-_''"

fun Base64Encode :: "string \<Rightarrow> bytes \<Rightarrow> string" where
  "Base64Encode al [] = []"
| "Base64Encode al [a] =
     [al ! (of_char a div 4), al ! (16 * (of_char a mod 4)), CHR ''='', CHR ''='']"
| "Base64Encode al [a, b] =
     [al ! (of_char a div 4), al ! (16 * (of_char a mod 4) + of_char b div 16),
      al ! (4 * (of_char b mod 16)), CHR ''='']"
| "Base64Encode al (a # b # c # rest) =
     [al ! (of_char a div 4), al ! (16 * (of_char a mod 4) + of_char b div 16),
      al ! (4 * (of_char b mod 16) + of_char c div 64), al ! (of_char c mod 64)]
     @ Base64Encode al rest"

text \<open>The decoder skips carriage returns and line feeds, wants padding, and (not being in
  strict mode) ignores the unused low bits of the last quantum.\<close>

definition b64_val :: "string \<Rightarrow> char \<Rightarrow> nat option" where
  "b64_val al c = IndexByte al c"

fun b64_groups :: "string \<Rightarrow> string \<Rightarrow> bytes option" where
  "b64_groups al [] = Some []"
| "b64_groups al (a # b # c # d # rest) =
     (case (b64_val al a, b64_val al b) of
        (Some x, Some y) \<Rightarrow>
          (if c = CHR ''='' \<and> d = CHR ''='' \<and> rest = [] then
             Some [char_of (4 * x + y div 16)]
           else
             (case b64_val al c of
                None \<Rightarrow> None
              | Some z \<Rightarrow>
                  (if d = CHR ''='' \<and> rest = [] then
                     Some [char_of (4 * x + y div 16), char_of (16 * (y mod 16) + z div 4)]
                   else
                     (case b64_val al d of
                        None \<Rightarrow> None
                      | Some w \<Rightarrow>
                          map_option
                            (\<lambda>bs. char_of (4 * x + y div 16) # char_of (16 * (y mod 16) + z div 4)
                               # char_of (64 * (z mod 4) + w) # bs)
                            (b64_groups al rest)))))
      | _ \<Rightarrow> None)"
| "b64_groups al _ = None"

definition Base64Decode :: "string \<Rightarrow> string \<Rightarrow> bytes option" where
  "Base64Decode al s = b64_groups al (filter (\<lambda>c. c \<noteq> CR \<and> c \<noteq> LF) s)"


lemma b64_val_nth:
  assumes "distinct al" and "n < length al"
  shows "b64_val al (al ! n) = Some n"
proof -
  have "al = take n al @ al ! n # drop (Suc n) al"
    using assms(2) by (rule id_take_nth_drop)
  moreover have "al ! n \<notin> set (take n al)"
    using assms by (auto simp: in_set_conv_nth distinct_conv_nth)
  ultimately have "IndexByte al (al ! n) = Some (length (take n al))"
    by (metis IndexByte_append)
  then show ?thesis using assms(2) by (simp add: b64_val_def)
qed

text \<open>An alphabet the codec can use: 64 distinct characters, none of them the padding or a
  line break.\<close>

definition b64_alphabet :: "string \<Rightarrow> bool" where
  "b64_alphabet al \<longleftrightarrow> distinct al \<and> length al = 64 \<and> CHR ''='' \<notin> set al \<and> CR \<notin> set al \<and> LF \<notin> set al"

lemma b64_std_alphabet: "b64_alphabet b64_std"
  by (simp add: b64_alphabet_def b64_std_def)

lemma b64_url_alphabet: "b64_alphabet b64_url"
  by (simp add: b64_alphabet_def b64_url_def)

lemma sextet_bounds [simp]:
  "(of_char a :: nat) div 4 < 64" "16 * ((of_char a :: nat) mod 4) < 64"
  "16 * ((of_char a :: nat) mod 4) + of_char b div 16 < 64"
  "4 * ((of_char b :: nat) mod 16) < 64"
  "4 * ((of_char b :: nat) mod 16) + of_char c div 64 < 64"
  "(of_char c :: nat) mod 64 < 64"
proof -
  have a: "(of_char a :: nat) < 256" and b: "(of_char b :: nat) < 256"
    and c: "(of_char c :: nat) < 256" by simp_all
  have "(of_char c :: nat) div 64 < 4" using c by (simp add: less_mult_imp_div_less)
  moreover have "(of_char b :: nat) div 16 < 16" by simp
  moreover have "(of_char a :: nat) mod 4 < 4" "(of_char b :: nat) mod 16 < 16" by simp_all
  ultimately show "16 * ((of_char a :: nat) mod 4) < 64"
    "16 * ((of_char a :: nat) mod 4) + of_char b div 16 < 64"
    "4 * ((of_char b :: nat) mod 16) < 64"
    "4 * ((of_char b :: nat) mod 16) + of_char c div 64 < 64"
    by linarith+
  show "(of_char a :: nat) div 4 < 64" using a by (simp add: less_mult_imp_div_less)
qed simp

lemma sextet_inverse [simp]:
  "(16 * ((of_char a :: nat) mod 4)) div 16 = of_char a mod 4"
  "(16 * ((of_char a :: nat) mod 4) + of_char b div 16) div 16 = of_char a mod 4"
  "(16 * ((of_char a :: nat) mod 4) + of_char b div 16) mod 16 = of_char b div 16"
  "(4 * ((of_char b :: nat) mod 16)) div 4 = of_char b mod 16"
  "(4 * ((of_char b :: nat) mod 16) + of_char c div 64) div 4 = of_char b mod 16"
  "(4 * ((of_char b :: nat) mod 16) + of_char c div 64) mod 4 = of_char c div 64"
proof -
  have "(of_char c :: nat) div 64 < 4" using nat_of_char_less_256 [of c]
    by (simp add: less_mult_imp_div_less)
  then show "(4 * ((of_char b :: nat) mod 16) + of_char c div 64) div 4 = of_char b mod 16"
    "(4 * ((of_char b :: nat) mod 16) + of_char c div 64) mod 4 = of_char c div 64"
    by simp_all
qed simp_all

lemma of_char_top_bits [simp]: "(of_char c :: nat) div 64 mod 4 = of_char c div 64"
  using nat_of_char_less_256 [of c] by (simp add: less_mult_imp_div_less)

lemma b64_alphabet_simps [simp]:
  assumes "b64_alphabet al" and "n < 64"
  shows "b64_val al (al ! n) = Some n"
    and "al ! n \<noteq> CHR ''=''" and "al ! n \<noteq> CR" and "al ! n \<noteq> LF"
proof -
  from assms have "al ! n \<in> set al" by (auto simp: b64_alphabet_def)
  with assms show "al ! n \<noteq> CHR ''=''" "al ! n \<noteq> CR" "al ! n \<noteq> LF"
    unfolding b64_alphabet_def by metis+
  from assms show "b64_val al (al ! n) = Some n"
    by (auto intro: b64_val_nth simp: b64_alphabet_def)
qed

lemma b64_groups_encode: "b64_alphabet al \<Longrightarrow> b64_groups al (Base64Encode al bs) = Some bs"
  by (induction al bs rule: Base64Encode.induct) simp_all

lemma Base64_no_breaks:
  "b64_alphabet al \<Longrightarrow> filter (\<lambda>c. c \<noteq> CR \<and> c \<noteq> LF) (Base64Encode al bs) = Base64Encode al bs"
  by (induction al bs rule: Base64Encode.induct) simp_all

lemma base64_roundtrip: "b64_alphabet al \<Longrightarrow> Base64Decode al (Base64Encode al bs) = Some bs"
  by (simp add: Base64Decode_def Base64_no_breaks b64_groups_encode)

lemma length_Base64Encode: "length (Base64Encode al bs) = 4 * ((length bs + 2) div 3)"
proof (induction al bs rule: Base64Encode.induct)
  case (4 al a b c rest)
  have "(length rest + 2 + 3) div 3 = (length rest + 2) div 3 + 1" by (rule div_add_self2) simp
  with 4 show ?case by simp
qed simp_all


section \<open>The parameters: GCM and Argon2id\<close>

record aead =
  gcm_seal :: "bytes \<Rightarrow> bytes \<Rightarrow> bytes \<Rightarrow> bytes \<Rightarrow> bytes"
    \<comment> \<open>key, nonce, plaintext, additional data; the result is ciphertext then tag\<close>
  gcm_open :: "bytes \<Rightarrow> bytes \<Rightarrow> bytes \<Rightarrow> bytes \<Rightarrow> bytes option"

text \<open>The documented contract of \<open>cipher.AEAD\<close>: sealing adds a tag of 16 bytes, and
  opening with the same key, nonce and additional data gives the plaintext back.\<close>

definition aead_ok :: "aead \<Rightarrow> bool" where
  "aead_ok G \<longleftrightarrow>
     (\<forall>k n p a. length (gcm_seal G k n p a) = length p + 16) \<and>
     (\<forall>k n p a. gcm_open G k n (gcm_seal G k n p a) a = Some p)"

text \<open>The additional data of sealed messages is authenticated, as far as the names of \<open>N\<close>
  are concerned: what was sealed under one name does not open under another. (For all
  names at once no function can have this property, tags being 16 bytes long.)\<close>

definition aead_binds :: "aead \<Rightarrow> bytes set \<Rightarrow> bool" where
  "aead_binds G N \<longleftrightarrow>
     (\<forall>k n p a b. a \<in> N \<longrightarrow> b \<in> N \<longrightarrow> a \<noteq> b \<longrightarrow> gcm_open G k n (gcm_seal G k n p a) b = None)"

section \<open>Sealing\<close>

datatype crypto_error =
    RandFailure
  | BadKeySize
  | MalformedCiphertext
  | BadHex
  | BadNonceLength nat
  | BadTagLength nat
  | AuthFailure
  | BadSalt
  | BadPassword
  | WrongKeyLength
  | EmptyPacked
  | BadVersionPrefix string

definition MasterKeyLen :: nat where "MasterKeyLen = 32"
definition gcmNonceLen :: nat where "gcmNonceLen = 12"
definition gcmTagLen :: nat where "gcmTagLen = 16"
definition saltLen :: nat where "saltLen = 16"

text \<open>\<open>crypto/aes\<close> takes keys of 16, 24 or 32 bytes.\<close>

definition newGCM :: "bytes \<Rightarrow> crypto_error + unit" where
  "newGCM key = (if length key \<in> {16, 24, 32} then Inr () else Inl BadKeySize)"

definition splitPacked :: "string \<Rightarrow> crypto_error + (string \<times> string \<times> string)" where
  "splitPacked packed =
     (let parts = SplitN packed CHR '':'' 3 in
      if length parts \<noteq> 3 then Inl MalformedCiphertext
      else Inr (parts ! 0, parts ! 1, parts ! 2))"

definition sealAAD :: "aead \<Rightarrow> bytes option \<Rightarrow> bytes \<Rightarrow> bytes \<Rightarrow> bytes \<Rightarrow> crypto_error + string" where
  "sealAAD G rnd key plaintext aad =
     (case newGCM key of
        Inl e \<Rightarrow> Inl e
      | Inr _ \<Rightarrow>
          (case rnd of
             None \<Rightarrow> Inl RandFailure
           | Some iv \<Rightarrow>
               (let sealed = gcm_seal G key iv plaintext aad;
                    ct = take (length sealed - gcmTagLen) sealed;
                    tag = drop (length sealed - gcmTagLen) sealed
                in Inr (HexEncode iv @ '':'' @ HexEncode tag @ '':'' @ HexEncode ct))))"

definition openAAD :: "aead \<Rightarrow> bytes \<Rightarrow> string \<Rightarrow> bytes \<Rightarrow> crypto_error + bytes" where
  "openAAD G key packed aad =
     (case splitPacked packed of
        Inl e \<Rightarrow> Inl e
      | Inr (ivHex, tagHex, ctHex) \<Rightarrow>
          (case HexDecode ivHex of
             None \<Rightarrow> Inl BadHex
           | Some iv \<Rightarrow>
               (case HexDecode tagHex of
                  None \<Rightarrow> Inl BadHex
                | Some tag \<Rightarrow>
                    (case HexDecode ctHex of
                       None \<Rightarrow> Inl BadHex
                     | Some ct \<Rightarrow>
                         if length iv \<noteq> gcmNonceLen then Inl (BadNonceLength (length iv))
                         else if length tag \<noteq> gcmTagLen then Inl (BadTagLength (length tag))
                         else
                           (case newGCM key of
                              Inl e \<Rightarrow> Inl e
                            | Inr _ \<Rightarrow>
                                (case gcm_open G key iv (ct @ tag) aad of
                                   None \<Rightarrow> Inl AuthFailure
                                 | Some pt \<Rightarrow> Inr pt))))))"

definition Seal :: "aead \<Rightarrow> bytes option \<Rightarrow> bytes \<Rightarrow> bytes \<Rightarrow> crypto_error + string" where
  "Seal G rnd key plaintext = sealAAD G rnd key plaintext []"

definition SealAAD :: "aead \<Rightarrow> bytes option \<Rightarrow> bytes \<Rightarrow> bytes \<Rightarrow> bytes \<Rightarrow> crypto_error + string" where
  "SealAAD G rnd key plaintext aad = sealAAD G rnd key plaintext aad"

definition Open :: "aead \<Rightarrow> bytes \<Rightarrow> string \<Rightarrow> crypto_error + bytes" where
  "Open G key packed = openAAD G key packed []"

definition OpenAAD :: "aead \<Rightarrow> bytes \<Rightarrow> string \<Rightarrow> bytes \<Rightarrow> crypto_error + bytes" where
  "OpenAAD G key packed aad = openAAD G key packed aad"

section \<open>Lemmas on sealing\<close>

lemma splitPacked_hex:
  "splitPacked (HexEncode a @ '':'' @ HexEncode b @ '':'' @ s) = Inr (HexEncode a, HexEncode b, s)"
  using SplitN_3 [OF HexEncode_no_colon HexEncode_no_colon, of a b s]
  by (simp add: splitPacked_def)

lemma sealAAD_cases:
  assumes "sealAAD G rnd key p a = Inr c"
  obtains iv where "rnd = Some iv" and "newGCM key = Inr ()"
    and "c = HexEncode iv @ '':'' @ HexEncode (drop (length (gcm_seal G key iv p a) - 16) (gcm_seal G key iv p a))
           @ '':'' @ HexEncode (take (length (gcm_seal G key iv p a) - 16) (gcm_seal G key iv p a))"
  using assms by (auto simp: sealAAD_def Let_def gcmTagLen_def split: sum.splits option.splits)

lemma openAAD_sealed:
  assumes ok: "aead_ok G" and s: "sealAAD G (Some iv) key p a = Inr c" and iv: "length iv = 12"
  shows "openAAD G key c b =
    (case gcm_open G key iv (gcm_seal G key iv p a) b of None \<Rightarrow> Inl AuthFailure | Some q \<Rightarrow> Inr q)"
proof -
  let ?s = "gcm_seal G key iv p a"
  have len: "length ?s = length p + 16" using ok by (simp add: aead_ok_def)
  from s have k: "newGCM key = Inr ()"
    and c: "c = HexEncode iv @ '':'' @ HexEncode (drop (length ?s - 16) ?s)
        @ '':'' @ HexEncode (take (length ?s - 16) ?s)"
    by (auto elim: sealAAD_cases)
  show ?thesis
    unfolding openAAD_def c splitPacked_hex
    by (simp add: hex_roundtrip iv len gcmNonceLen_def gcmTagLen_def k)
qed

lemma open_seal:
  assumes "aead_ok G" and "sealAAD G (Some iv) key p a = Inr c" and "length iv = 12"
  shows "openAAD G key c a = Inr p"
  using openAAD_sealed [OF assms] assms(1) by (simp add: aead_ok_def)

lemma open_other_name:
  assumes "aead_ok G" and "aead_binds G N" and "sealAAD G (Some iv) key p a = Inr c"
    and "length iv = 12" and "a \<in> N" and "b \<in> N" and "a \<noteq> b"
  shows "openAAD G key c b = Inl AuthFailure"
  using openAAD_sealed [OF assms(1,3,4)] assms(2,5,6,7) by (simp add: aead_binds_def)

lemma sealAAD_total:
  "length key = 32 \<Longrightarrow> \<exists>c. sealAAD G (Some iv) key p a = Inr c"
  by (simp add: sealAAD_def newGCM_def Let_def)

lemma sealed_nonempty: "sealAAD G rnd key p a = Inr c \<Longrightarrow> c \<noteq> []"
  by (erule sealAAD_cases) simp

text \<open>The text \<open>sealAAD\<close> makes never starts with the letter of a version prefix.\<close>

lemma sealed_hd:
  assumes "sealAAD G rnd key p a = Inr c"
  shows "hd c \<noteq> CHR ''v''"
proof -
  from assms obtain iv rest where c: "c = HexEncode iv @ CHR '':'' # rest"
    by (auto elim: sealAAD_cases)
  show ?thesis
  proof (cases "HexEncode iv")
    case Nil
    with c show ?thesis by simp
  next
    case (Cons x xs)
    with HexEncode_set [of iv] have "x \<in> set ''0123456789abcdef''" by auto
    with c Cons show ?thesis by auto
  qed
qed

lemma sealed_no_LF: "sealAAD G rnd key p a = Inr c \<Longrightarrow> LF \<notin> set c"
  by (erule sealAAD_cases) (simp add: HexEncode_no_LF)

text \<open>A concrete AEAD for which the assumptions hold, used to instantiate the theorems: the
  tag records the length of the additional data.\<close>

definition demo_aead :: aead where
  "demo_aead =
     \<lparr>gcm_seal = (\<lambda>k n p a. p @ replicate 16 (char_of (length a mod 256))),
      gcm_open = (\<lambda>k n c a.
        if length c < 16 \<or> drop (length c - 16) c \<noteq> replicate 16 (char_of (length a mod 256)) then None
        else Some (take (length c - 16) c))\<rparr>"

lemma demo_aead_ok: "aead_ok demo_aead"
  by (simp add: aead_ok_def demo_aead_def)

lemma demo_aead_binds:
  "aead_binds demo_aead {''a'', ''bb''}"
  by (auto simp: aead_binds_def demo_aead_def)

end
