(* ===== verification/Go_Regex.thy ===== *)
theory Go_Regex
  imports Prelude
begin

text \<open>
  Go's package \<open>regexp\<close>, as far as the repository uses it: a compiled regular expression
  is a value of \<open>rx\<close>; \<open>run\<close> is the backtracking search whose first result is, by the
  documentation of the package, the match Go returns ("among the possible matches starting
  leftmost, the one that a backtracking search would have found first"). Results are
  listed in order of preference. Expressions have at most one capturing group.

  Matching is on bytes. Every expression of the repository is over ASCII classes and their
  complements, for which matching bytes and matching runes agree.
\<close>

datatype rx =
    Eps
  | Cls "char \<Rightarrow> bool"
  | Sq rx rx
  | Alt rx rx
  | Star rx
  | Lazy rx
  | Grp rx
  | Bol
  | Eol

text \<open>A search state: bytes consumed, the remaining text, what the group captured.\<close>

type_synonym rst = "nat \<times> string \<times> string option"

function run :: "rx \<Rightarrow> nat \<Rightarrow> string \<Rightarrow> string option \<Rightarrow> rst list" where
  "run Eps i s c = [(i, s, c)]"
| "run (Cls p) i s c = (case s of [] \<Rightarrow> [] | x # t \<Rightarrow> if p x then [(Suc i, t, c)] else [])"
| "run (Sq a b) i s c = concat (map (\<lambda>(j, t, d). run b j t d) (run a i s c))"
| "run (Alt a b) i s c = run a i s c @ run b i s c"
| "run (Star a) i s c =
     concat (map (\<lambda>(j, t, d). if length t < length s then run (Star a) j t d else [])
       (run a i s c)) @ [(i, s, c)]"
| "run (Lazy a) i s c =
     (i, s, c) #
     concat (map (\<lambda>(j, t, d). if length t < length s then run (Lazy a) j t d else [])
       (run a i s c))"
| "run (Grp a) i s c = map (\<lambda>(j, t, _). (j, t, Some (take (j - i) s))) (run a i s c)"
| "run Bol i s c = (if i = 0 then [(i, s, c)] else [])"
| "run Eol i s c = (if s = [] then [(i, s, c)] else [])"
  by pat_completeness auto
termination
  by (relation "measures [\<lambda>(r, i, s, c). size r, \<lambda>(r, i, s, c). length s]") auto

declare run.simps [simp del]

lemmas run_basic [simp] = run.simps(1,2,4,7,8,9)

text \<open>Abbreviations for the syntax of Go's regular expressions.\<close>

definition one :: "char \<Rightarrow> rx" where
  "one c = Cls (\<lambda>x. x = c)"

fun lit :: "string \<Rightarrow> rx" where
  "lit [] = Eps"
| "lit (c # cs) = Sq (one c) (lit cs)"

definition plus :: "rx \<Rightarrow> rx" where
  "plus r = Sq r (Star r)"

definition opt :: "rx \<Rightarrow> rx" where
  "opt r = Alt r Eps"

fun rep :: "nat \<Rightarrow> rx \<Rightarrow> rx" where
  "rep 0 r = Eps"
| "rep (Suc n) r = Sq r (rep n r)"

fun upto_rep :: "nat \<Rightarrow> rx \<Rightarrow> rx" where
  "upto_rep 0 r = Eps"
| "upto_rep (Suc n) r = opt (Sq r (upto_rep n r))"

definition rep_min :: "nat \<Rightarrow> rx \<Rightarrow> rx" where
  "rep_min n r = Sq (rep n r) (Star r)"

definition rep_range :: "nat \<Rightarrow> nat \<Rightarrow> rx \<Rightarrow> rx" where
  "rep_range n m r = Sq (rep n r) (upto_rep (m - n) r)"

definition anyc :: rx where
  "anyc = Cls (\<lambda>x. x \<noteq> LF)"

text \<open>The leftmost match: the text before it, the match, the group, the text after it.\<close>

fun find_from :: "rx \<Rightarrow> nat \<Rightarrow> string \<Rightarrow> (string \<times> string \<times> string option \<times> string) option" where
  "find_from r i s =
     (case run r i s None of
        (j, t, c) # _ \<Rightarrow> Some ([], take (j - i) s, c, t)
      | [] \<Rightarrow>
          (case s of
             [] \<Rightarrow> None
           | x # s' \<Rightarrow> map_option (\<lambda>(pre, m, c, t). (x # pre, m, c, t)) (find_from r (Suc i) s')))"

declare find_from.simps [simp del]

definition MatchString :: "rx \<Rightarrow> string \<Rightarrow> bool" where
  "MatchString r s = (find_from r 0 s \<noteq> None)"

text \<open>\<open>FindString\<close>: the matched text, empty if there is no match.\<close>

definition FindString :: "rx \<Rightarrow> string \<Rightarrow> string" where
  "FindString r s = (case find_from r 0 s of None \<Rightarrow> [] | Some (_, m, _, _) \<Rightarrow> m)"

text \<open>\<open>FindStringSubmatch(s)[1]\<close>, \<open>None\<close> if there is no match.\<close>

definition Submatch1 :: "rx \<Rightarrow> string \<Rightarrow> string option" where
  "Submatch1 r s =
     (case find_from r 0 s of None \<Rightarrow> None | Some (_, _, c, _) \<Rightarrow> Some (case c of None \<Rightarrow> [] | Some g \<Rightarrow> g))"

text \<open>
  The successive non-overlapping matches, with the texts between them:
  \<open>segments r i s = (ms, rest)\<close> says that \<open>s\<close> is the concatenation of the pairs
  (text before, match) of \<open>ms\<close> followed by \<open>rest\<close>. All expressions used with it match
  at least one byte; an empty match ends the scan.
\<close>

function segments :: "rx \<Rightarrow> nat \<Rightarrow> string \<Rightarrow> (string \<times> string \<times> string) list \<times> string" where
  "segments r i s =
     (case find_from r i s of
        None \<Rightarrow> ([], s)
      | Some (pre, m, c, t) \<Rightarrow>
          (if length t < length s
           then (case segments r (i + length pre + length m) t of
                   (ms, rest) \<Rightarrow> ((pre, m, case c of None \<Rightarrow> [] | Some g \<Rightarrow> g) # ms, rest))
           else ([], s)))"
  by pat_completeness auto
termination
  by (relation "measure (\<lambda>(r, i, s). length s)") auto

declare segments.simps [simp del]

text \<open>\<open>FindAllString\<close> and group 1 of \<open>FindAllStringSubmatch\<close>.\<close>

definition FindAllString :: "rx \<Rightarrow> string \<Rightarrow> string list" where
  "FindAllString r s = map (\<lambda>(_, m, _). m) (fst (segments r 0 s))"

definition FindAllSubmatch1 :: "rx \<Rightarrow> string \<Rightarrow> string list" where
  "FindAllSubmatch1 r s = map (\<lambda>(_, _, g). g) (fst (segments r 0 s))"

section \<open>What a match is: a declarative semantics\<close>

text \<open>
  \<open>spans r i u t\<close>: with \<open>i\<close> bytes before it and the text \<open>t\<close> after it, \<open>r\<close> matches
  \<open>u\<close>.
\<close>

inductive spans :: "rx \<Rightarrow> nat \<Rightarrow> string \<Rightarrow> string \<Rightarrow> bool" where
  Eps: "spans Eps i [] t"
| Cls: "p x \<Longrightarrow> spans (Cls p) i [x] t"
| Sq: "spans a i u (v @ t) \<Longrightarrow> spans b (i + length u) v t \<Longrightarrow> spans (Sq a b) i (u @ v) t"
| Alt1: "spans a i u t \<Longrightarrow> spans (Alt a b) i u t"
| Alt2: "spans b i u t \<Longrightarrow> spans (Alt a b) i u t"
| Star0: "spans (Star a) i [] t"
| Star1: "spans a i u (v @ t) \<Longrightarrow> u \<noteq> [] \<Longrightarrow> spans (Star a) (i + length u) v t \<Longrightarrow>
    spans (Star a) i (u @ v) t"
| Lazy0: "spans (Lazy a) i [] t"
| Lazy1: "spans a i u (v @ t) \<Longrightarrow> u \<noteq> [] \<Longrightarrow> spans (Lazy a) (i + length u) v t \<Longrightarrow>
    spans (Lazy a) i (u @ v) t"
| Grp: "spans a i u t \<Longrightarrow> spans (Grp a) i u t"
| Bol: "spans Bol 0 [] t"
| Eol: "spans Eol i [] []"

inductive_simps spans_simps [simp]:
  "spans Eps i u t" "spans (Cls p) i u t" "spans (Alt a b) i u t"
  "spans (Grp a) i u t" "spans Bol i u t" "spans Eol i u t"

inductive_simps spans_Sq: "spans (Sq a b) i u t"

inductive_cases spans_StarE: "spans (Star a) i u t"
inductive_cases spans_LazyE: "spans (Lazy a) i u t"

lemma run_Sq_mem:
  "(j, t, d) \<in> set (run (Sq a b) i s c) \<longleftrightarrow>
   (\<exists>j' t' d'. (j', t', d') \<in> set (run a i s c) \<and> (j, t, d) \<in> set (run b j' t' d'))"
  by (simp add: run.simps(3)) blast

lemma run_Star_mem:
  "(j, t, d) \<in> set (run (Star a) i s c) \<longleftrightarrow>
   (j, t, d) = (i, s, c) \<or>
   (\<exists>j' t' d'. (j', t', d') \<in> set (run a i s c) \<and> length t' < length s \<and>
      (j, t, d) \<in> set (run (Star a) j' t' d'))"
  by (subst run.simps(5)) (auto split: if_splits)

lemma run_Lazy_mem:
  "(j, t, d) \<in> set (run (Lazy a) i s c) \<longleftrightarrow>
   (j, t, d) = (i, s, c) \<or>
   (\<exists>j' t' d'. (j', t', d') \<in> set (run a i s c) \<and> length t' < length s \<and>
      (j, t, d) \<in> set (run (Lazy a) j' t' d'))"
  by (subst run.simps(6)) (auto split: if_splits)

lemma run_sound:
  "(j, t, d) \<in> set (run r i s c) \<Longrightarrow> \<exists>u. s = u @ t \<and> j = i + length u \<and> spans r i u t"
proof (induction r i s c arbitrary: j t d rule: run.induct)
  case (2 p i s c)
  then show ?case by (auto split: list.splits if_splits)
next
  case (3 a b i s c)
  then obtain j' t' d' where 1: "(j', t', d') \<in> set (run a i s c)"
    and 2: "(j, t, d) \<in> set (run b j' t' d')"
    unfolding run_Sq_mem by blast
  from 3(1)[OF 1] obtain u where u: "s = u @ t'" "j' = i + length u" "spans a i u t'"
    by blast
  from 3(2)[OF 1 refl refl 2] obtain v where v: "t' = v @ t" "j = j' + length v" "spans b j' v t"
    by blast
  from u v have "spans (Sq a b) i (u @ v) t" by (auto intro: spans.Sq)
  moreover from u v have "s = (u @ v) @ t" "j = i + length (u @ v)" by auto
  ultimately show ?case by blast
next
  case (4 a b i s c)
  then show ?case by fastforce
next
  case (5 a i s c)
  show ?case
  proof (cases "(j, t, d) = (i, s, c)")
    case True
    then show ?thesis by (auto intro: spans.Star0)
  next
    case False
    with iffD1 [OF run_Star_mem 5(3)] obtain j' t' d' where
      1: "(j', t', d') \<in> set (run a i s c)"
      and 2: "length t' < length s" and 3: "(j, t, d) \<in> set (run (Star a) j' t' d')"
      by blast
    from 5(1)[OF 1] obtain u where u: "s = u @ t'" "j' = i + length u" "spans a i u t'"
      by blast
    from 5(2)[OF 1 refl refl 2 3] obtain v where
      v: "t' = v @ t" "j = j' + length v" "spans (Star a) j' v t"
      by blast
    from u 2 have "u \<noteq> []" by auto
    with u v have "spans (Star a) i (u @ v) t" by (auto intro: spans.Star1)
    moreover from u v have "s = (u @ v) @ t" "j = i + length (u @ v)" by auto
    ultimately show ?thesis by blast
  qed
next
  case (6 a i s c)
  show ?case
  proof (cases "(j, t, d) = (i, s, c)")
    case True
    then show ?thesis by (auto intro: spans.Lazy0)
  next
    case False
    with iffD1 [OF run_Lazy_mem 6(3)] obtain j' t' d' where
      1: "(j', t', d') \<in> set (run a i s c)"
      and 2: "length t' < length s" and 3: "(j, t, d) \<in> set (run (Lazy a) j' t' d')"
      by blast
    from 6(1)[OF 1] obtain u where u: "s = u @ t'" "j' = i + length u" "spans a i u t'"
      by blast
    from 6(2)[OF 1 refl refl 2 3] obtain v where
      v: "t' = v @ t" "j = j' + length v" "spans (Lazy a) j' v t"
      by blast
    from u 2 have "u \<noteq> []" by auto
    with u v have "spans (Lazy a) i (u @ v) t" by (auto intro: spans.Lazy1)
    moreover from u v have "s = (u @ v) @ t" "j = i + length (u @ v)" by auto
    ultimately show ?thesis by blast
  qed
next
  case (7 a i s c)
  then show ?case by fastforce
qed (auto split: if_splits)

lemma run_complete:
  "spans r i u t \<Longrightarrow> \<exists>d. (i + length u, t, d) \<in> set (run r i (u @ t) c)"
proof (induction arbitrary: c rule: spans.induct)
  case (Sq a i u v t b)
  from Sq.IH(1) obtain d where 1: "(i + length u, v @ t, d) \<in> set (run a i (u @ v @ t) c)"
    by blast
  from Sq.IH(2) obtain e where
    2: "(i + length u + length v, t, e) \<in> set (run b (i + length u) (v @ t) d)"
    by blast
  from 1 2 have "(i + length u + length v, t, e) \<in> set (run (Sq a b) i (u @ v @ t) c)"
    unfolding run_Sq_mem by blast
  then show ?case by (auto simp: add.assoc simp del: run_basic)
next
  case (Alt1 a i u t b)
  then show ?case by (metis Un_iff run.simps(4) set_append)
next
  case (Alt2 b i u t a)
  then show ?case by (metis Un_iff run.simps(4) set_append)
next
  case (Star0 a i t)
  show ?case by (subst run.simps(5)) auto
next
  case (Star1 a i u v t)
  from Star1.IH(1) obtain d where 1: "(i + length u, v @ t, d) \<in> set (run a i (u @ v @ t) c)"
    by blast
  from Star1.IH(2) obtain e where
    2: "(i + length u + length v, t, e) \<in> set (run (Star a) (i + length u) (v @ t) d)"
    by blast
  have "length (v @ t) < length (u @ v @ t)" using Star1.hyps(2) by simp
  with 1 2 have "(i + length u + length v, t, e) \<in> set (run (Star a) i (u @ v @ t) c)"
    by (intro iffD2 [OF run_Star_mem]) blast
  then show ?case by (auto simp: add.assoc)
next
  case (Lazy0 a i t)
  show ?case by (subst run.simps(6)) auto
next
  case (Lazy1 a i u v t)
  from Lazy1.IH(1) obtain d where 1: "(i + length u, v @ t, d) \<in> set (run a i (u @ v @ t) c)"
    by blast
  from Lazy1.IH(2) obtain e where
    2: "(i + length u + length v, t, e) \<in> set (run (Lazy a) (i + length u) (v @ t) d)"
    by blast
  have "length (v @ t) < length (u @ v @ t)" using Lazy1.hyps(2) by simp
  with 1 2 have "(i + length u + length v, t, e) \<in> set (run (Lazy a) i (u @ v @ t) c)"
    by (intro iffD2 [OF run_Lazy_mem]) blast
  then show ?case by (auto simp: add.assoc)
next
  case (Grp a i u t)
  then show ?case by force
qed auto

lemma run_empty_iff: "run r i s c = [] \<longleftrightarrow> \<not> (\<exists>u t. s = u @ t \<and> spans r i u t)"
proof (intro iffI notI)
  assume e: "run r i s c = []" and "\<exists>u t. s = u @ t \<and> spans r i u t"
  then obtain u t where "s = u @ t" "spans r i u t" by blast
  with run_complete [of r i u t c] e show False by auto
next
  assume h: "\<not> (\<exists>u t. s = u @ t \<and> spans r i u t)"
  show "run r i s c = []"
  proof (rule ccontr)
    assume "run r i s c \<noteq> []"
    then obtain j t d where "(j, t, d) \<in> set (run r i s c)"
      by (metis last_in_set prod_cases3)
    with run_sound h show False by blast
  qed
qed


section \<open>Searching\<close>

lemma find_from_None_step:
  "find_from r i s = None \<longleftrightarrow>
   run r i s None = [] \<and> (case s of [] \<Rightarrow> True | x # s' \<Rightarrow> find_from r (Suc i) s' = None)"
  by (subst find_from.simps) (auto split: list.splits)

lemma find_from_None:
  "find_from r i s = None \<longleftrightarrow> \<not> (\<exists>pre u t. s = pre @ u @ t \<and> spans r (i + length pre) u t)"
proof (induction s arbitrary: i)
  case Nil
  then show ?case
    by (simp add: find_from_None_step run_empty_iff)
next
  case (Cons x s)
  have "(\<exists>pre u t. x # s = pre @ u @ t \<and> spans r (i + length pre) u t) \<longleftrightarrow>
      (\<exists>u t. x # s = u @ t \<and> spans r i u t) \<or>
      (\<exists>pre u t. s = pre @ u @ t \<and> spans r (Suc i + length pre) u t)" (is "?L \<longleftrightarrow> ?A \<or> ?B")
  proof
    assume ?L
    then obtain pre u t where e: "x # s = pre @ u @ t" "spans r (i + length pre) u t"
      by blast
    then show "?A \<or> ?B"
      by (cases pre) auto
  next
    assume "?A \<or> ?B"
    then show ?L
    proof
      assume ?A
      then obtain u t where "x # s = [] @ u @ t" "spans r (i + length ([] :: string)) u t" by auto
      then show ?L by (intro exI conjI)
    next
      assume ?B
      then obtain pre u t where
        "x # s = (x # pre) @ u @ t" "spans r (i + length (x # pre)) u t" by auto
      then show ?L by (intro exI conjI)
    qed
  qed
  then show ?case
    using Cons.IH [of "Suc i"] by (simp add: find_from_None_step [of r i] run_empty_iff)
qed

lemma find_from_Some:
  assumes "find_from r i s = Some (pre, m, c, t)"
  shows "s = pre @ m @ t \<and> spans r (i + length pre) m t"
  using assms
proof (induction s arbitrary: i pre)
  case Nil
  then obtain j d ys where *: "run r i [] None = (j, t, d) # ys" "pre = []" "m = []" "t = []"
    using run_sound [of _ _ _ r i "[]" None]
    by (auto simp: find_from.simps [of r i "[]"] split: list.splits prod.splits)
  then have "(j, t, d) \<in> set (run r i [] None)" by simp
  from run_sound [OF this] * show ?case by auto
next
  case (Cons x s)
  show ?case
  proof (cases "run r i (x # s) None")
    case Nil
    with Cons.prems obtain pre' where "find_from r (Suc i) s = Some (pre', m, c, t)" "pre = x # pre'"
      by (auto simp: find_from.simps [of r i "x # s"])
    with Cons.IH [of "Suc i" pre'] show ?thesis by simp
  next
    case C: (Cons y ys)
    obtain j t' d where y: "y = (j, t', d)" by (cases y)
    from C y have "(j, t', d) \<in> set (run r i (x # s) None)" by simp
    from run_sound [OF this] obtain u where
      u: "x # s = u @ t'" "j = i + length u" "spans r i u t'" by blast
    from Cons.prems C y have "pre = []" "m = take (j - i) (x # s)" "t = t'"
      by (auto simp: find_from.simps [of r i "x # s"])
    with u show ?thesis by simp
  qed
qed

text \<open>Nothing matches further left than the match found.\<close>

lemma find_from_leftmost:
  assumes "find_from r i s = Some (pre, m, c, t)" and "length p < length pre"
  shows "\<not> (\<exists>u v. s = p @ u @ v \<and> spans r (i + length p) u v)"
  using assms
proof (induction s arbitrary: i pre p)
  case Nil
  then show ?case
    by (auto simp: find_from.simps [of r i "[]"] split: list.splits prod.splits)
next
  case (Cons x s)
  show ?case
  proof (cases "run r i (x # s) None")
    case Nil
    with Cons.prems obtain pre' where
      f: "find_from r (Suc i) s = Some (pre', m, c, t)" "pre = x # pre'"
      by (auto simp: find_from.simps [of r i "x # s"])
    show ?thesis
    proof (cases p)
      case Nil
      with \<open>run r i (x # s) None = []\<close> show ?thesis
        by (auto simp: run_empty_iff)
    next
      case p: (Cons y p')
      with f Cons.prems have "length p' < length pre'" by simp
      from Cons.IH [OF f(1) this] p show ?thesis by auto
    qed
  next
    case C: (Cons y ys)
    with Cons.prems show ?thesis
      by (auto simp: find_from.simps [of r i "x # s"] split: prod.splits)
  qed
qed

lemma MatchString_iff: "MatchString r s \<longleftrightarrow> (\<exists>pre u t. s = pre @ u @ t \<and> spans r (length pre) u t)"
  using find_from_None [of r 0 s] by (auto simp: MatchString_def)

definition anchored :: "rx \<Rightarrow> rx" where
  "anchored r = Sq Bol (Sq r Eol)"

lemma segments_concat:
  "segments r i s = (ms, rest) \<Longrightarrow> s = concat (map (\<lambda>(p, m, _). p @ m) ms) @ rest"
proof (induction r i s arbitrary: ms rest rule: segments.induct)
  case (1 r i s)
  show ?case
  proof (cases "find_from r i s")
    case None
    with 1(2) show ?thesis by (simp add: segments.simps [of r i s])
  next
    case (Some q)
    then obtain pre m c t where q: "find_from r i s = Some (pre, m, c, t)" by (cases q) auto
    show ?thesis
    proof (cases "length t < length s")
      case True
      obtain ms' rest' where r: "segments r (i + length pre + length m) t = (ms', rest')"
        by (cases "segments r (i + length pre + length m) t")
      have "t = concat (map (\<lambda>(p, m, _). p @ m) ms') @ rest'"
        by (rule 1(1)[OF q refl refl refl True r])
      moreover have "(ms, rest) = ((pre, m, case c of None \<Rightarrow> [] | Some g \<Rightarrow> g) # ms', rest')"
        using r q True 1(2) by (simp add: segments.simps [of r i s])
      ultimately show ?thesis using find_from_Some [OF q] by simp
    next
      case False
      with q 1(2) show ?thesis by (simp add: segments.simps [of r i s])
    qed
  qed
qed

section \<open>Common shapes\<close>

lemma spans_one [simp]: "spans (one a) i u t \<longleftrightarrow> u = [a]"
  by (auto simp: one_def)

lemma spans_Sq_Cls [simp]:
  "spans (Sq (Cls p) b) i u t \<longleftrightarrow> (\<exists>x v. u = x # v \<and> p x \<and> spans b (Suc i) v t)"
proof
  assume "spans (Sq (Cls p) b) i u t"
  then show "\<exists>x v. u = x # v \<and> p x \<and> spans b (Suc i) v t"
    by (auto simp: spans_Sq)
next
  assume "\<exists>x v. u = x # v \<and> p x \<and> spans b (Suc i) v t"
  then obtain x v where "u = [x] @ v" "p x" "spans b (i + length [x]) v t" by auto
  then show "spans (Sq (Cls p) b) i u t" unfolding spans_Sq spans_simps by blast
qed

lemma spans_Sq_one [simp]:
  "spans (Sq (one a) b) i u t \<longleftrightarrow> (\<exists>v. u = a # v \<and> spans b (Suc i) v t)"
  by (auto simp: one_def)

lemma spans_Sq_Eps [simp]: "spans (Sq Eps b) i u t \<longleftrightarrow> spans b i u t"
  by (auto simp: spans_Sq)

lemma spans_Sq_Bol [simp]: "spans (Sq Bol b) i u t \<longleftrightarrow> i = 0 \<and> spans b 0 u t"
  by (auto simp: spans_Sq)

lemma spans_Sq_Eol [simp]: "spans (Sq a Eol) i u t \<longleftrightarrow> t = [] \<and> spans a i u []"
  by (auto simp: spans_Sq)

lemma spans_lit [simp]: "spans (lit w) i u t \<longleftrightarrow> u = w"
  by (induction w arbitrary: i u t) auto

lemma spans_Sq_lit [simp]:
  "spans (Sq (lit w) b) i u t \<longleftrightarrow> (\<exists>v. u = w @ v \<and> spans b (i + length w) v t)"
  by (auto simp: spans_Sq)

lemma MatchString_anchored: "MatchString (anchored r) s \<longleftrightarrow> spans r 0 s []"
  by (auto simp: MatchString_iff anchored_def)

lemma spans_opt [simp]: "spans (opt r) i u t \<longleftrightarrow> spans r i u t \<or> u = []"
  by (auto simp: opt_def)

lemma spans_Star_Cls [simp]: "spans (Star (Cls p)) i u t \<longleftrightarrow> list_all p u"
proof
  show "spans (Star (Cls p)) i u t \<Longrightarrow> list_all p u"
    by (induction "Star (Cls p)" i u t rule: spans.induct) auto
  show "list_all p u \<Longrightarrow> spans (Star (Cls p)) i u t"
  proof (induction u arbitrary: i)
    case Nil
    show ?case by (rule spans.Star0)
  next
    case (Cons x u)
    then have "spans (Star (Cls p)) i ([x] @ u) t"
      by (intro spans.Star1) auto
    then show ?case by simp
  qed
qed

lemma spans_plus_Cls [simp]: "spans (plus (Cls p)) i u t \<longleftrightarrow> u \<noteq> [] \<and> list_all p u"
  by (cases u) (auto simp: plus_def)

lemma spans_Sq_assoc [simp]: "spans (Sq (Sq a b) c) i u t \<longleftrightarrow> spans (Sq a (Sq b c)) i u t"
proof
  assume "spans (Sq (Sq a b) c) i u t"
  then obtain x y z where "u = (x @ y) @ z" "spans a i x (y @ z @ t)"
    "spans b (i + length x) y (z @ t)" "spans c (i + length (x @ y)) z t"
    unfolding spans_Sq by auto
  then show "spans (Sq a (Sq b c)) i u t"
    by (auto intro!: spans.Sq simp: add.assoc)
next
  assume "spans (Sq a (Sq b c)) i u t"
  then obtain x y z where u: "u = (x @ y) @ z" "spans a i x (y @ z @ t)"
    "spans b (i + length x) y (z @ t)" "spans c (i + length x + length y) z t"
    unfolding spans_Sq by auto
  then have "spans (Sq a b) i (x @ y) (z @ t)" by (intro spans.Sq) auto
  moreover from u have "spans c (i + length (x @ y)) z t" by (simp add: add.assoc)
  ultimately show "spans (Sq (Sq a b) c) i u t" unfolding u(1) by (rule spans.Sq)
qed

lemma spans_Sq_Grp [simp]: "spans (Sq (Grp a) b) i u t \<longleftrightarrow> spans (Sq a b) i u t"
  by (auto simp: spans_Sq)

lemma spans_Sq_plus_Cls [simp]:
  "spans (Sq (plus (Cls p)) b) i u t \<longleftrightarrow>
   (\<exists>v w. u = v @ w \<and> v \<noteq> [] \<and> list_all p v \<and> spans b (i + length v) w t)"
  by (auto simp: spans_Sq)

lemma spans_Sq_Star_Cls [simp]:
  "spans (Sq (Star (Cls p)) b) i u t \<longleftrightarrow>
   (\<exists>v w. u = v @ w \<and> list_all p v \<and> spans b (i + length v) w t)"
  by (auto simp: spans_Sq)

lemma list_all_neq: "list_all (\<lambda>x. x \<noteq> a) xs \<longleftrightarrow> a \<notin> set xs"
  by (auto simp: list_all_iff)

lemma spans_Star_anyc [simp]: "spans (Star anyc) i u t \<longleftrightarrow> LF \<notin> set u"
  by (simp add: anyc_def list_all_neq)

lemma spans_Sq_Star_anyc [simp]:
  "spans (Sq (Star anyc) b) i u t \<longleftrightarrow>
   (\<exists>v w. u = v @ w \<and> LF \<notin> set v \<and> spans b (i + length v) w t)"
  by (simp add: anyc_def list_all_neq)

lemma spans_rep_Cls [simp]: "spans (rep n (Cls p)) i u t \<longleftrightarrow> length u = n \<and> list_all p u"
  by (induction n arbitrary: i u) (auto simp: length_Suc_conv)

lemma spans_rep_min_Cls [simp]:
  "spans (rep_min n (Cls p)) i u t \<longleftrightarrow> n \<le> length u \<and> list_all p u"
proof
  assume h: "n \<le> length u \<and> list_all p u"
  then have "u = take n u @ drop n u" "length (take n u) = n"
    "list_all p (take n u)" "list_all p (drop n u)"
    by (auto simp: list_all_iff dest: in_set_takeD in_set_dropD)
  then show "spans (rep_min n (Cls p)) i u t"
    unfolding rep_min_def spans_Sq by (metis spans_rep_Cls spans_Star_Cls)
qed (auto simp: rep_min_def spans_Sq)

lemma spans_upto_rep_Cls [simp]:
  "spans (upto_rep n (Cls p)) i u t \<longleftrightarrow> length u \<le> n \<and> list_all p u"
proof (induction n arbitrary: i u)
  case (Suc n)
  then show ?case by (cases u) auto
qed auto

lemma spans_rep_range_Cls [simp]:
  assumes "n \<le> m"
  shows "spans (rep_range n m (Cls p)) i u t \<longleftrightarrow> n \<le> length u \<and> length u \<le> m \<and> list_all p u"
proof
  assume h: "n \<le> length u \<and> length u \<le> m \<and> list_all p u"
  then have "u = take n u @ drop n u" "length (take n u) = n" "length (drop n u) \<le> m - n"
    "list_all p (take n u)" "list_all p (drop n u)"
    using assms by (auto simp: list_all_iff dest: in_set_takeD in_set_dropD)
  then show "spans (rep_range n m (Cls p)) i u t"
    unfolding rep_range_def spans_Sq by (metis spans_rep_Cls spans_upto_rep_Cls)
qed (use assms in \<open>auto simp: rep_range_def spans_Sq\<close>)

lemma run_Star_Cls:
  "run (Star (Cls p)) i s c =
   map (\<lambda>k. (i + k, drop k s, c)) (rev [0..<Suc (length (takeWhile p s))])"
proof (induction s arbitrary: i)
  case Nil
  then show ?case by (subst run.simps(5)) simp
next
  case (Cons x s)
  show ?case
  proof (cases "p x")
    case True
    have up: "[0..<Suc (Suc n)] = 0 # map Suc [0..<Suc n]" for n :: nat
      by (metis map_Suc_upt upt_conv_Cons zero_less_Suc)
    show ?thesis
      using True
      by (subst run.simps(5)) (simp add: Cons.IH [of "Suc i"] rev_map up del: upt_Suc)
  next
    case False
    then show ?thesis by (subst run.simps(5)) simp
  qed
qed


section \<open>The captured group\<close>

primrec no_grp :: "rx \<Rightarrow> bool" where
  "no_grp Eps = True"
| "no_grp (Cls p) = True"
| "no_grp (Sq a b) = (no_grp a \<and> no_grp b)"
| "no_grp (Alt a b) = (no_grp a \<and> no_grp b)"
| "no_grp (Star a) = no_grp a"
| "no_grp (Lazy a) = no_grp a"
| "no_grp (Grp a) = False"
| "no_grp Bol = True"
| "no_grp Eol = True"

lemma no_grp_shapes [simp]:
  "no_grp (one c)" "no_grp (lit w)" "no_grp (plus r) = no_grp r" "no_grp (opt r) = no_grp r"
  "no_grp anyc"
  by (induction w) (auto simp: one_def plus_def opt_def anyc_def)

lemma run_no_grp: "no_grp r \<Longrightarrow> (j, t, d) \<in> set (run r i s c) \<Longrightarrow> d = c"
proof (induction r i s c arbitrary: j t d rule: run.induct)
  case (2 p i s c)
  then show ?case by (auto split: list.splits if_splits)
next
  case (3 a b i s c)
  from 3(4) obtain j' t' d' where m: "(j', t', d') \<in> set (run a i s c)"
    "(j, t, d) \<in> set (run b j' t' d')"
    unfolding run_Sq_mem by blast
  with 3(1)[OF _ m(1)] 3(2)[OF m(1) refl refl _ m(2)] 3(3) show ?case by simp
next
  case (4 a b i s c)
  then show ?case by auto
next
  case (5 a i s c)
  show ?case
  proof (cases "(j, t, d) = (i, s, c)")
    case False
    with iffD1 [OF run_Star_mem 5(4)] obtain j' t' d' where m: "(j', t', d') \<in> set (run a i s c)"
      "length t' < length s" "(j, t, d) \<in> set (run (Star a) j' t' d')" by blast
    with 5(1)[OF _ m(1)] 5(2)[OF m(1) refl refl m(2) _ m(3)] 5(3) show ?thesis by simp
  qed simp
next
  case (6 a i s c)
  show ?case
  proof (cases "(j, t, d) = (i, s, c)")
    case False
    with iffD1 [OF run_Lazy_mem 6(4)] obtain j' t' d' where m: "(j', t', d') \<in> set (run a i s c)"
      "length t' < length s" "(j, t, d) \<in> set (run (Lazy a) j' t' d')" by blast
    with 6(1)[OF _ m(1)] 6(2)[OF m(1) refl refl m(2) _ m(3)] 6(3) show ?thesis by simp
  qed simp
qed (auto split: if_splits)

lemma run_group:
  assumes "no_grp b" and "(j, t, d) \<in> set (run (Sq a (Sq (Grp g) b)) i s c)"
  shows "\<exists>x u y. s = x @ u @ y @ t \<and> spans a i x (u @ y @ t) \<and>
    spans g (i + length x) u (y @ t) \<and> spans b (i + length x + length u) y t \<and> d = Some u"
proof -
  from assms(2) obtain j1 t1 d1 j2 t2 d2 where
    m1: "(j1, t1, d1) \<in> set (run a i s c)" and
    m2: "(j2, t2, d2) \<in> set (run (Grp g) j1 t1 d1)" and
    m3: "(j, t, d) \<in> set (run b j2 t2 d2)"
    unfolding run_Sq_mem by blast
  from run_sound [OF m1] obtain x where x: "s = x @ t1" "j1 = i + length x" "spans a i x t1"
    by blast
  from m2 obtain d3 where m2': "(j2, t2, d3) \<in> set (run g j1 t1 d1)"
    and d2: "d2 = Some (take (j2 - j1) t1)" by auto
  from run_sound [OF m2'] obtain u where u: "t1 = u @ t2" "j2 = j1 + length u" "spans g j1 u t2"
    by blast
  from run_sound [OF m3] obtain y where y: "t2 = y @ t" "spans b j2 y t" by blast
  from run_no_grp [OF assms(1) m3] d2 u have "d = Some u" by simp
  with x u y show ?thesis by blast
qed

lemma find_from_run:
  "find_from r i s = Some (pre, m, c, t) \<Longrightarrow>
   \<exists>j ys. run r (i + length pre) (m @ t) None = (j, t, c) # ys"
proof (induction s arbitrary: i pre)
  case Nil
  then show ?case
    using find_from_Some [OF Nil]
    by (auto simp: find_from.simps [of r i "[]"] split: list.splits prod.splits)
next
  case (Cons x s)
  show ?case
  proof (cases "run r i (x # s) None")
    case Nil
    with Cons.prems obtain pre' where "find_from r (Suc i) s = Some (pre', m, c, t)" "pre = x # pre'"
      by (auto simp: find_from.simps [of r i "x # s"])
    with Cons.IH [of "Suc i" pre'] show ?thesis by simp
  next
    case C: (Cons y ys)
    obtain j t' d where y: "y = (j, t', d)" by (cases y)
    with C Cons.prems have "pre = []" "t' = t" "d = c"
      by (auto simp: find_from.simps [of r i "x # s"])
    moreover from this find_from_Some [OF Cons.prems] have "x # s = m @ t" by simp
    ultimately show ?thesis using C y by auto
  qed
qed

lemma Submatch1_None: "Submatch1 r s = None \<longleftrightarrow> \<not> MatchString r s"
  by (auto simp: Submatch1_def MatchString_def split: option.splits)

lemma Submatch1_group:
  assumes "no_grp b" and "Submatch1 (Sq a (Sq (Grp g) b)) s = Some w"
  shows "\<exists>p x y t. s = p @ x @ w @ y @ t \<and> spans a (length p) x (w @ y @ t) \<and>
    spans g (length p + length x) w (y @ t) \<and> spans b (length p + length x + length w) y t"
proof -
  let ?r = "Sq a (Sq (Grp g) b)"
  from assms(2) obtain p m c t where f: "find_from ?r 0 s = Some (p, m, c, t)"
    and w: "w = (case c of None \<Rightarrow> [] | Some g \<Rightarrow> g)"
    by (auto simp: Submatch1_def split: option.splits)
  from find_from_run [OF f] obtain j ys where "run ?r (length p) (m @ t) None = (j, t, c) # ys"
    by auto
  then have "(j, t, c) \<in> set (run ?r (length p) (m @ t) None)" by simp
  from run_group [OF assms(1) this] obtain x u y where
    "m @ t = x @ u @ y @ t" "spans a (length p) x (u @ y @ t)"
    "spans g (length p + length x) u (y @ t)" "spans b (length p + length x + length u) y t"
    "c = Some u" by blast
  with find_from_Some [OF f] w show ?thesis by auto
qed

end
