(* ===== verification/Envelope.thy ===== *)
theory Envelope
  imports Crypto Go_Regex
begin

text \<open>
  The key envelope: wrapping and unwrapping the master key under the operator's passphrase
  (\<open>Wrap\<close>, \<open>Unwrap\<close> of \<open>internal/crypto/crypto.go\<close>), the multi-key envelope file and the
  version prefix of packed ciphertexts (\<open>internal/crypto/envelope.go\<close>).
\<close>

section \<open>Wrapping the master key\<close>

record Params =
  Params_M :: "32 word"
  Params_T :: "32 word"
  Params_P :: "8 word"

definition DefaultParams :: Params where
  "DefaultParams = \<lparr>Params_M = 64 * 1024, Params_T = 3, Params_P = 1\<rparr>"

record Envelope =
  Env_ID :: int
  Env_Created :: string
  Env_KDF :: string
  Env_Salt :: string
  Env_Params :: Params
  Env_IV :: string
  Env_Tag :: string
  Env_Wrapped :: string

text \<open>\<open>argon2.IDKey\<close> with a 32-byte output: password, salt, parameters.\<close>

type_synonym kdf = "string \<Rightarrow> bytes \<Rightarrow> Params \<Rightarrow> bytes"

definition kdf_ok :: "kdf \<Rightarrow> bool" where
  "kdf_ok H \<longleftrightarrow> (\<forall>pw salt p. length (H pw salt p) = MasterKeyLen)"

definition NewMasterKey :: "bytes option \<Rightarrow> crypto_error + bytes" where
  "NewMasterKey rnd = (case rnd of None \<Rightarrow> Inl RandFailure | Some k \<Rightarrow> Inr k)"

definition DeriveKEK :: "kdf \<Rightarrow> string \<Rightarrow> bytes \<Rightarrow> Params \<Rightarrow> bytes" where
  "DeriveKEK H password salt p = H password salt p"

definition Wrap ::
  "aead \<Rightarrow> kdf \<Rightarrow> bytes option \<Rightarrow> bytes option \<Rightarrow> bytes \<Rightarrow> string \<Rightarrow> crypto_error + Envelope" where
  "Wrap G H saltRnd ivRnd masterKey password =
     (case saltRnd of
        None \<Rightarrow> Inl RandFailure
      | Some salt \<Rightarrow>
          (let p = DefaultParams; kek = DeriveKEK H password salt p in
           case Seal G ivRnd kek masterKey of
             Inl e \<Rightarrow> Inl e
           | Inr packed \<Rightarrow>
               (case splitPacked packed of
                  Inl _ \<Rightarrow> Inr \<lparr>Env_ID = 0, Env_Created = [], Env_KDF = ''argon2id'',
                             Env_Salt = Base64Encode b64_std salt, Env_Params = p,
                             Env_IV = [], Env_Tag = [], Env_Wrapped = []\<rparr>
                | Inr (iv, tag, ct) \<Rightarrow>
                    Inr \<lparr>Env_ID = 0, Env_Created = [], Env_KDF = ''argon2id'',
                       Env_Salt = Base64Encode b64_std salt, Env_Params = p,
                       Env_IV = iv, Env_Tag = tag, Env_Wrapped = ct\<rparr>)))"

definition Unwrap :: "aead \<Rightarrow> kdf \<Rightarrow> Envelope \<Rightarrow> string \<Rightarrow> crypto_error + bytes" where
  "Unwrap G H env password =
     (case Base64Decode b64_std (Env_Salt env) of
        None \<Rightarrow> Inl BadSalt
      | Some salt \<Rightarrow>
          (let p = (if Params_M (Env_Params env) = 0 \<or> Params_T (Env_Params env) = 0
                       \<or> Params_P (Env_Params env) = 0
                    then DefaultParams else Env_Params env);
               kek = DeriveKEK H password salt p in
           case Open G kek (Env_IV env @ '':'' @ Env_Tag env @ '':'' @ Env_Wrapped env) of
             Inl _ \<Rightarrow> Inl BadPassword
           | Inr key \<Rightarrow> if length key \<noteq> MasterKeyLen then Inl WrongKeyLength else Inr key))"

lemma Wrap_cases:
  assumes "Wrap G H saltRnd ivRnd mk pw = Inr env"
  obtains salt iv packed where "saltRnd = Some salt" "ivRnd = Some iv"
    "Seal G (Some iv) (H pw salt DefaultParams) mk = Inr packed"
    "Env_Salt env = Base64Encode b64_std salt" "Env_Params env = DefaultParams"
    "packed = Env_IV env @ '':'' @ Env_Tag env @ '':'' @ Env_Wrapped env"
proof -
  from assms obtain salt packed where 1: "saltRnd = Some salt"
    "Seal G ivRnd (H pw salt DefaultParams) mk = Inr packed"
    by (auto simp: Wrap_def Let_def DeriveKEK_def split: option.splits sum.splits)
  from 1(2) obtain iv a b where 2: "ivRnd = Some iv"
    "packed = HexEncode iv @ '':'' @ HexEncode a @ '':'' @ HexEncode b"
    unfolding Seal_def by (auto elim: sealAAD_cases)
  from assms 1 2 show ?thesis
    by (intro that) (auto simp: Wrap_def Let_def DeriveKEK_def splitPacked_hex simp del: append.simps)
qed

lemma Unwrap_Wrap:
  assumes "aead_ok G" and "Wrap G H saltRnd (Some iv) mk pw = Inr env"
    and "length iv = 12" and "length mk = 32"
  shows "Unwrap G H env pw = Inr mk"
proof -
  from assms(2) obtain salt packed where
    s: "Seal G (Some iv) (H pw salt DefaultParams) mk = Inr packed"
    and e: "Env_Salt env = Base64Encode b64_std salt" "Env_Params env = DefaultParams"
    and p: "packed = Env_IV env @ '':'' @ Env_Tag env @ '':'' @ Env_Wrapped env"
    by (elim Wrap_cases) auto
  from open_seal [OF assms(1) s [unfolded Seal_def] assms(3)]
  have "Open G (H pw salt DefaultParams) packed = Inr mk" by (simp add: Open_def)
  then show ?thesis
    using assms(4)
    by (simp add: Unwrap_def e base64_roundtrip b64_std_alphabet DefaultParams_def DeriveKEK_def
        MasterKeyLen_def p)
qed

section \<open>The version prefix\<close>

text \<open>\<open>^v([0-9]+):(.*)$\<close>, once with each of its two groups captured.\<close>

definition versionPrefixRE1 :: rx where
  "versionPrefixRE1 =
     Sq (Sq Bol (one CHR ''v''))
       (Sq (Grp (plus (Cls is_digit))) (Sq (one CHR '':'') (Sq (Star anyc) Eol)))"

definition versionPrefixRE2 :: rx where
  "versionPrefixRE2 =
     Sq (Sq Bol (Sq (one CHR ''v'') (Sq (plus (Cls is_digit)) (one CHR '':''))))
       (Sq (Grp (Star anyc)) Eol)"

definition PackVersion :: "int \<Rightarrow> string \<Rightarrow> string" where
  "PackVersion version raw = ''v'' @ Itoa version @ '':'' @ raw"

definition firstSegment :: "string \<Rightarrow> string" where
  "firstSegment s =
     (case IndexByte s CHR '':'' of
        Some i \<Rightarrow> if 0 < i then take (i + 1) s else s
      | None \<Rightarrow> s)"

definition ParseVersion :: "string \<Rightarrow> crypto_error + (int \<times> string)" where
  "ParseVersion s =
     (if s = [] then Inl EmptyPacked
      else
        (case Submatch1 versionPrefixRE1 s of
           None \<Rightarrow> Inr (1, s)
         | Some m1 \<Rightarrow>
             (case Atoi m1 of
                None \<Rightarrow> Inl (BadVersionPrefix (firstSegment s))
              | Some v \<Rightarrow>
                  if v < 1 then Inl (BadVersionPrefix (firstSegment s))
                  else Inr (v, case Submatch1 versionPrefixRE2 s of None \<Rightarrow> [] | Some m2 \<Rightarrow> m2))))"

section \<open>The envelope file\<close>

definition EnvelopeSchemaVersion :: int where
  "EnvelopeSchemaVersion = 3"

record EnvelopeFile =
  EF_Version :: int
  EF_Keys :: "Envelope list"
  EF_Current :: int

text \<open>What \<open>encoding/json\<close> makes of \<open>envelope.json\<close>: not decodable; an object with a
  \<open>keys\<close> member, decoded as an \<open>EnvelopeFile\<close> or not; an object without one, decoded as a
  bare \<open>Envelope\<close> or not.\<close>

datatype envelope_json =
    NotJSON
  | WithKeys "EnvelopeFile option"
  | Bare "Envelope option"

datatype envelope_error =
    EnvelopeMalformed
  | EmptyKeys
  | LegacyMalformed
  | CannotRemoveCurrent int
  | NoKeyWithId int

definition max_id :: "Envelope list \<Rightarrow> int" where
  "max_id ks = foldl (\<lambda>m k. if m < Env_ID k then Env_ID k else m) 0 ks"

definition LoadEnvelopeFile :: "string \<Rightarrow> envelope_json \<Rightarrow> envelope_error + EnvelopeFile" where
  "LoadEnvelopeFile now data =
     (case data of
        NotJSON \<Rightarrow> Inl EnvelopeMalformed
      | WithKeys None \<Rightarrow> Inl EnvelopeMalformed
      | WithKeys (Some f) \<Rightarrow>
          if EF_Keys f = [] then Inl EmptyKeys
          else if EF_Current f = 0 then Inr (f\<lparr>EF_Current := max_id (EF_Keys f)\<rparr>)
          else Inr f
      | Bare None \<Rightarrow> Inl LegacyMalformed
      | Bare (Some legacy) \<Rightarrow>
          (let l = legacy\<lparr>Env_ID := 1,
                     Env_Created := (if Env_Created legacy = [] then now else Env_Created legacy)\<rparr>
           in Inr \<lparr>EF_Version = EnvelopeSchemaVersion, EF_Keys = [l], EF_Current = 1\<rparr>))"

text \<open>\<open>MarshalEnvelopeFile\<close> stamps the schema version before encoding.\<close>

definition MarshalEnvelopeFile :: "EnvelopeFile \<Rightarrow> EnvelopeFile" where
  "MarshalEnvelopeFile f = f\<lparr>EF_Version := EnvelopeSchemaVersion\<rparr>"

definition FindKey :: "EnvelopeFile \<Rightarrow> int \<Rightarrow> Envelope option" where
  "FindKey f i = find (\<lambda>k. Env_ID k = i) (EF_Keys f)"

definition NextID :: "EnvelopeFile \<Rightarrow> int" where
  "NextID f = max_id (EF_Keys f) + 1"

fun remove_first :: "int \<Rightarrow> Envelope list \<Rightarrow> Envelope list option" where
  "remove_first i [] = None"
| "remove_first i (k # ks) =
     (if Env_ID k = i then Some ks else map_option ((#) k) (remove_first i ks))"

definition RemoveKey :: "EnvelopeFile \<Rightarrow> int \<Rightarrow> envelope_error + EnvelopeFile" where
  "RemoveKey f i =
     (if i = EF_Current f then Inl (CannotRemoveCurrent i)
      else
        (case remove_first i (EF_Keys f) of
           None \<Rightarrow> Inl (NoKeyWithId i)
         | Some ks \<Rightarrow> Inr (f\<lparr>EF_Keys := ks\<rparr>)))"


section \<open>Lemmas on versions\<close>

lemma digit_not_colon: "is_digit c \<Longrightarrow> c \<noteq> CHR '':''"
  by (auto simp: is_digit_def)

lemma digits_colon_unique:
  assumes "ds @ CHR '':'' # r = ds' @ CHR '':'' # r'"
    and "list_all is_digit ds" and "list_all is_digit ds'"
  shows "ds = ds' \<and> r = r'"
proof -
  have n: "CHR '':'' \<notin> set xs" if "list_all is_digit xs" for xs
    using that digit_not_colon by (auto simp: list_all_iff)
  have "Some (length ds) = Some (length ds')"
    using IndexByte_append [OF n [OF assms(2)], of r] IndexByte_append [OF n [OF assms(3)], of r']
    unfolding assms(1) by (rule trans [OF sym])
  then show ?thesis using assms(1) by simp
qed

text \<open>The texts with a version prefix, by shape.\<close>

lemma spans_versionRE1 [simp]:
  "spans versionPrefixRE1 i u t \<longleftrightarrow>
   i = 0 \<and> t = [] \<and>
   (\<exists>ds r. u = CHR ''v'' # ds @ CHR '':'' # r \<and> ds \<noteq> [] \<and> list_all is_digit ds \<and> LF \<notin> set r)"
  unfolding versionPrefixRE1_def by (rule iffI) (clarsimp, force, clarsimp, blast)

lemma spans_versionRE2 [simp]:
  "spans versionPrefixRE2 i u t \<longleftrightarrow>
   i = 0 \<and> t = [] \<and>
   (\<exists>ds r. u = CHR ''v'' # ds @ CHR '':'' # r \<and> ds \<noteq> [] \<and> list_all is_digit ds \<and> LF \<notin> set r)"
  unfolding versionPrefixRE2_def by (rule iffI) (clarsimp, force, clarsimp, blast)

lemma MatchString_versionRE:
  "MatchString versionPrefixRE1 s \<longleftrightarrow>
   (\<exists>ds r. s = CHR ''v'' # ds @ CHR '':'' # r \<and> ds \<noteq> [] \<and> list_all is_digit ds \<and> LF \<notin> set r)"
  "MatchString versionPrefixRE2 s \<longleftrightarrow>
   (\<exists>ds r. s = CHR ''v'' # ds @ CHR '':'' # r \<and> ds \<noteq> [] \<and> list_all is_digit ds \<and> LF \<notin> set r)"
  by (auto simp: MatchString_iff)

lemma versionPrefix_groups:
  assumes "list_all is_digit ds" and "ds \<noteq> []" and "LF \<notin> set r"
    and s: "s = CHR ''v'' # ds @ CHR '':'' # r"
  shows "Submatch1 versionPrefixRE1 s = Some ds" and "Submatch1 versionPrefixRE2 s = Some r"
proof -
  have "Submatch1 versionPrefixRE1 s \<noteq> None" and "Submatch1 versionPrefixRE2 s \<noteq> None"
    unfolding Submatch1_None MatchString_versionRE using assms by auto
  then obtain w q where w: "Submatch1 versionPrefixRE1 s = Some w"
    and q: "Submatch1 versionPrefixRE2 s = Some q" by blast
  from Submatch1_group [OF _ w [unfolded versionPrefixRE1_def]]
  obtain r' where r': "CHR ''v'' # ds @ CHR '':'' # r = CHR ''v'' # w @ CHR '':'' # r'"
    "list_all is_digit w"
    unfolding s by auto
  with digits_colon_unique [of ds r w r'] assms(1) w
  show "Submatch1 versionPrefixRE1 s = Some ds" by simp
  from Submatch1_group [OF _ q [unfolded versionPrefixRE2_def]]
  obtain ds' where "CHR ''v'' # ds @ CHR '':'' # r = CHR ''v'' # ds' @ CHR '':'' # q"
    "list_all is_digit ds'"
    unfolding s by auto
  with digits_colon_unique [of ds r ds' q] assms(1) q
  show "Submatch1 versionPrefixRE2 s = Some r" by simp
qed


text \<open>Reading back what was packed.\<close>

lemma ParseVersion_PackVersion:
  assumes "1 \<le> v" and "v < 2 ^ 63" and "LF \<notin> set raw"
  shows "ParseVersion (PackVersion v raw) = Inr (v, raw)"
proof -
  from assms have d: "list_all is_digit (Itoa v)" "Itoa v \<noteq> []"
    using Itoa_digits [of v] by auto
  have e: "PackVersion v raw = CHR ''v'' # Itoa v @ CHR '':'' # raw"
    by (simp add: PackVersion_def)
  from versionPrefix_groups [OF d assms(3) e] assms e show ?thesis
    by (simp add: ParseVersion_def Atoi_Itoa)
qed

lemma ParseVersion_bare:
  assumes "s \<noteq> []" and "hd s \<noteq> CHR ''v''"
  shows "ParseVersion s = Inr (1, s)"
proof -
  have "Submatch1 versionPrefixRE1 s = None"
    unfolding Submatch1_None MatchString_versionRE using assms by auto
  with assms show ?thesis by (simp add: ParseVersion_def)
qed

lemma ParseVersion_ge_1: "ParseVersion s = Inr (v, body) \<Longrightarrow> 1 \<le> v"
  by (auto simp: ParseVersion_def split: if_splits option.splits)

section \<open>Lemmas on the envelope file\<close>

lemma max_id_foldl:
  "foldl (\<lambda>m k. if m < Env_ID k then Env_ID k else m) m0 ks = Max (insert m0 (Env_ID ` set ks))"
proof (induction ks arbitrary: m0)
  case (Cons k ks)
  have "foldl (\<lambda>m k. if m < Env_ID k then Env_ID k else m) m0 (k # ks) =
      Max (insert (max m0 (Env_ID k)) (Env_ID ` set ks))"
    by (simp add: Cons.IH max_def)
  also have "\<dots> = Max (insert m0 (Env_ID ` set (k # ks)))"
    by (cases "ks = []") (simp_all add: max.assoc)
  finally show ?case .
qed simp

lemma max_id_Max: "max_id ks = Max (insert 0 (Env_ID ` set ks))"
  by (simp add: max_id_def max_id_foldl)

lemma max_id_ge: "k \<in> set ks \<Longrightarrow> Env_ID k \<le> max_id ks" and max_id_nonneg: "0 \<le> max_id ks"
  by (simp_all add: max_id_Max)

lemma max_id_in: "max_id ks \<noteq> 0 \<Longrightarrow> max_id ks \<in> Env_ID ` set ks"
  using Max_in [of "insert 0 (Env_ID ` set ks)"] by (auto simp: max_id_Max)

lemma NextID_fresh: "NextID f \<notin> Env_ID ` set (EF_Keys f)" and NextID_pos: "0 < NextID f"
proof -
  show "NextID f \<notin> Env_ID ` set (EF_Keys f)"
    using max_id_ge by (fastforce simp: NextID_def)
  show "0 < NextID f" using max_id_nonneg [of "EF_Keys f"] by (simp add: NextID_def)
qed

lemma FindKey_None: "FindKey f i = None \<longleftrightarrow> i \<notin> Env_ID ` set (EF_Keys f)"
  by (auto simp: FindKey_def find_None_iff)

lemma FindKey_Some: "FindKey f i = Some k \<Longrightarrow> k \<in> set (EF_Keys f) \<and> Env_ID k = i"
  by (auto simp: FindKey_def find_Some_iff)

lemma remove_first_None: "remove_first i ks = None \<longleftrightarrow> i \<notin> Env_ID ` set ks"
  by (induction ks) auto

lemma remove_first_Some:
  assumes "remove_first i ks = Some ks'" and "distinct (map Env_ID ks)"
  shows "Env_ID ` set ks' = Env_ID ` set ks - {i} \<and> distinct (map Env_ID ks') \<and> set ks' \<subseteq> set ks \<and>
    (\<forall>k \<in> set ks. Env_ID k \<noteq> i \<longrightarrow> k \<in> set ks')"
  using assms
proof (induction ks arbitrary: ks')
  case (Cons k ks)
  show ?case
  proof (cases "Env_ID k = i")
    case True
    with Cons.prems show ?thesis by auto
  next
    case False
    with Cons.prems obtain r where "remove_first i ks = Some r" "ks' = k # r" by auto
    with Cons.IH [of r] Cons.prems False show ?thesis by auto
  qed
qed simp

text \<open>A well-formed envelope file: the ids are positive and distinct, the current one is
  there.\<close>

definition ef_wf :: "EnvelopeFile \<Rightarrow> bool" where
  "ef_wf f \<longleftrightarrow> distinct (map Env_ID (EF_Keys f)) \<and> (\<forall>k \<in> set (EF_Keys f). 1 \<le> Env_ID k) \<and>
     EF_Current f \<in> Env_ID ` set (EF_Keys f)"

lemma RemoveKey_wf:
  assumes "ef_wf f" and "RemoveKey f i = Inr f'"
  shows "ef_wf f' \<and> i \<notin> Env_ID ` set (EF_Keys f') \<and> EF_Current f' = EF_Current f \<and>
    Env_ID ` set (EF_Keys f') = Env_ID ` set (EF_Keys f) - {i}"
proof -
  from assms(2) obtain ks where ne: "i \<noteq> EF_Current f" and r: "remove_first i (EF_Keys f) = Some ks"
    and f': "f' = f\<lparr>EF_Keys := ks\<rparr>"
    by (auto simp: RemoveKey_def split: if_splits option.splits)
  from assms(1) have "distinct (map Env_ID (EF_Keys f))" by (simp add: ef_wf_def)
  from remove_first_Some [OF r this] have
    "Env_ID ` set ks = Env_ID ` set (EF_Keys f) - {i}" "distinct (map Env_ID ks)"
    "set ks \<subseteq> set (EF_Keys f)" by blast+
  with assms(1) ne f' show ?thesis by (auto simp: ef_wf_def)
qed

lemma remove_first_find:
  "remove_first i ks = Some ks' \<Longrightarrow> distinct (map Env_ID ks) \<Longrightarrow>
     find (\<lambda>k. Env_ID k = j) ks' = (if j = i then None else find (\<lambda>k. Env_ID k = j) ks)"
proof (induction ks arbitrary: ks')
  case (Cons k ks)
  show ?case
  proof (cases "Env_ID k = i")
    case True
    with Cons.prems show ?thesis by (auto simp: find_None_iff intro: rev_image_eqI)
  next
    case False
    with Cons.prems obtain r where "remove_first i ks = Some r" "ks' = k # r" by auto
    with Cons.IH [of r] Cons.prems False show ?thesis by auto
  qed
qed simp

section \<open>The contract of a key ring\<close>

text \<open>
  Two things hold keys by version, one of them current: the envelope file and the store of the
  daemon. Both retire a version by the same contract: the current one is refused, a version that
  is not there is refused, and everything else stays.
\<close>

locale key_ring =
  fixes ok :: "'s \<Rightarrow> bool"
    and look :: "'s \<Rightarrow> int \<Rightarrow> 'k option"
    and cur :: "'s \<Rightarrow> int"
    and retire :: "int \<Rightarrow> 's \<Rightarrow> 's option"
  assumes retire_iff: "ok s \<Longrightarrow> retire i s \<noteq> None \<longleftrightarrow> i \<noteq> cur s \<and> look s i \<noteq> None"
    and retire_look: "ok s \<Longrightarrow> retire i s = Some s' \<Longrightarrow> look s' j = (if j = i then None else look s j)"
    and retire_cur: "ok s \<Longrightarrow> retire i s = Some s' \<Longrightarrow> cur s' = cur s"
    and retire_ok: "ok s \<Longrightarrow> retire i s = Some s' \<Longrightarrow> ok s'"
begin

fun retire_all :: "int list \<Rightarrow> 's \<Rightarrow> 's option" where
  "retire_all [] s = Some s"
| "retire_all (i # vs) s = (case retire i s of None \<Rightarrow> None | Some s' \<Rightarrow> retire_all vs s')"

lemma retire_all_keeps:
  "ok s \<Longrightarrow> retire_all vs s = Some s' \<Longrightarrow>
     ok s' \<and> cur s' = cur s \<and> (\<forall>j. look s' j = (if j \<in> set vs then None else look s j))"
proof (induction vs arbitrary: s)
  case (Cons i vs)
  from Cons.prems(2) obtain t where t: "retire i s = Some t" "retire_all vs t = Some s'"
    by (auto split: option.splits)
  from Cons.IH [OF retire_ok [OF Cons.prems(1) t(1)] t(2)] retire_cur [OF Cons.prems(1) t(1)]
    retire_look [OF Cons.prems(1) t(1)]
  show ?case by auto
qed simp

lemma retire_all_iff:
  "ok s \<Longrightarrow> retire_all vs s \<noteq> None \<longleftrightarrow>
     distinct vs \<and> cur s \<notin> set vs \<and> (\<forall>i \<in> set vs. look s i \<noteq> None)"
proof (induction vs arbitrary: s)
  case (Cons i vs)
  show ?case
  proof (cases "retire i s")
    case None
    with retire_iff [OF Cons.prems, of i] show ?thesis by auto
  next
    case (Some t)
    from retire_iff [OF Cons.prems, of i] Some have i: "i \<noteq> cur s" "look s i \<noteq> None" by auto
    from Cons.IH [OF retire_ok [OF Cons.prems Some]] show ?thesis
      using i Some retire_cur [OF Cons.prems Some] retire_look [OF Cons.prems Some] by auto
  qed
qed simp

text \<open>The current key survives every sequence of retirements.\<close>

lemma current_survives: "ok s \<Longrightarrow> retire_all vs s = Some s' \<Longrightarrow> look s' (cur s') = look s (cur s)"
  using retire_all_keeps retire_all_iff [of s vs] by auto

end

interpretation ef: key_ring ef_wf FindKey EF_Current "\<lambda>i f. case RemoveKey f i of Inl _ \<Rightarrow> None | Inr f' \<Rightarrow> Some f'"
proof unfold_locales
  fix f f' and i j :: int
  assume wf: "ef_wf f"
  show "(case RemoveKey f i of Inl _ \<Rightarrow> None | Inr f' \<Rightarrow> Some f') \<noteq> None \<longleftrightarrow> i \<noteq> EF_Current f \<and> FindKey f i \<noteq> None"
    using remove_first_None [of i "EF_Keys f"] by (auto simp: RemoveKey_def FindKey_None split: option.splits)
  assume "(case RemoveKey f i of Inl _ \<Rightarrow> None | Inr f' \<Rightarrow> Some f') = Some f'"
  then have r: "RemoveKey f i = Inr f'" by (auto split: sum.splits)
  from RemoveKey_wf [OF wf r] show "ef_wf f'" and "EF_Current f' = EF_Current f" by blast+
  from r obtain ks where "remove_first i (EF_Keys f) = Some ks" "f' = f\<lparr>EF_Keys := ks\<rparr>"
    by (auto simp: RemoveKey_def split: if_splits option.splits)
  with wf remove_first_find show "FindKey f' j = (if j = i then None else FindKey f j)"
    by (auto simp: FindKey_def ef_wf_def)
qed

lemma LoadEnvelopeFile_legacy_wf:
  "LoadEnvelopeFile now (Bare (Some e)) = Inr f \<Longrightarrow> ef_wf f"
  by (auto simp: LoadEnvelopeFile_def ef_wf_def)

end
