(* ===== verification/Keystore.thy ===== *)
theory Keystore
  imports Envelope "HOL-Library.AList"
begin

text \<open>
  Bob's in-memory custody of the master keys (\<open>internal/keystore/keystore.go\<close>).

  A \<open>Store\<close> is the struct of that name; a Go map from versions to keys is an association
  list with distinct keys. Times and durations are nanoseconds. Every method takes the
  store's mutex for its whole body, so a method is one function from store to store; the
  current time and the random bytes it reads are arguments. Memory locking and wiping act
  on buffers the model does not have.

  The idle timer runs concurrently: \<open>st_timer\<close> is the deadline of an armed timer. Once a
  timer has fired it cannot be stopped any more, and its callback waits for the mutex; the
  number of such callbacks is kept in the system state of the last section.
\<close>

record Store =
  st_keys :: "(int \<times> bytes) list"
  st_current :: int
  st_ttl :: int
  st_expiresAt :: int
  st_timer :: "int option"

datatype keystore_error =
    ErrLocked
  | ErrUnknownVersion
  | ErrCannotFinalizeCurrent
  | CryptoError crypto_error

definition NewStore :: Store where
  "NewStore = \<lparr>st_keys = [], st_current = 0, st_ttl = 0, st_expiresAt = 0, st_timer = None\<rparr>"

definition zeroizeLocked :: "Store \<Rightarrow> Store" where
  "zeroizeLocked s = s\<lparr>st_timer := None, st_keys := [], st_current := 0\<rparr>"

definition armLocked :: "int \<Rightarrow> Store \<Rightarrow> Store" where
  "armLocked now s =
     (if st_ttl s \<le> 0 then s
      else s\<lparr>st_expiresAt := now + st_ttl s, st_timer := Some (now + st_ttl s)\<rparr>)"

definition HoldMulti :: "int \<Rightarrow> (int \<times> bytes) list \<Rightarrow> int \<Rightarrow> int \<Rightarrow> Store \<Rightarrow> Store" where
  "HoldMulti now keys current ttl s =
     (let z = zeroizeLocked s in
      if keys = [] then z
      else if map_of keys current = None then z
      else armLocked now (z\<lparr>st_keys := keys, st_current := current, st_ttl := ttl\<rparr>))"

definition Hold :: "int \<Rightarrow> bytes \<Rightarrow> int \<Rightarrow> Store \<Rightarrow> Store" where
  "Hold now key ttl s = HoldMulti now [(1, key)] 1 ttl s"

definition AddKey :: "int \<Rightarrow> int \<Rightarrow> bytes \<Rightarrow> Store \<Rightarrow> Store" where
  "AddKey now i key s =
     armLocked now (s\<lparr>st_keys := AList.update i key (st_keys s), st_current := i\<rparr>)"

definition StoreRemoveKey :: "int \<Rightarrow> Store \<Rightarrow> (keystore_error + unit) \<times> Store" where
  "StoreRemoveKey i s =
     (if i = st_current s then (Inl ErrCannotFinalizeCurrent, s)
      else
        (case map_of (st_keys s) i of
           None \<Rightarrow> (Inl ErrUnknownVersion, s)
         | Some _ \<Rightarrow> (Inr (), s\<lparr>st_keys := AList.delete i (st_keys s)\<rparr>)))"

definition Unlocked :: "Store \<Rightarrow> bool" where
  "Unlocked s \<longleftrightarrow> st_current s \<noteq> 0"

definition CurrentVersion :: "Store \<Rightarrow> int \<times> bool" where
  "CurrentVersion s = (st_current s, st_current s \<noteq> 0)"

definition Versions :: "Store \<Rightarrow> int list" where
  "Versions s = sort (map fst (st_keys s))"

definition TTLRemaining :: "int \<Rightarrow> Store \<Rightarrow> int" where
  "TTLRemaining now s =
     (if st_current s = 0 \<or> st_ttl s \<le> 0 then 0
      else (let d = st_expiresAt s - now in if d < 0 then 0 else d))"

definition Encrypt ::
  "aead \<Rightarrow> bytes option \<Rightarrow> int \<Rightarrow> string \<Rightarrow> bytes \<Rightarrow> Store \<Rightarrow> (keystore_error + string) \<times> Store" where
  "Encrypt G rnd now name plaintext s =
     (if st_current s = 0 then (Inl ErrLocked, s)
      else
        (case map_of (st_keys s) (st_current s) of
           None \<Rightarrow> (Inl ErrLocked, s)
         | Some k \<Rightarrow>
             (case SealAAD G rnd k plaintext name of
                Inl e \<Rightarrow> (Inl (CryptoError e), s)
              | Inr raw \<Rightarrow> (Inr (PackVersion (st_current s) raw), armLocked now s))))"

text \<open>A key read from a Go map that has no entry is the nil slice.\<close>

definition key_or_nil :: "Store \<Rightarrow> int \<Rightarrow> bytes" where
  "key_or_nil s i = (case map_of (st_keys s) i of None \<Rightarrow> [] | Some k \<Rightarrow> k)"

text \<open>The result is (plaintext, rewrapped, currentVer).\<close>

definition Decrypt ::
  "aead \<Rightarrow> bytes option \<Rightarrow> int \<Rightarrow> string \<Rightarrow> string \<Rightarrow> Store \<Rightarrow>
     (keystore_error + (bytes \<times> string \<times> bool)) \<times> Store" where
  "Decrypt G rnd now name packed s =
     (if st_current s = 0 then (Inl ErrLocked, s)
      else
        (case ParseVersion packed of
           Inl e \<Rightarrow> (Inl (CryptoError e), s)
         | Inr (ver, raw) \<Rightarrow>
             (case map_of (st_keys s) ver of
                None \<Rightarrow> (Inl ErrUnknownVersion, s)
              | Some k \<Rightarrow>
                  (case OpenAAD G k raw name of
                     Inl e \<Rightarrow> (Inl (CryptoError e), s)
                   | Inr pt \<Rightarrow>
                       if ver = st_current s then (Inr (pt, [], True), armLocked now s)
                       else
                         (case SealAAD G rnd (key_or_nil s (st_current s)) pt name of
                            Inl e \<Rightarrow> (Inl (CryptoError e), s)
                          | Inr sealed \<Rightarrow>
                              (Inr (pt, PackVersion (st_current s) sealed, False),
                               armLocked now s))))))"

definition Zeroize :: "Store \<Rightarrow> Store" where
  "Zeroize s = zeroizeLocked s"

text \<open>The callback of the idle timer: the wiped store, and whether \<open>onLock\<close> is called.\<close>

definition onTimer :: "Store \<Rightarrow> Store \<times> bool" where
  "onTimer s = (zeroizeLocked s, st_current s \<noteq> 0)"

section \<open>The interface to package crypto\<close>

text \<open>
  What the store relies on: a text sealed for a name under a key opens again for that name
  under that key, not for another name, and survives the version prefix.
\<close>

locale name_sealing =
  fixes seal :: "aead \<Rightarrow> bytes option \<Rightarrow> bytes \<Rightarrow> bytes \<Rightarrow> bytes \<Rightarrow> crypto_error + string"
    and unseal :: "aead \<Rightarrow> bytes \<Rightarrow> string \<Rightarrow> bytes \<Rightarrow> crypto_error + bytes"
    and pack :: "int \<Rightarrow> string \<Rightarrow> string"
    and unpack :: "string \<Rightarrow> crypto_error + (int \<times> string)"
  assumes seal_opens:
      "aead_ok G \<Longrightarrow> seal G (Some iv) k p a = Inr c \<Longrightarrow> length iv = 12 \<Longrightarrow> unseal G k c a = Inr p"
    and seal_bound:
      "aead_ok G \<Longrightarrow> aead_binds G N \<Longrightarrow> seal G (Some iv) k p a = Inr c \<Longrightarrow> length iv = 12 \<Longrightarrow>
       a \<in> N \<Longrightarrow> b \<in> N \<Longrightarrow> a \<noteq> b \<Longrightarrow> unseal G k c b = Inl AuthFailure"
    and seal_total: "length k = 32 \<Longrightarrow> \<exists>c. seal G (Some iv) k p a = Inr c"
    and pack_unpack:
      "seal G r k p a = Inr c \<Longrightarrow> 1 \<le> v \<Longrightarrow> v < 2 ^ 63 \<Longrightarrow> unpack (pack v c) = Inr (v, c)"
    and pack_nonempty: "pack v c \<noteq> []"
begin

text \<open>Opening a packed text under the key its prefix names.\<close>

definition open_packed ::
  "aead \<Rightarrow> (int \<Rightarrow> bytes option) \<Rightarrow> string \<Rightarrow> bytes \<Rightarrow> (crypto_error + bytes) option" where
  "open_packed G K packed a =
     (case unpack packed of Inl e \<Rightarrow> Some (Inl e)
      | Inr (v, c) \<Rightarrow> map_option (\<lambda>k. unseal G k c a) (K v))"

lemma open_packed_sealed:
  assumes "aead_ok G" "seal G (Some iv) k p a = Inr c" "length iv = 12" "1 \<le> v" "v < 2 ^ 63"
    and "K v = Some k"
  shows "open_packed G K (pack v c) a = Some (Inr p)"
  using assms pack_unpack [OF assms(2,4,5)] seal_opens [OF assms(1,2,3)]
  by (simp add: open_packed_def)

lemma open_packed_other_name:
  assumes "aead_ok G" "aead_binds G N" "seal G (Some iv) k p a = Inr c" "length iv = 12"
    and "1 \<le> v" "v < 2 ^ 63" "K v = Some k" "a \<in> N" "b \<in> N" "a \<noteq> b"
  shows "open_packed G K (pack v c) b = Some (Inl AuthFailure)"
  using assms pack_unpack [OF assms(3,5,6)] seal_bound [OF assms(1,2,3,4) assms(8,9,10)]
  by (simp add: open_packed_def)

end

interpretation cs: name_sealing SealAAD OpenAAD PackVersion ParseVersion
proof unfold_locales
  fix G iv k p a c
  assume "aead_ok G" "SealAAD G (Some iv) k p a = Inr c" "length iv = 12"
  then show "OpenAAD G k c a = Inr p"
    unfolding SealAAD_def OpenAAD_def by (rule open_seal)
next
  fix G N iv k p a c b
  assume "aead_ok G" "aead_binds G N" "SealAAD G (Some iv) k p a = Inr c" "length iv = 12"
    "a \<in> N" "b \<in> N" "a \<noteq> b"
  then show "OpenAAD G k c b = Inl AuthFailure"
    unfolding SealAAD_def OpenAAD_def by (rule open_other_name)
next
  fix k G iv p a
  assume "length (k :: bytes) = 32"
  then show "\<exists>c. SealAAD G (Some iv) k p a = Inr c"
    unfolding SealAAD_def by (rule sealAAD_total)
next
  fix G r k p a c and v :: int
  assume "SealAAD G r k p a = Inr c" and v: "1 \<le> v" "v < 2 ^ 63"
  then have "LF \<notin> set c" unfolding SealAAD_def by (intro sealed_no_LF)
  with v show "ParseVersion (PackVersion v c) = Inr (v, c)" by (rule ParseVersion_PackVersion)
qed (simp add: PackVersion_def)


section \<open>The invariant of the store\<close>

text \<open>The versions are distinct, and the current one is held unless the store is locked.\<close>

definition store_ok :: "Store \<Rightarrow> bool" where
  "store_ok s \<longleftrightarrow> distinct (map fst (st_keys s)) \<and>
     (st_current s = 0 \<or> st_current s \<in> fst ` set (st_keys s))"

named_theorems store_defs "the operations of the key store, unfolded"

declare zeroizeLocked_def [store_defs] armLocked_def [store_defs] HoldMulti_def [store_defs]
  Hold_def [store_defs] AddKey_def [store_defs] StoreRemoveKey_def [store_defs]
  Zeroize_def [store_defs] onTimer_def [store_defs] Unlocked_def [store_defs]

lemma armLocked_fields [simp]:
  "st_keys (armLocked now s) = st_keys s" "st_current (armLocked now s) = st_current s"
  "st_ttl (armLocked now s) = st_ttl s"
  by (simp_all add: armLocked_def)

lemma zeroizeLocked_fields [simp]:
  "st_keys (zeroizeLocked s) = []" "st_current (zeroizeLocked s) = 0"
  "st_timer (zeroizeLocked s) = None" "st_ttl (zeroizeLocked s) = st_ttl s"
  by (simp_all add: zeroizeLocked_def)

lemma armLocked_ok [simp]: "store_ok (armLocked now s) = store_ok s"
  by (simp add: store_ok_def)

lemma NewStore_ok [simp]: "store_ok NewStore"
  by (simp add: store_ok_def NewStore_def)

lemma zeroizeLocked_ok [simp]: "store_ok (zeroizeLocked s)"
  by (simp add: store_ok_def)

lemma HoldMulti_ok: "distinct (map fst keys) \<Longrightarrow> store_ok (HoldMulti now keys cur ttl s)"
  by (auto simp: HoldMulti_def store_ok_def Let_def map_of_eq_None_iff)

lemma AddKey_ok: "store_ok s \<Longrightarrow> store_ok (AddKey now i key s)"
  by (simp add: AddKey_def store_ok_def distinct_update dom_update)

lemma StoreRemoveKey_ok: "store_ok s \<Longrightarrow> store_ok (snd (StoreRemoveKey i s))"
  by (auto simp: StoreRemoveKey_def store_ok_def delete_keys distinct_removeAll
      split: option.splits)

interpretation sk: key_ring store_ok "\<lambda>s. map_of (st_keys s)" st_current
  "\<lambda>i s. case StoreRemoveKey i s of (Inl _, _) \<Rightarrow> None | (Inr _, s') \<Rightarrow> Some s'"
proof unfold_locales
  fix s s' and i j :: int
  assume "store_ok s" and "(case StoreRemoveKey i s of (Inl _, _) \<Rightarrow> None | (Inr _, s') \<Rightarrow> Some s') = Some s'"
  with StoreRemoveKey_ok [of s i] show "store_ok s'"
    and "map_of (st_keys s') j = (if j = i then None else map_of (st_keys s) j)"
    and "st_current s' = st_current s"
    by (auto simp: StoreRemoveKey_def delete_conv' split: if_splits option.splits)
qed (auto simp: StoreRemoveKey_def split: option.splits)

text \<open>The envelope file and the store of the daemon retire the same sequences of versions, when
  they hold the same ones and agree on the current one, and they agree afterwards.\<close>

lemma retire_in_step:
  assumes "ef_wf f" and "store_ok s" and "EF_Current f = st_current s"
    and "\<And>i. FindKey f i = None \<longleftrightarrow> map_of (st_keys s) i = None"
  shows "ef.retire_all vs f = None \<longleftrightarrow> sk.retire_all vs s = None"
    and "ef.retire_all vs f = Some f' \<Longrightarrow> sk.retire_all vs s = Some s' \<Longrightarrow>
      EF_Current f' = st_current s' \<and> (\<forall>i. FindKey f' i = None \<longleftrightarrow> map_of (st_keys s') i = None)"
  using ef.retire_all_iff [OF assms(1), of vs] sk.retire_all_iff [OF assms(2), of vs] assms(3,4)
    ef.retire_all_keeps [OF assms(1), of vs f'] sk.retire_all_keeps [OF assms(2), of vs s']
  by auto

lemma Encrypt_store:
  "snd (Encrypt G rnd now name p s) = s \<or> snd (Encrypt G rnd now name p s) = armLocked now s"
  by (simp add: Encrypt_def split: option.splits sum.splits)

lemma Decrypt_store:
  "snd (Decrypt G rnd now name p s) = s \<or> snd (Decrypt G rnd now name p s) = armLocked now s"
  by (simp add: Decrypt_def split: option.splits sum.splits prod.splits)

lemma Encrypt_ok: "store_ok s \<Longrightarrow> store_ok (snd (Encrypt G rnd now name p s))"
  using Encrypt_store [of G rnd now name p s] by auto

lemma Decrypt_ok: "store_ok s \<Longrightarrow> store_ok (snd (Decrypt G rnd now name p s))"
  using Decrypt_store [of G rnd now name p s] by auto

text \<open>What the operations leave alone.\<close>

lemma Encrypt_fields [simp]:
  "st_keys (snd (Encrypt G rnd now name p s)) = st_keys s"
  "st_current (snd (Encrypt G rnd now name p s)) = st_current s"
  "st_ttl (snd (Encrypt G rnd now name p s)) = st_ttl s"
  using Encrypt_store [of G rnd now name p s] by auto

lemma Decrypt_fields [simp]:
  "st_keys (snd (Decrypt G rnd now name p s)) = st_keys s"
  "st_current (snd (Decrypt G rnd now name p s)) = st_current s"
  "st_ttl (snd (Decrypt G rnd now name p s)) = st_ttl s"
  using Decrypt_store [of G rnd now name p s] by auto

text \<open>An operation that fails leaves the idle timer as it was.\<close>

lemma Encrypt_error: "fst (Encrypt G rnd now name p s) = Inl e \<Longrightarrow> snd (Encrypt G rnd now name p s) = s"
  by (auto simp: Encrypt_def split: if_splits option.splits sum.splits)

lemma Decrypt_error: "fst (Decrypt G rnd now name p s) = Inl e \<Longrightarrow> snd (Decrypt G rnd now name p s) = s"
  by (auto simp: Decrypt_def split: if_splits option.splits sum.splits prod.splits)

lemma Encrypt_cases:
  assumes "fst (Encrypt G rnd now name p s) = Inr packed"
  obtains k raw where "st_current s \<noteq> 0" "map_of (st_keys s) (st_current s) = Some k"
    "SealAAD G rnd k p name = Inr raw" "packed = PackVersion (st_current s) raw"
  using assms by (auto simp: Encrypt_def split: if_splits option.splits sum.splits)

lemma Decrypt_cases:
  assumes "fst (Decrypt G rnd now name packed s) = Inr (pt, rw, cur)"
  obtains v raw k where "st_current s \<noteq> 0" "ParseVersion packed = Inr (v, raw)"
    "map_of (st_keys s) v = Some k" "OpenAAD G k raw name = Inr pt"
    "cur = (v = st_current s)"
    "v = st_current s \<Longrightarrow> rw = []"
    "v \<noteq> st_current s \<Longrightarrow>
      \<exists>sealed. SealAAD G rnd (key_or_nil s (st_current s)) pt name = Inr sealed \<and>
        rw = PackVersion (st_current s) sealed"
  using assms by (auto simp: Decrypt_def split: if_splits option.splits sum.splits prod.splits)

text \<open>Opening under the name and version a text was packed for, in terms of the interface.\<close>

lemma Decrypt_open_packed:
  assumes "st_current s \<noteq> 0"
  shows "fst (Decrypt G rnd now name packed s) =
    (case cs.open_packed G (map_of (st_keys s)) packed name of
       None \<Rightarrow> Inl ErrUnknownVersion
     | Some (Inl e) \<Rightarrow> Inl (CryptoError e)
     | Some (Inr pt) \<Rightarrow>
         (case ParseVersion packed of Inl e \<Rightarrow> Inl (CryptoError e)
          | Inr (v, _) \<Rightarrow>
              if v = st_current s then Inr (pt, [], True)
              else (case SealAAD G rnd (key_or_nil s (st_current s)) pt name of
                      Inl e \<Rightarrow> Inl (CryptoError e)
                    | Inr sealed \<Rightarrow> Inr (pt, PackVersion (st_current s) sealed, False))))"
  using assms by (simp add: Decrypt_def cs.open_packed_def split: sum.splits prod.splits option.splits)


section \<open>The store in time\<close>

text \<open>
  The methods, the clock and the timer goroutine, interleaved at the granularity of the
  mutex. \<open>ks_pending\<close> counts the timer callbacks that have started and wait for the mutex;
  \<open>ks_notified\<close> counts the calls of \<open>onLock\<close>.
\<close>

datatype ks_op =
    OpHold "(int \<times> bytes) list" int int
  | OpAddKey int bytes
  | OpRemoveKey int
  | OpEncrypt "bytes option" string bytes
  | OpDecrypt "bytes option" string string
  | OpZeroize

fun ks_exec :: "aead \<Rightarrow> int \<Rightarrow> ks_op \<Rightarrow> Store \<Rightarrow> Store" where
  "ks_exec G now (OpHold keys cur ttl) s = HoldMulti now keys cur ttl s"
| "ks_exec G now (OpAddKey i key) s = AddKey now i key s"
| "ks_exec G now (OpRemoveKey i) s = snd (StoreRemoveKey i s)"
| "ks_exec G now (OpEncrypt rnd name p) s = snd (Encrypt G rnd now name p s)"
| "ks_exec G now (OpDecrypt rnd name packed) s = snd (Decrypt G rnd now name packed s)"
| "ks_exec G now OpZeroize s = Zeroize s"

text \<open>The argument of \<open>HoldMulti\<close> is a Go map: it has one entry per version.\<close>

fun ks_op_ok :: "ks_op \<Rightarrow> bool" where
  "ks_op_ok (OpHold keys cur ttl) \<longleftrightarrow> distinct (map fst keys)"
| "ks_op_ok _ \<longleftrightarrow> True"

record ks_sys =
  ks_store :: Store
  ks_now :: int
  ks_pending :: nat
  ks_notified :: nat

definition ks_init :: "int \<Rightarrow> ks_sys" where
  "ks_init t = \<lparr>ks_store = NewStore, ks_now = t, ks_pending = 0, ks_notified = 0\<rparr>"

inductive ks_step :: "aead \<Rightarrow> ks_sys \<Rightarrow> ks_sys \<Rightarrow> bool" for G where
  ks_call: "ks_op_ok x \<Longrightarrow> ks_step G c (c\<lparr>ks_store := ks_exec G (ks_now c) x (ks_store c)\<rparr>)"
| ks_tick: "0 \<le> d \<Longrightarrow> ks_step G c (c\<lparr>ks_now := ks_now c + d\<rparr>)"
| ks_fire: "st_timer (ks_store c) = Some t \<Longrightarrow> t \<le> ks_now c \<Longrightarrow>
    ks_step G c (c\<lparr>ks_store := (ks_store c)\<lparr>st_timer := None\<rparr>, ks_pending := Suc (ks_pending c)\<rparr>)"
| ks_callback: "ks_pending c = Suc n \<Longrightarrow>
    ks_step G c (c\<lparr>ks_store := fst (onTimer (ks_store c)), ks_pending := n,
      ks_notified := ks_notified c + (if snd (onTimer (ks_store c)) then 1 else 0)\<rparr>)"

inductive ks_reach :: "aead \<Rightarrow> ks_sys \<Rightarrow> bool" for G where
  ks_start: "ks_reach G (ks_init t)"
| ks_next: "ks_reach G c \<Longrightarrow> ks_step G c c' \<Longrightarrow> ks_reach G c'"

inductive_cases ks_stepE: "ks_step G c c'"

text \<open>The timer invariant: an armed timer is set for \<open>expiresAt\<close>, and an unlocked store with
  a time to live has its timer armed or a callback on its way.\<close>

definition timer_ok :: "ks_sys \<Rightarrow> bool" where
  "timer_ok c \<longleftrightarrow>
     (st_timer (ks_store c) = None \<or> st_timer (ks_store c) = Some (st_expiresAt (ks_store c))) \<and>
     (st_current (ks_store c) \<noteq> 0 \<and> 0 < st_ttl (ks_store c) \<longrightarrow>
        st_timer (ks_store c) = Some (st_expiresAt (ks_store c)) \<or> 0 < ks_pending c)"

definition armed :: "Store \<Rightarrow> bool" where
  "armed s \<longleftrightarrow>
     (st_timer s = None \<or> st_timer s = Some (st_expiresAt s)) \<and>
     (st_current s \<noteq> 0 \<and> 0 < st_ttl s \<longrightarrow> st_timer s = Some (st_expiresAt s))"

lemma armed_timer_ok: "armed s \<Longrightarrow> timer_ok (c\<lparr>ks_store := s\<rparr>)"
  by (simp add: armed_def timer_ok_def)

lemma armed_arm:
  "st_timer s = None \<or> st_timer s = Some (st_expiresAt s) \<Longrightarrow> armed (armLocked now s)"
  by (auto simp: armed_def armLocked_def)

lemma armed_zeroize [simp]: "armed (zeroizeLocked s)"
  by (simp add: armed_def)

lemma armed_HoldMulti: "armed (HoldMulti now keys cur ttl s)"
  unfolding HoldMulti_def Let_def by (auto intro!: armed_arm)

lemma ks_exec_timer:
  assumes "timer_ok c"
  shows "timer_ok (c\<lparr>ks_store := ks_exec G now x (ks_store c)\<rparr>)"
proof (cases x)
  case (OpAddKey i key)
  with assms show ?thesis
    by (auto simp: AddKey_def timer_ok_def armLocked_def)
next
  case (OpRemoveKey i)
  with assms show ?thesis
    by (auto simp: StoreRemoveKey_def timer_ok_def split: option.splits)
next
  case (OpEncrypt rnd name p)
  have "timer_ok (c\<lparr>ks_store := armLocked now (ks_store c)\<rparr>)"
    using assms by (intro armed_timer_ok armed_arm) (simp add: timer_ok_def)
  with assms OpEncrypt Encrypt_store [of G rnd now name p "ks_store c"] show ?thesis by auto
next
  case (OpDecrypt rnd name p)
  have "timer_ok (c\<lparr>ks_store := armLocked now (ks_store c)\<rparr>)"
    using assms by (intro armed_timer_ok armed_arm) (simp add: timer_ok_def)
  with assms OpDecrypt Decrypt_store [of G rnd now name p "ks_store c"] show ?thesis by auto
qed (simp_all add: armed_timer_ok armed_HoldMulti Zeroize_def)

lemma ks_exec_ok: "ks_op_ok x \<Longrightarrow> store_ok s \<Longrightarrow> store_ok (ks_exec G now x s)"
  by (cases x) (simp_all add: HoldMulti_ok AddKey_ok StoreRemoveKey_ok Encrypt_ok Decrypt_ok Zeroize_def)

lemma store_ok_timer [simp]: "store_ok (s\<lparr>st_timer := t\<rparr>) = store_ok s"
  by (simp add: store_ok_def)

lemma ks_step_ok: "ks_step G c c' \<Longrightarrow> store_ok (ks_store c) \<Longrightarrow> store_ok (ks_store c')"
  by (erule ks_stepE) (auto simp: ks_exec_ok onTimer_def)

lemma ks_step_timer:
  assumes "ks_step G c c'" and "timer_ok c"
  shows "timer_ok c'"
  using assms(1)
proof cases
  case (ks_call x)
  with assms(2) show ?thesis by (simp add: ks_exec_timer)
qed (use assms(2) in \<open>auto simp: onTimer_def timer_ok_def\<close>)


lemma ks_reach_inv: "ks_reach G c \<Longrightarrow> store_ok (ks_store c) \<and> timer_ok c"
proof (induction rule: ks_reach.induct)
  case (ks_start t)
  show ?case by (simp add: ks_init_def timer_ok_def) (simp add: NewStore_def)
qed (auto intro: ks_step_ok ks_step_timer)

section \<open>A text across stores\<close>

lemma Decrypt_of_Encrypt:
  assumes "aead_ok G" and "fst (Encrypt G (Some iv) t name p s) = Inr packed" and "length iv = 12"
    and "1 \<le> st_current s" and "st_current s < 2 ^ 63"
    and "map_of (st_keys s') (st_current s) = map_of (st_keys s) (st_current s)"
    and "1 \<le> st_current s'" and "st_current s' < 2 ^ 63"
    and "map_of (st_keys s') (st_current s') = Some k'" and "length k' = 32" and "length iv' = 12"
  shows "\<exists>rw. fst (Decrypt G (Some iv') t' name packed s') = Inr (p, rw, st_current s = st_current s') \<and>
    (if st_current s = st_current s' then rw = []
     else fst (Decrypt G rnd t'' name rw s') = Inr (p, [], True))"
proof -
  from assms(2) obtain k raw where k: "map_of (st_keys s) (st_current s) = Some k"
    and raw: "SealAAD G (Some iv) k p name = Inr raw" "packed = PackVersion (st_current s) raw"
    by (rule Encrypt_cases)
  have o: "OpenAAD G k raw name = Inr p" using cs.seal_opens [OF assms(1) raw(1) assms(3)] .
  have v: "ParseVersion packed = Inr (st_current s, raw)"
    using cs.pack_unpack [OF raw(1) assms(4,5)] raw(2) by simp
  obtain raw' where raw': "SealAAD G (Some iv') k' p name = Inr raw'"
    using cs.seal_total [OF assms(10)] by blast
  have o': "OpenAAD G k' raw' name = Inr p" using cs.seal_opens [OF assms(1) raw' assms(11)] .
  have v': "ParseVersion (PackVersion (st_current s') raw') = Inr (st_current s', raw')"
    using cs.pack_unpack [OF raw' assms(7,8)] .
  show ?thesis
    using assms(6,7,9) k o v o' v' raw' by (auto simp: Decrypt_def key_or_nil_def)
qed

section \<open>Properties\<close>

text \<open>C10: In every reachable state of the key store, the held versions are distinct, the
  store is either locked or holds the key of its current version, and an unlocked store
  with a time to live has its idle timer armed for exactly the expiry time or a timer
  callback already waiting.\<close>

theorem keystore_invariant:
  assumes "ks_reach G c"
  shows "distinct (map fst (st_keys (ks_store c))) \<and>
    (st_current (ks_store c) \<noteq> 0 \<longrightarrow>
       map_of (st_keys (ks_store c)) (st_current (ks_store c)) \<noteq> None) \<and>
    (st_current (ks_store c) \<noteq> 0 \<and> 0 < st_ttl (ks_store c) \<longrightarrow>
       st_timer (ks_store c) = Some (st_expiresAt (ks_store c)) \<or> 0 < ks_pending c)"
  using ks_reach_inv [OF assms] by (auto simp: store_ok_def timer_ok_def map_of_eq_None_iff)

theorem keystore_invariant_witness:
  "\<exists>c. ks_reach demo_aead c \<and> st_timer (ks_store c) = Some 10 \<and> st_current (ks_store c) = 2 \<and>
    (st_timer (ks_store c) = Some (st_expiresAt (ks_store c)) \<or> 0 < ks_pending c)"
proof -
  let ?x = "OpHold [(1, ''k''), (2, ''l'')] 2 10"
  let ?c = "(ks_init 0)\<lparr>ks_store := ks_exec demo_aead 0 ?x (ks_store (ks_init 0))\<rparr>"
  have "ks_step demo_aead (ks_init 0)
      ((ks_init 0)\<lparr>ks_store := ks_exec demo_aead (ks_now (ks_init 0)) ?x (ks_store (ks_init 0))\<rparr>)"
    by (rule ks_call) simp
  then have "ks_step demo_aead (ks_init 0) ?c" by (simp add: ks_init_def)
  with ks_start have r: "ks_reach demo_aead ?c" by (rule ks_next)
  have f: "st_timer (ks_store ?c) = Some 10" "st_current (ks_store ?c) = 2" "st_ttl (ks_store ?c) = 10"
    by (simp_all add: store_defs Let_def ks_init_def NewStore_def)
  from keystore_invariant [OF r] f have
    "st_timer (ks_store ?c) = Some (st_expiresAt (ks_store ?c)) \<or> 0 < ks_pending ?c" by simp
  with r f show ?thesis by blast
qed



text \<open>A store held since time 0 with a time to live of 10, at time 10.\<close>

lemma demo_expired:
  obtains c where "ks_reach demo_aead c" "st_current (ks_store c) = 1" "st_ttl (ks_store c) = 10"
    "st_expiresAt (ks_store c) = 10" "ks_now c = 10" "st_timer (ks_store c) = Some 10" "ks_pending c = 0"
    "st_keys (ks_store c) = [(1, replicate 32 CHR ''k'')]" "ks_notified c = 0"
proof -
  define c1 where "c1 = (ks_init 0)\<lparr>ks_store := ks_exec demo_aead (ks_now (ks_init 0))
      (OpHold [(1, replicate 32 CHR ''k'')] 1 10) (ks_store (ks_init 0))\<rparr>"
  define c2 where "c2 = c1\<lparr>ks_now := ks_now c1 + 10\<rparr>"
  have "ks_step demo_aead (ks_init 0) c1" unfolding c1_def by (rule ks_call) simp
  moreover have "ks_step demo_aead c1 c2" unfolding c2_def by (rule ks_tick) simp
  ultimately have "ks_reach demo_aead c2" by (meson ks_next ks_start)
  then show thesis
    by (rule that) (simp_all add: c2_def c1_def ks_init_def NewStore_def store_defs Let_def)
qed


text \<open>C31: The idle timer races with use: a callback that has started before an operation
  refreshes the timer still wipes the store after it, so a store whose expiry time lies in
  the future can lose its keys without any call to \<open>Zeroize\<close>.\<close>

theorem autolock_race:
  "\<exists>c c'. ks_reach demo_aead c \<and> Unlocked (ks_store c) \<and> ks_now c < st_expiresAt (ks_store c) \<and>
     ks_step demo_aead c c' \<and> ks_now c' = ks_now c \<and> \<not> Unlocked (ks_store c') \<and>
     st_keys (ks_store c') = [] \<and> ks_notified c' = ks_notified c + 1"
proof -
  obtain c where c: "ks_reach demo_aead c" "st_current (ks_store c) = 1" "st_ttl (ks_store c) = 10"
    "st_expiresAt (ks_store c) = 10" "ks_now c = 10" "st_timer (ks_store c) = Some 10" "ks_pending c = 0"
    "st_keys (ks_store c) = [(1, replicate 32 CHR ''k'')]" "ks_notified c = 0"
    by (rule demo_expired)
  define c3 where "c3 = c\<lparr>ks_store := (ks_store c)\<lparr>st_timer := None\<rparr>, ks_pending := Suc (ks_pending c)\<rparr>"
  define x where "x = OpEncrypt (Some (replicate 12 CHR ''n'')) ''name'' ''p''"
  define c4 where "c4 = c3\<lparr>ks_store := ks_exec demo_aead (ks_now c3) x (ks_store c3)\<rparr>"
  define c5 where "c5 = c4\<lparr>ks_store := fst (onTimer (ks_store c4)), ks_pending := 0,
      ks_notified := ks_notified c4 + (if snd (onTimer (ks_store c4)) then 1 else 0)\<rparr>"
  have k: "length (replicate 32 CHR ''k'') = 32" by simp
  obtain w where
    "SealAAD demo_aead (Some (replicate 12 CHR ''n'')) (replicate 32 CHR ''k'') ''p'' ''name'' = Inr w"
    using cs.seal_total [OF k, of demo_aead "replicate 12 CHR ''n''" "''p''" "''name''"] by auto
  then have f4: "st_current (ks_store c4) = 1" "st_expiresAt (ks_store c4) = 20" "ks_now c4 = 10"
    "ks_pending c4 = 1" "ks_notified c4 = 0"
    by (simp_all add: c4_def c3_def c x_def Encrypt_def armLocked_def)
  have "ks_step demo_aead c c3" unfolding c3_def by (rule ks_fire [where t = 10]) (simp_all add: c)
  moreover have "ks_step demo_aead c3 c4" unfolding c4_def by (rule ks_call) (simp add: x_def)
  ultimately have r: "ks_reach demo_aead c4" using c(1) by (meson ks_next)
  have "ks_step demo_aead c4 c5" unfolding c5_def by (rule ks_callback) (simp add: f4)
  with r show ?thesis
    by (intro exI [of _ c4] exI [of _ c5]) (simp add: f4 c5_def onTimer_def Unlocked_def)
qed

text \<open>C11: What \<open>Encrypt\<close> packs for a name, \<open>Decrypt\<close> returns for that name, in the same store
  or in any later one that still holds the key of that version. If the current version has
  changed since, the answer carries the plaintext sealed anew under the current key, and
  that text decrypts to the same plaintext as current.\<close>

theorem decrypt_across_versions:
  assumes "aead_ok G" and "fst (Encrypt G (Some iv) t name p s) = Inr packed" and "length iv = 12"
    and "1 \<le> st_current s" and "st_current s < 2 ^ 63"
    and "map_of (st_keys s') (st_current s) = map_of (st_keys s) (st_current s)"
    and "1 \<le> st_current s'" and "st_current s' < 2 ^ 63"
    and "map_of (st_keys s') (st_current s') = Some k'" and "length k' = 32" and "length iv' = 12"
  shows "\<exists>rw. fst (Decrypt G (Some iv') t' name packed s') = Inr (p, rw, st_current s = st_current s') \<and>
    (if st_current s = st_current s' then rw = []
     else fst (Decrypt G rnd t'' name rw s') = Inr (p, [], True))"
  using Decrypt_of_Encrypt [OF assms] .

theorem decrypt_across_versions_witness:
  "\<exists>packed rw. rw \<noteq> [] \<and>
    fst (Encrypt demo_aead (Some (replicate 12 CHR ''1'')) 0 ''a'' ''p''
      (Hold 0 (replicate 32 CHR ''2'') 0 NewStore)) = Inr packed \<and>
    fst (Decrypt demo_aead (Some (replicate 12 CHR ''3'')) 1 ''a'' packed
      (AddKey 0 2 (replicate 32 CHR ''4'') (Hold 0 (replicate 32 CHR ''2'') 0 NewStore))) = Inr (''p'', rw, False)"
proof -
  let ?s = "Hold 0 (replicate 32 CHR ''2'') 0 NewStore"
  let ?s' = "AddKey 0 2 (replicate 32 CHR ''4'') ?s"
  have s: "st_keys ?s = [(1, replicate 32 CHR ''2'')]" "st_current ?s = 1"
    and s': "st_keys ?s' = [(1, replicate 32 CHR ''2''), (2, replicate 32 CHR ''4'')]" "st_current ?s' = 2"
    by (simp_all add: store_defs NewStore_def Let_def)
  have l: "length (replicate 32 CHR ''2'') = 32" by simp
  obtain w where "SealAAD demo_aead (Some (replicate 12 CHR ''1'')) (replicate 32 CHR ''2'') ''p'' ''a'' = Inr w"
    using cs.seal_total [OF l] by blast
  then have e: "fst (Encrypt demo_aead (Some (replicate 12 CHR ''1'')) 0 ''a'' ''p'' ?s) = Inr (PackVersion 1 w)"
    by (simp add: Encrypt_def s)
  have "\<exists>rw. fst (Decrypt demo_aead (Some (replicate 12 CHR ''3'')) 1 ''a'' (PackVersion 1 w) ?s')
        = Inr (''p'', rw, st_current ?s = st_current ?s') \<and>
      (if st_current ?s = st_current ?s' then rw = []
       else fst (Decrypt demo_aead None 1 ''a'' rw ?s') = Inr (''p'', [], True))"
    by (rule decrypt_across_versions [OF demo_aead_ok e, where k' = "replicate 32 CHR ''4''"])
      (simp_all add: s s')
  then obtain rw where d: "fst (Decrypt demo_aead (Some (replicate 12 CHR ''3'')) 1 ''a'' (PackVersion 1 w) ?s')
        = Inr (''p'', rw, False)" "fst (Decrypt demo_aead None 1 ''a'' rw ?s') = Inr (''p'', [], True)"
    by (auto simp: s s')
  then have "rw \<noteq> []"
    by (auto simp: Decrypt_def ParseVersion_def split: if_splits)
  with d e show ?thesis by blast
qed


text \<open>A ciphertext is bound to the name it was sealed for: \<open>Decrypt\<close> of a text that was
  packed under one name, asked for under another, fails authentication and leaves the store
  as it was.\<close>

theorem decrypt_other_name:
  assumes "aead_ok G" and "aead_binds G N" and "a \<in> N" and "b \<in> N" and "a \<noteq> b"
    and "fst (Encrypt G (Some iv) t a p s) = Inr packed" and "length iv = 12"
    and "1 \<le> st_current s" and "st_current s < 2 ^ 63"
    and "map_of (st_keys s') (st_current s) = map_of (st_keys s) (st_current s)"
    and "st_current s' \<noteq> 0"
  shows "Decrypt G rnd t' b packed s' = (Inl (CryptoError AuthFailure), s')"
proof -
  from assms(6) obtain k raw where k: "map_of (st_keys s) (st_current s) = Some k"
    and raw: "SealAAD G (Some iv) k p a = Inr raw" "packed = PackVersion (st_current s) raw"
    by (rule Encrypt_cases)
  with assms(10) have k': "map_of (st_keys s') (st_current s) = Some k" by simp
  from cs.open_packed_other_name [where K = "map_of (st_keys s')", OF assms(1,2) raw(1) assms(7,8,9) k' assms(3,4,5)]
  have "fst (Decrypt G rnd t' b packed s') = Inl (CryptoError AuthFailure)"
    by (simp add: Decrypt_open_packed [OF assms(11)] raw(2))
  with Decrypt_error [OF this] show ?thesis by (metis prod.collapse)
qed

theorem decrypt_other_name_witness:
  "\<exists>packed. fst (Encrypt demo_aead (Some (replicate 12 CHR ''1'')) 0 ''a'' ''p''
      (Hold 0 (replicate 32 CHR ''2'') 0 NewStore)) = Inr packed \<and>
    fst (Decrypt demo_aead None 1 ''bb'' packed (Hold 0 (replicate 32 CHR ''2'') 0 NewStore)) =
      Inl (CryptoError AuthFailure)"
proof -
  let ?s = "Hold 0 (replicate 32 CHR ''2'') 0 NewStore"
  have s: "st_keys ?s = [(1, replicate 32 CHR ''2'')]" "st_current ?s = 1"
    by (simp_all add: store_defs NewStore_def Let_def)
  have l: "length (replicate 32 CHR ''2'') = 32" by simp
  obtain w where "SealAAD demo_aead (Some (replicate 12 CHR ''1'')) (replicate 32 CHR ''2'') ''p'' ''a'' = Inr w"
    using cs.seal_total [OF l] by blast
  then have e: "fst (Encrypt demo_aead (Some (replicate 12 CHR ''1'')) 0 ''a'' ''p'' ?s) = Inr (PackVersion 1 w)"
    by (simp add: Encrypt_def s)
  have "Decrypt demo_aead None 1 ''bb'' (PackVersion 1 w) ?s = (Inl (CryptoError AuthFailure), ?s)"
    by (rule decrypt_other_name [OF demo_aead_ok demo_aead_binds _ _ _ e]) (simp_all add: s)
  with e show ?thesis by simp
qed

end
