(* ===== verification/Server.thy ===== *)
theory Server
  imports Ratelimit Keystore
begin

text \<open>
  Bob's request handling (\<open>internal/server/server.go\<close>) over the wire messages of
  \<open>internal/proto/proto.go\<close>: the per-request gates (rate limit, authorization, audit), the
  four operations, and the loop that reads newline-delimited requests from a connection.

  TLS and JSON are Go's standard library: a connection gives the verified identity and the
  received bytes, and the decoder of requests is a parameter. A field that is absent from a
  JSON message has its zero value. Requests of other connections and the idle timer may run
  between any two accesses to the store; \<open>w_other n\<close> is what they do to it before the n-th
  access of the request, and \<open>w_now n\<close>, \<open>w_rnd n\<close> are the clock and the random bytes that
  access sees.
\<close>

section \<open>The protocol\<close>

record Request =
  Req_Op :: string
  Req_Key :: string
  Req_Keys :: "string list"
  Req_Plaintext :: string
  Req_Packed :: string
  Req_PackedMany :: "string list"
  Req_Reason :: string

record Response =
  Resp_OK :: bool
  Resp_Error :: string
  Resp_Code :: string
  Resp_Packed :: string
  Resp_Plaintext :: string
  Resp_PlaintextMany :: "string list"
  Resp_RewrappedPacked :: string
  Resp_RewrappedPackedMany :: "string list"
  Resp_Unlocked :: bool
  Resp_TTLRemaining :: int

definition NoRequest :: Request where
  "NoRequest = \<lparr>Req_Op = [], Req_Key = [], Req_Keys = [], Req_Plaintext = [], Req_Packed = [],
     Req_PackedMany = [], Req_Reason = []\<rparr>"

definition NoResponse :: Response where
  "NoResponse = \<lparr>Resp_OK = False, Resp_Error = [], Resp_Code = [], Resp_Packed = [],
     Resp_Plaintext = [], Resp_PlaintextMany = [], Resp_RewrappedPacked = [],
     Resp_RewrappedPackedMany = [], Resp_Unlocked = False, Resp_TTLRemaining = 0\<rparr>"

definition OpEncryptName :: string where "OpEncryptName = ''encrypt''"
definition OpDecryptName :: string where "OpDecryptName = ''decrypt''"
definition OpDecryptManyName :: string where "OpDecryptManyName = ''decryptMany''"
definition OpStatusName :: string where "OpStatusName = ''status''"

definition CodeLocked :: string where "CodeLocked = ''locked''"
definition CodeUnauthorized :: string where "CodeUnauthorized = ''unauthorized''"
definition CodeDecryptFailed :: string where "CodeDecryptFailed = ''decrypt-failed''"
definition CodeBadRequest :: string where "CodeBadRequest = ''bad-request''"
definition CodeRateLimit :: string where "CodeRateLimit = ''rate-limit''"
definition CodeUnknownKeyVersion :: string where "CodeUnknownKeyVersion = ''unknown-key-version''"

lemmas code_defs = CodeLocked_def CodeUnauthorized_def CodeDecryptFailed_def CodeBadRequest_def
  CodeRateLimit_def CodeUnknownKeyVersion_def

lemmas op_defs = OpEncryptName_def OpDecryptName_def OpDecryptManyName_def OpStatusName_def

definition failure :: "string \<Rightarrow> string \<Rightarrow> Response" where
  "failure code err = NoResponse\<lparr>Resp_Code := code, Resp_Error := err\<rparr>"

section \<open>The audit log\<close>

datatype field = FStr string | FStrs "string list" | FInt int

record event =
  ev_kind :: string
  ev_fields :: "(string \<times> field) list"

definition audit :: "string \<Rightarrow> (string \<times> field) list \<Rightarrow> event" where
  "audit kind kv = \<lparr>ev_kind = kind, ev_fields = kv\<rparr>"

section \<open>The server\<close>

record Server =
  sv_store :: Store
  sv_policy :: Policy
  sv_limiter :: buckets

record world =
  w_rnd :: "nat \<Rightarrow> bytes option"
  w_now :: "nat \<Rightarrow> int"
  w_other :: "nat \<Rightarrow> Store \<Rightarrow> Store"

definition NewServer :: "Store \<Rightarrow> Policy \<Rightarrow> Server" where
  "NewServer store policy = \<lparr>sv_store = store, sv_policy = policy, sv_limiter = newRateLimiter\<rparr>"

text \<open>The answers of \<open>rateLimit\<close> and \<open>guard\<close>: \<open>Some resp\<close> stops the request.\<close>

definition rateLimit :: "int \<Rightarrow> string \<Rightarrow> string \<Rightarrow> Server \<Rightarrow> Response option \<times> event list \<times> Server" where
  "rateLimit now identity opn sv =
     (case allow (Limit (sv_policy sv)) now identity (sv_limiter sv) of
        (True, bs) \<Rightarrow> (None, [], sv\<lparr>sv_limiter := bs\<rparr>)
      | (False, bs) \<Rightarrow>
          (Some (failure CodeRateLimit ''rate limit exceeded''),
           [audit ''RATELIMIT'' [(''identity'', FStr identity), (''op'', FStr opn),
              (''cause'', FStr ''limit-exceeded'')]],
           sv\<lparr>sv_limiter := bs\<rparr>))"

definition guard :: "Policy \<Rightarrow> string \<Rightarrow> string list \<Rightarrow> string \<Rightarrow> string \<Rightarrow> Response option \<times> event list" where
  "guard policy identity keys opn reason =
     (case find (\<lambda>k. \<not> Allowed policy identity k) keys of
        Some k \<Rightarrow>
          (Some (failure CodeUnauthorized (''not authorized for key '' @ k)),
           [audit ''DENY'' [(''identity'', FStr identity), (''op'', FStr opn), (''key'', FStr k),
              (''cause'', FStr ''unauthorized'')]])
      | None \<Rightarrow>
          (None,
           [audit ''ALLOW'' ([(''identity'', FStr identity), (''op'', FStr opn), (''keys'', FStrs keys)]
              @ (if reason \<noteq> [] then [(''reason'', FStr reason)] else []))]))"

definition cryptoErr :: "keystore_error \<Rightarrow> Response" where
  "cryptoErr e =
     (case e of
        ErrLocked \<Rightarrow> failure CodeLocked ''vault is locked''
      | ErrUnknownVersion \<Rightarrow> failure CodeUnknownKeyVersion ''ciphertext references a finalized key version''
      | _ \<Rightarrow> failure CodeDecryptFailed ''operation failed'')"

text \<open>The store as the n-th access of a request finds it.\<close>

definition seen :: "world \<Rightarrow> nat \<Rightarrow> Server \<Rightarrow> Store" where
  "seen w n sv = w_other w n (sv_store sv)"

definition do_status :: "world \<Rightarrow> Server \<Rightarrow> Response \<times> event list \<times> Server" where
  "do_status w sv =
     (let s0 = seen w 0 sv; s1 = w_other w 1 s0 in
      (NoResponse\<lparr>Resp_OK := True, Resp_Unlocked := Unlocked s0,
         Resp_TTLRemaining := TTLRemaining (w_now w 1) s1 div 1000000000\<rparr>,
       [], sv\<lparr>sv_store := s1\<rparr>))"

definition do_encrypt :: "aead \<Rightarrow> world \<Rightarrow> string \<Rightarrow> Request \<Rightarrow> Server \<Rightarrow> Response \<times> event list \<times> Server" where
  "do_encrypt G w identity req sv =
     (case guard (sv_policy sv) identity [Req_Key req] ''encrypt'' (Req_Reason req) of
        (Some resp, evs) \<Rightarrow> (resp, evs, sv)
      | (None, evs) \<Rightarrow>
          (case Encrypt G (w_rnd w 0) (w_now w 0) (Req_Key req) (Req_Plaintext req) (seen w 0 sv) of
             (Inl e, s) \<Rightarrow> (cryptoErr e, evs, sv\<lparr>sv_store := s\<rparr>)
           | (Inr packed, s) \<Rightarrow>
               (NoResponse\<lparr>Resp_OK := True, Resp_Packed := packed\<rparr>, evs, sv\<lparr>sv_store := s\<rparr>)))"

definition do_decrypt :: "aead \<Rightarrow> world \<Rightarrow> string \<Rightarrow> Request \<Rightarrow> Server \<Rightarrow> Response \<times> event list \<times> Server" where
  "do_decrypt G w identity req sv =
     (case rateLimit (w_now w 0) identity ''decrypt'' sv of
        (Some resp, evs, sv1) \<Rightarrow> (resp, evs, sv1)
      | (None, evs, sv1) \<Rightarrow>
          (case guard (sv_policy sv1) identity [Req_Key req] ''decrypt'' (Req_Reason req) of
             (Some resp, evs') \<Rightarrow> (resp, evs @ evs', sv1)
           | (None, evs') \<Rightarrow>
               (case Decrypt G (w_rnd w 0) (w_now w 0) (Req_Key req) (Req_Packed req) (seen w 0 sv1) of
                  (Inl e, s) \<Rightarrow> (cryptoErr e, evs @ evs', sv1\<lparr>sv_store := s\<rparr>)
                | (Inr (pt, rewrapped, _), s) \<Rightarrow>
                    (NoResponse\<lparr>Resp_OK := True, Resp_Plaintext := pt, Resp_RewrappedPacked := rewrapped\<rparr>,
                     evs @ evs' @
                       (if rewrapped \<noteq> [] then
                          [audit ''KEY_REWRAP'' [(''identity'', FStr identity), (''op'', FStr ''decrypt''),
                             (''key'', FStr (Req_Key req)), (''count'', FInt 1)]]
                        else []),
                     sv1\<lparr>sv_store := s\<rparr>))))"

text \<open>The loop over the batch: the results so far, or the error that ends it.\<close>

fun decrypt_loop ::
  "aead \<Rightarrow> world \<Rightarrow> nat \<Rightarrow> (string \<times> string) list \<Rightarrow> Store \<Rightarrow>
     (keystore_error + (string \<times> string) list) \<times> Store" where
  "decrypt_loop G w i [] s = (Inr [], s)"
| "decrypt_loop G w i ((key, p) # rest) s =
     (case Decrypt G (w_rnd w i) (w_now w i) key p (w_other w i s) of
        (Inl e, s') \<Rightarrow> (Inl e, s')
      | (Inr (pt, rewrapped, _), s') \<Rightarrow>
          (case decrypt_loop G w (Suc i) rest s' of
             (Inl e, s'') \<Rightarrow> (Inl e, s'')
           | (Inr out, s'') \<Rightarrow> (Inr ((pt, rewrapped) # out), s'')))"

definition do_decryptMany :: "aead \<Rightarrow> world \<Rightarrow> string \<Rightarrow> Request \<Rightarrow> Server \<Rightarrow> Response \<times> event list \<times> Server" where
  "do_decryptMany G w identity req sv =
     (case rateLimit (w_now w 0) identity ''decryptMany'' sv of
        (Some resp, evs, sv1) \<Rightarrow> (resp, evs, sv1)
      | (None, evs, sv1) \<Rightarrow>
          (case guard (sv_policy sv1) identity (Req_Keys req) ''decryptMany'' (Req_Reason req) of
             (Some resp, evs') \<Rightarrow> (resp, evs @ evs', sv1)
           | (None, evs') \<Rightarrow>
               (if length (Req_Keys req) \<noteq> length (Req_PackedMany req) then
                  (failure CodeBadRequest ''decryptMany: keys/packedMany length mismatch'', evs @ evs', sv1)
                else
                  (case decrypt_loop G w 0 (zip (Req_Keys req) (Req_PackedMany req)) (sv_store sv1) of
                     (Inl e, s) \<Rightarrow> (cryptoErr e, evs @ evs', sv1\<lparr>sv_store := s\<rparr>)
                   | (Inr out, s) \<Rightarrow>
                       (let rewraps = map snd out;
                            rewrapCount = length (filter (\<lambda>r. r \<noteq> []) rewraps)
                        in (NoResponse\<lparr>Resp_OK := True, Resp_PlaintextMany := map fst out,
                              Resp_RewrappedPackedMany := (if 0 < rewrapCount then rewraps else [])\<rparr>,
                            evs @ evs' @
                              (if 0 < rewrapCount then
                                 [audit ''KEY_REWRAP'' [(''identity'', FStr identity),
                                    (''op'', FStr ''decryptMany''), (''keys'', FStrs (Req_Keys req)),
                                    (''count'', FInt (int rewrapCount))]]
                               else []),
                            sv1\<lparr>sv_store := s\<rparr>))))))"

definition dispatch :: "aead \<Rightarrow> world \<Rightarrow> string \<Rightarrow> Request \<Rightarrow> Server \<Rightarrow> Response \<times> event list \<times> Server" where
  "dispatch G w identity req sv =
     (if Req_Op req = OpStatusName then do_status w sv
      else if Req_Op req = OpEncryptName then do_encrypt G w identity req sv
      else if Req_Op req = OpDecryptName then do_decrypt G w identity req sv
      else if Req_Op req = OpDecryptManyName then do_decryptMany G w identity req sv
      else (failure CodeBadRequest (''unknown op: '' @ Req_Op req), [], sv))"

section \<open>Connections\<close>

definition maxReqBytes :: nat where
  "maxReqBytes = 1048576"

text \<open>A connection as \<open>handleConn\<close> finds it: not TLS, a failed handshake (remote address,
  error), or an established one with the peer's common name and the bytes it sends until
  the end of the stream or the deadline.\<close>

datatype conn =
    NotTLS
  | HandshakeFails string string
  | Established string bytes

text \<open>\<open>bufio.Reader.ReadSlice\<close> on a buffer of \<open>maxReqBytes\<close> bytes: a line with its line
  feed, what is left at the end of the stream, or a full buffer without a line feed.\<close>

datatype slice = FullLine bytes bytes | LastBytes bytes | BufferFull

definition ReadSlice :: "nat \<Rightarrow> bytes \<Rightarrow> slice" where
  "ReadSlice n s =
     (case IndexByte (take n s) LF of
        Some i \<Rightarrow> FullLine (take (Suc i) s) (drop (Suc i) s)
      | None \<Rightarrow> if n \<le> length s then BufferFull else LastBytes s)"

definition serve_line ::
  "aead \<Rightarrow> (bytes \<Rightarrow> Request option) \<Rightarrow> world \<Rightarrow> string \<Rightarrow> bytes \<Rightarrow> Server \<Rightarrow>
     Response \<times> event list \<times> Server" where
  "serve_line G decode w identity line sv =
     (case decode line of
        None \<Rightarrow> (failure CodeBadRequest ''malformed request'', [], sv)
      | Some req \<Rightarrow> dispatch G w identity req sv)"

text \<open>The loop: the responses written, the audit events, and the server afterwards. The
  k-th request of the connection runs in the world \<open>ws k\<close>.\<close>

function conn_loop ::
  "aead \<Rightarrow> (bytes \<Rightarrow> Request option) \<Rightarrow> (nat \<Rightarrow> world) \<Rightarrow> nat \<Rightarrow> string \<Rightarrow> bytes \<Rightarrow> Server \<Rightarrow>
     Response list \<times> event list \<times> Server" where
  "conn_loop G decode ws k identity s sv =
     (case ReadSlice maxReqBytes s of
        BufferFull \<Rightarrow>
          ([failure CodeBadRequest ''request exceeds 1 MiB''],
           [audit ''DROP'' [(''identity'', FStr identity), (''cause'', FStr ''request-too-large'')]], sv)
      | LastBytes line \<Rightarrow>
          (if line = [] then ([], [], sv)
           else (case serve_line G decode (ws k) identity line sv of
                   (resp, evs, sv') \<Rightarrow> ([resp], evs, sv')))
      | FullLine line rest \<Rightarrow>
          (case serve_line G decode (ws k) identity line sv of
             (resp, evs, sv') \<Rightarrow>
               (case conn_loop G decode ws (Suc k) identity rest sv' of
                  (resps, evs', sv'') \<Rightarrow> (resp # resps, evs @ evs', sv''))))"
  by pat_completeness auto
termination
proof (relation "measure (\<lambda>(G, d, ws, k, i, s, sv). length s)")
  fix s line rest :: bytes
  assume "ReadSlice maxReqBytes s = FullLine line rest"
  then obtain i where "IndexByte (take maxReqBytes s) LF = Some i" "rest = drop (Suc i) s"
    by (auto simp: ReadSlice_def split: option.splits if_splits)
  then have "length rest < length s" by (auto dest!: IndexByte_Some)
  then show "((G, d, ws, Suc k, ident, rest, sv'), G, d, ws, k, ident, s, sv)
      \<in> measure (\<lambda>(G, d, ws, k, i, s, sv). length s)" for G d ws k ident sv sv'
    by simp
qed simp

declare conn_loop.simps [simp del]

definition handleConn ::
  "aead \<Rightarrow> (bytes \<Rightarrow> Request option) \<Rightarrow> (nat \<Rightarrow> world) \<Rightarrow> conn \<Rightarrow> Server \<Rightarrow>
     Response list \<times> event list \<times> Server" where
  "handleConn G decode ws c sv =
     (case c of
        NotTLS \<Rightarrow> ([], [], sv)
      | HandshakeFails remote err \<Rightarrow>
          ([], [audit ''HANDSHAKE_FAIL'' [(''remote'', FStr remote), (''err'', FStr err)]], sv)
      | Established identity s \<Rightarrow>
          (if identity = [] then ([], [], sv) else conn_loop G decode ws 0 identity s sv))"


section \<open>Lemmas on the gates\<close>

lemma rateLimit_fields:
  assumes "rateLimit now i opn sv = (r, evs, sv')"
  shows "sv_store sv' = sv_store sv" and "sv_policy sv' = sv_policy sv"
    and "sv_limiter sv' = snd (allow (Limit (sv_policy sv)) now i (sv_limiter sv))"
    and "r = None \<longleftrightarrow> fst (allow (Limit (sv_policy sv)) now i (sv_limiter sv))"
    and "r \<noteq> None \<Longrightarrow> r = Some (failure CodeRateLimit ''rate limit exceeded'')"
  using assms by (auto simp: rateLimit_def split: prod.splits bool.splits)

lemma guard_None:
  assumes "guard p i keys opn reason = (None, evs)"
  shows "\<forall>k \<in> set keys. Allowed p i k"
    and "evs = [audit ''ALLOW'' ([(''identity'', FStr i), (''op'', FStr opn), (''keys'', FStrs keys)]
              @ (if reason \<noteq> [] then [(''reason'', FStr reason)] else []))]"
  using assms by (auto simp: guard_def find_None_iff split: option.splits)

lemma guard_Some:
  assumes "guard p i keys opn reason = (Some r, evs)"
  shows "\<exists>k \<in> set keys. \<not> Allowed p i k \<and> r = failure CodeUnauthorized (''not authorized for key '' @ k)"
  using assms by (auto simp: guard_def split: option.splits dest!: find_SomeD)

lemma guard_allowed:
  "\<forall>k \<in> set keys. Allowed p i k \<Longrightarrow> \<exists>evs. guard p i keys opn reason = (None, evs)"
  by (auto simp: guard_def find_None_iff split: option.splits dest!: find_SomeD)

lemma guard_reason: "fst (guard p i keys opn r) = fst (guard p i keys opn r')"
  by (simp add: guard_def split: option.splits)

text \<open>What a failure carries.\<close>

lemma failure_fields [simp]:
  "Resp_OK (failure c e) = False" "Resp_Code (failure c e) = c" "Resp_Error (failure c e) = e"
  "Resp_Plaintext (failure c e) = []" "Resp_PlaintextMany (failure c e) = []"
  "Resp_Packed (failure c e) = []" "Resp_RewrappedPacked (failure c e) = []"
  "Resp_RewrappedPackedMany (failure c e) = []" "Resp_Unlocked (failure c e) = False"
  by (simp_all add: failure_def NoResponse_def)

lemma NoResponse_fields [simp]:
  "Resp_OK NoResponse = False" "Resp_Code NoResponse = []" "Resp_Error NoResponse = []"
  "Resp_Plaintext NoResponse = []" "Resp_PlaintextMany NoResponse = []"
  "Resp_Packed NoResponse = []" "Resp_RewrappedPacked NoResponse = []"
  "Resp_RewrappedPackedMany NoResponse = []" "Resp_Unlocked NoResponse = False"
  by (simp_all add: NoResponse_def)

lemma cryptoErr_failure: "\<exists>c e'. cryptoErr e = failure c e'"
  by (auto simp: cryptoErr_def split: keystore_error.splits)

lemma cryptoErr_fields [simp]:
  "Resp_OK (cryptoErr e) = False" "Resp_Plaintext (cryptoErr e) = []"
  "Resp_PlaintextMany (cryptoErr e) = []" "Resp_Packed (cryptoErr e) = []"
  "Resp_RewrappedPacked (cryptoErr e) = []" "Resp_RewrappedPackedMany (cryptoErr e) = []"
  using cryptoErr_failure [of e] by auto

text \<open>The key names of a request, and the part of a response that depends on keys.\<close>

definition names_of :: "Request \<Rightarrow> string list" where
  "names_of req = (if Req_Op req = OpDecryptManyName then Req_Keys req else [Req_Key req])"

definition gated :: "Request \<Rightarrow> bool" where
  "gated req \<longleftrightarrow> Req_Op req \<in> {OpEncryptName, OpDecryptName, OpDecryptManyName}"

definition carries_data :: "Response \<Rightarrow> bool" where
  "carries_data r \<longleftrightarrow> Resp_Packed r \<noteq> [] \<or> Resp_Plaintext r \<noteq> [] \<or> Resp_PlaintextMany r \<noteq> [] \<or>
     Resp_RewrappedPacked r \<noteq> [] \<or> Resp_RewrappedPackedMany r \<noteq> []"

lemma no_data [simp]:
  "\<not> carries_data (failure c e)" "\<not> carries_data (cryptoErr e')"
  by (simp_all add: carries_data_def)

lemma dispatch_policy:
  "dispatch G w i req sv = (r, evs, sv') \<Longrightarrow> sv_policy sv' = sv_policy sv"
  by (auto simp: dispatch_def do_status_def do_encrypt_def do_decrypt_def do_decryptMany_def Let_def
      dest: rateLimit_fields(2) split: if_splits prod.splits option.splits sum.splits)

text \<open>A gated request that is answered with success or with data passed the guard.\<close>

definition passed :: "Policy \<Rightarrow> string \<Rightarrow> Request \<Rightarrow> event list \<Rightarrow> bool" where
  "passed p i req evs \<longleftrightarrow> (\<forall>k \<in> set (names_of req). Allowed p i k) \<and>
     (\<exists>e \<in> set evs. ev_kind e = ''ALLOW'' \<and>
        (''identity'', FStr i) \<in> set (ev_fields e) \<and> (''op'', FStr (Req_Op req)) \<in> set (ev_fields e) \<and>
        (''keys'', FStrs (names_of req)) \<in> set (ev_fields e))"

lemma passed_guard:
  assumes "guard p i (names_of req) (Req_Op req) reason = (None, evs')" and "set evs' \<subseteq> set evs"
  shows "passed p i req evs"
proof -
  let ?e = "audit ''ALLOW'' ([(''identity'', FStr i), (''op'', FStr (Req_Op req)), (''keys'', FStrs (names_of req))]
      @ (if reason \<noteq> [] then [(''reason'', FStr reason)] else []))"
  have "?e \<in> set evs" using guard_None(2) [OF assms(1)] assms(2) by auto
  with guard_None(1) [OF assms(1)] show ?thesis
    unfolding passed_def by (intro conjI bexI [of _ ?e]) (simp_all add: audit_def)
qed

lemma do_encrypt_passed:
  assumes "do_encrypt G w i req sv = (r, evs, sv')" and "Req_Op req = OpEncryptName"
    and "Resp_OK r \<or> carries_data r"
  shows "passed (sv_policy sv) i req evs"
proof (cases "guard (sv_policy sv) i [Req_Key req] ''encrypt'' (Req_Reason req)")
  case (Pair x evs0)
  with assms show ?thesis
    by (cases x)
      (auto simp: do_encrypt_def names_of_def op_defs dest: guard_Some
        split: prod.splits sum.splits intro!: passed_guard [where reason = "Req_Reason req"])
qed

lemma do_decrypt_passed:
  assumes "do_decrypt G w i req sv = (r, evs, sv')" and "Req_Op req = OpDecryptName"
    and "Resp_OK r \<or> carries_data r"
  shows "passed (sv_policy sv) i req evs"
proof -
  obtain x evs0 sv1 where rl: "rateLimit (w_now w 0) i ''decrypt'' sv = (x, evs0, sv1)"
    by (metis prod_cases3)
  have p: "sv_policy sv1 = sv_policy sv" by (rule rateLimit_fields(2) [OF rl])
  have x: "x = None"
    using rateLimit_fields(5) [OF rl] assms(1,3) rl by (cases x) (auto simp: do_decrypt_def)
  obtain y evs1 where g: "guard (sv_policy sv1) i [Req_Key req] ''decrypt'' (Req_Reason req) = (y, evs1)"
    by (metis surj_pair)
  have y: "y = None"
    using assms(1,3) rl x g by (cases y) (auto simp: do_decrypt_def dest: guard_Some)
  show ?thesis
    using assms(1,2) rl x y g p
    by (auto simp: do_decrypt_def names_of_def op_defs split: prod.splits sum.splits
        intro!: passed_guard [where reason = "Req_Reason req" and evs' = evs1])
qed

lemma do_decryptMany_passed:
  assumes "do_decryptMany G w i req sv = (r, evs, sv')" and "Req_Op req = OpDecryptManyName"
    and "Resp_OK r \<or> carries_data r"
  shows "passed (sv_policy sv) i req evs"
proof -
  obtain x evs0 sv1 where rl: "rateLimit (w_now w 0) i ''decryptMany'' sv = (x, evs0, sv1)"
    by (metis prod_cases3)
  have p: "sv_policy sv1 = sv_policy sv" by (rule rateLimit_fields(2) [OF rl])
  have x: "x = None"
    using rateLimit_fields(5) [OF rl] assms(1,3) rl by (cases x) (auto simp: do_decryptMany_def)
  obtain y evs1 where g: "guard (sv_policy sv1) i (Req_Keys req) ''decryptMany'' (Req_Reason req) = (y, evs1)"
    by (metis surj_pair)
  have y: "y = None"
    using assms(1,3) rl x g by (cases y) (auto simp: do_decryptMany_def dest: guard_Some)
  show ?thesis
    using assms(1,2) rl x y g p
    by (auto simp: do_decryptMany_def names_of_def op_defs Let_def split: prod.splits sum.splits if_splits
        intro!: passed_guard [where reason = "Req_Reason req" and evs' = evs1])
qed

lemma dispatch_passed:
  assumes "dispatch G w i req sv = (r, evs, sv')"
    and "carries_data r \<or> (Resp_OK r \<and> Req_Op req \<noteq> OpStatusName)"
  shows "gated req \<and> passed (sv_policy sv) i req evs"
  using assms do_encrypt_passed [of G w i req sv r evs sv'] do_decrypt_passed [of G w i req sv r evs sv']
    do_decryptMany_passed [of G w i req sv r evs sv']
  by (auto simp: dispatch_def gated_def do_status_def carries_data_def Let_def split: if_splits)


section \<open>The store under a request\<close>

text \<open>Other requests and the timer leave the held keys alone during a request.\<close>

definition quiet :: "world \<Rightarrow> bool" where
  "quiet w \<longleftrightarrow> (\<forall>n s. st_keys (w_other w n s) = st_keys s \<and> st_current (w_other w n s) = st_current s)"

lemma quietD: "quiet w \<Longrightarrow> st_keys (w_other w n s) = st_keys s \<and> st_current (w_other w n s) = st_current s"
  by (simp add: quiet_def)

lemma decrypt_loop_fields:
  assumes "quiet w" and "decrypt_loop G w n ps s = (r, s')"
  shows "st_keys s' = st_keys s \<and> st_current s' = st_current s"
  using assms(2)
proof (induction ps arbitrary: n s r s')
  case (Cons a ps)
  obtain key p where a: "a = (key, p)" by (cases a)
  obtain x s1 where d: "Decrypt G (w_rnd w n) (w_now w n) key p (w_other w n s) = (x, s1)"
    by (metis surj_pair)
  have f: "st_keys s1 = st_keys s" "st_current s1 = st_current s"
    using Decrypt_fields [of G "w_rnd w n" "w_now w n" key p "w_other w n s"] quietD [OF assms(1), of n s]
    unfolding d by auto
  show ?case
  proof (cases x)
    case (Inl e)
    with Cons.prems f show ?thesis by (simp add: a d)
  next
    case (Inr z)
    obtain r1 s2 where l: "decrypt_loop G w (Suc n) ps s1 = (r1, s2)" by (metis surj_pair)
    with Cons.prems Inr have "s' = s2" by (simp add: a d split: sum.splits prod.splits)
    with Cons.IH [OF l] f show ?thesis by simp
  qed
qed simp

text \<open>Each answer of the batch is the opening of its ciphertext under its name, and its
  rewrap slot is empty exactly when the ciphertext was on the current version.\<close>

definition opens_to :: "aead \<Rightarrow> Store \<Rightarrow> string \<times> string \<Rightarrow> string \<times> string \<Rightarrow> bool" where
  "opens_to G s kp out \<longleftrightarrow>
     cs.open_packed G (map_of (st_keys s)) (snd kp) (fst kp) = Some (Inr (fst out)) \<and>
     (snd out = [] \<longleftrightarrow> (\<exists>raw. ParseVersion (snd kp) = Inr (st_current s, raw)))"

lemma Decrypt_opens_to:
  assumes "fst (Decrypt G rnd t key p s) = Inr (pt, rw, cur)"
  shows "opens_to G s (key, p) (pt, rw)"
  using assms
  by (rule Decrypt_cases)
    (auto simp: opens_to_def cs.open_packed_def cs.pack_nonempty cs.pack_nonempty [symmetric])

lemma decrypt_loop_opens:
  assumes "quiet w" and "decrypt_loop G w n ps s = (Inr out, s')"
  shows "list_all2 (opens_to G s) ps out"
  using assms(2)
proof (induction ps arbitrary: n s out)
  case (Cons a ps)
  obtain key p where a: "a = (key, p)" by (cases a)
  obtain x s1 where d: "Decrypt G (w_rnd w n) (w_now w n) key p (w_other w n s) = (x, s1)"
    by (metis surj_pair)
  have f: "st_keys s1 = st_keys s" "st_current s1 = st_current s"
    using Decrypt_fields [of G "w_rnd w n" "w_now w n" key p "w_other w n s"] quietD [OF assms(1), of n s]
    unfolding d by auto
  have o1: "opens_to G s1 = opens_to G s" "opens_to G (w_other w n s) = opens_to G s"
    by (auto simp: opens_to_def fun_eq_iff f quietD [OF assms(1)])
  from Cons.prems obtain pt rw cur rest where x: "x = Inr (pt, rw, cur)"
    and l: "decrypt_loop G w (Suc n) ps s1 = (Inr rest, s')" "out = (pt, rw) # rest"
    by (auto simp: a d split: sum.splits prod.splits)
  have "fst (Decrypt G (w_rnd w n) (w_now w n) key p (w_other w n s)) = Inr (pt, rw, cur)"
    using d x by simp
  from Decrypt_opens_to [OF this] Cons.IH [OF l(1)] show ?case by (simp add: a l(2) o1)
qed simp

lemma do_decryptMany_cases:
  assumes "do_decryptMany G w i req sv = (r, evs, sv')" and "Resp_OK r"
  obtains out where
    "decrypt_loop G w 0 (zip (Req_Keys req) (Req_PackedMany req)) (sv_store sv) = (Inr out, sv_store sv')"
    "length (Req_Keys req) = length (Req_PackedMany req)" "Resp_PlaintextMany r = map fst out"
    "Resp_RewrappedPackedMany r = (if list_all (\<lambda>x. x = []) (map snd out) then [] else map snd out)"
proof -
  obtain x evs0 sv1 where rl: "rateLimit (w_now w 0) i ''decryptMany'' sv = (x, evs0, sv1)"
    by (metis prod_cases3)
  have x: "x = None"
    using rateLimit_fields(5) [OF rl] assms rl by (cases x) (auto simp: do_decryptMany_def)
  obtain y evs1 where g: "guard (sv_policy sv1) i (Req_Keys req) ''decryptMany'' (Req_Reason req) = (y, evs1)"
    by (metis surj_pair)
  have y: "y = None"
    using assms rl x g by (cases y) (auto simp: do_decryptMany_def dest: guard_Some)
  have n: "list_all (\<lambda>x. x = []) rs \<longleftrightarrow> filter (\<lambda>r. r \<noteq> []) rs = []" for rs :: "string list"
    by (auto simp: list_all_iff filter_empty_conv)
  show thesis
    using assms rl x y g that rateLimit_fields(1) [OF rl]
    by (auto simp: do_decryptMany_def Let_def n simp del: list.pred_map split: prod.splits sum.splits if_splits)
qed

section \<open>The server as a rate limiter client\<close>

definition decrypt_class :: "Request \<Rightarrow> bool" where
  "decrypt_class req \<longleftrightarrow> Req_Op req \<in> {OpDecryptName, OpDecryptManyName}"

text \<open>A history of requests from any number of connections, in the order in which they
  reach \<open>dispatch\<close>: the responses and the server afterwards.\<close>

fun serve_all :: "aead \<Rightarrow> (world \<times> string \<times> Request) list \<Rightarrow> Server \<Rightarrow> Response list \<times> Server" where
  "serve_all G [] sv = ([], sv)"
| "serve_all G ((w, i, req) # rest) sv =
     (case dispatch G w i req sv of
        (r, evs, sv') \<Rightarrow> (case serve_all G rest sv' of (rs, sv'') \<Rightarrow> (r # rs, sv'')))"

text \<open>The calls the history makes of the limiter, and the number of decrypt-class requests
  of an identity that succeed.\<close>

definition limiter_calls :: "(world \<times> string \<times> Request) list \<Rightarrow> (int \<times> string) list" where
  "limiter_calls hist = map (\<lambda>(w, i, req). (w_now w 0, i)) (filter (\<lambda>(w, i, req). decrypt_class req) hist)"

definition decrypts_ok :: "string \<Rightarrow> (world \<times> string \<times> Request) list \<Rightarrow> Response list \<Rightarrow> nat" where
  "decrypts_ok ident hist rs =
     length (filter (\<lambda>((w, i, req), r). decrypt_class req \<and> i = ident \<and> Resp_OK r) (zip hist rs))"

lemma dispatch_limiter:
  assumes "dispatch G w i req sv = (r, evs, sv')"
  shows "sv_limiter sv' =
      (if decrypt_class req then snd (allow (Limit (sv_policy sv)) (w_now w 0) i (sv_limiter sv))
       else sv_limiter sv)"
    and "decrypt_class req \<Longrightarrow> Resp_OK r \<Longrightarrow> fst (allow (Limit (sv_policy sv)) (w_now w 0) i (sv_limiter sv))"
proof -
  have d: "sv_limiter sv' = snd (allow (Limit (sv_policy sv)) (w_now w 0) i (sv_limiter sv)) \<and>
      (Resp_OK r \<longrightarrow> fst (allow (Limit (sv_policy sv)) (w_now w 0) i (sv_limiter sv)))"
    if "do_decrypt G w i req sv = (r, evs, sv') \<or> do_decryptMany G w i req sv = (r, evs, sv')"
  proof -
    obtain x evs0 sv1 where rl: "rateLimit (w_now w 0) i ''decrypt'' sv = (x, evs0, sv1)"
      by (metis prod_cases3)
    obtain y evs1 sv2 where rm: "rateLimit (w_now w 0) i ''decryptMany'' sv = (y, evs1, sv2)"
      by (metis prod_cases3)
    from that rateLimit_fields(3-5) [OF rl] rateLimit_fields(3-5) [OF rm] show ?thesis
      by (auto simp: do_decrypt_def do_decryptMany_def rl rm Let_def
          split: option.splits prod.splits sum.splits if_splits)
  qed
  show "sv_limiter sv' =
      (if decrypt_class req then snd (allow (Limit (sv_policy sv)) (w_now w 0) i (sv_limiter sv))
       else sv_limiter sv)"
    using assms d
    by (auto simp: dispatch_def decrypt_class_def op_defs do_status_def do_encrypt_def Let_def
        split: if_splits prod.splits option.splits sum.splits)
  show "decrypt_class req \<Longrightarrow> Resp_OK r \<Longrightarrow> fst (allow (Limit (sv_policy sv)) (w_now w 0) i (sv_limiter sv))"
    using assms d by (auto simp: dispatch_def decrypt_class_def op_defs split: if_splits)
qed

lemma decrypts_ok_grants:
  "decrypts_ok i hist (fst (serve_all G hist sv)) \<le>
     fst (tb.grants (Limit (sv_policy sv)) i (limiter_calls hist) (sv_limiter sv))"
proof (induction hist arbitrary: sv)
  case Nil
  show ?case by (simp add: decrypts_ok_def)
next
  case (Cons h hist)
  obtain w j req where h: "h = (w, j, req)" by (cases h)
  obtain r evs sv' where d: "dispatch G w j req sv = (r, evs, sv')" by (metis prod_cases3)
  from Cons.IH [of sv'] dispatch_limiter [OF d] dispatch_policy [OF d] show ?case
    by (cases "allow (Limit (sv_policy sv)) (w_now w 0) j (sv_limiter sv)")
      (auto simp: h d decrypts_ok_def limiter_calls_def split: prod.splits if_splits)
qed


section \<open>Properties\<close>

text \<open>A world without interference, with fixed random bytes, used by the witnesses.\<close>

definition calm :: "int \<Rightarrow> world" where
  "calm t = \<lparr>w_rnd = (\<lambda>_. Some (replicate 12 CHR ''n'')), w_now = (\<lambda>_. t), w_other = (\<lambda>_ s. s)\<rparr>"

lemma calm_simps [simp]:
  "w_rnd (calm t) n = Some (replicate 12 CHR ''n'')" "w_now (calm t) n = t" "w_other (calm t) n s = s"
  "quiet (calm t)"
  by (simp_all add: calm_def quiet_def)

definition demo_key :: bytes where
  "demo_key = replicate 32 CHR ''K''"

definition demo_policy :: Policy where
  "demo_policy = \<lparr>Rules = [''al'' \<mapsto> [''a'', ''bb'']], RateLimits = [(''al'', 3)], DefaultAllow = False\<rparr>"

definition demo_server :: Server where
  "demo_server = NewServer (Hold 0 demo_key 0 NewStore) demo_policy"

lemma demo_server_simps [simp]:
  "sv_policy demo_server = demo_policy" "st_keys (sv_store demo_server) = [(1, demo_key)]"
  "st_current (sv_store demo_server) = 1" "sv_limiter demo_server = Map.empty"
  by (simp_all add: demo_server_def NewServer_def store_defs NewStore_def Let_def newRateLimiter_def)

lemma demo_limit [simp]: "Limit demo_policy ''al'' = 3"
  by (simp add: Limit_def demo_policy_def)

lemma demo_allowed [simp]: "Allowed demo_policy ''al'' ''a''" "Allowed demo_policy ''al'' ''bb''"
  "\<not> Allowed demo_policy ''al'' ''zz''" "\<not> Allowed demo_policy ''eve'' k"
  by (simp_all add: Allowed_def demo_policy_def HasPrefix_def)

lemma demo_seal:
  obtains c where "SealAAD demo_aead (Some (replicate 12 CHR ''n'')) demo_key p a = Inr c"
proof -
  have "length demo_key = 32" by (simp add: demo_key_def)
  from cs.seal_total [OF this] that show thesis by blast
qed

text \<open>No answer carries a ciphertext, a plaintext or a rewrapped text, and no encrypt or
  decrypt request succeeds, unless the identity is authorized for every key the request
  names; and then the audit log has an \<open>ALLOW\<close> event with the identity, the operation and
  exactly those keys.\<close>

theorem data_needs_authorization:
  assumes "dispatch G w ident req sv = (resp, evs, sv')"
    and "carries_data resp \<or> (Resp_OK resp \<and> Req_Op req \<noteq> ''status'')"
  shows "(\<forall>k \<in> set (names_of req). Allowed (sv_policy sv) ident k) \<and>
    (\<exists>e \<in> set evs. ev_kind e = ''ALLOW'' \<and>
       (''identity'', FStr ident) \<in> set (ev_fields e) \<and> (''op'', FStr (Req_Op req)) \<in> set (ev_fields e) \<and>
       (''keys'', FStrs (names_of req)) \<in> set (ev_fields e))"
  using dispatch_passed [OF assms(1)] assms(2) by (simp add: passed_def OpStatusName_def)

theorem data_needs_authorization_witness:
  "\<exists>resp evs sv'. dispatch demo_aead (calm 0) ''al''
      (NoRequest\<lparr>Req_Op := ''encrypt'', Req_Key := ''a'', Req_Plaintext := ''p''\<rparr>) demo_server = (resp, evs, sv') \<and>
    Resp_OK resp \<and> Allowed demo_policy ''al'' ''a''"
proof -
  let ?r = "NoRequest\<lparr>Req_Op := ''encrypt'', Req_Key := ''a'', Req_Plaintext := ''p''\<rparr>"
  obtain c where c: "SealAAD demo_aead (Some (replicate 12 CHR ''n'')) demo_key ''p'' ''a'' = Inr c"
    by (rule demo_seal)
  obtain resp evs sv' where d: "dispatch demo_aead (calm 0) ''al'' ?r demo_server = (resp, evs, sv')"
    by (metis prod_cases3)
  then have ok: "Resp_OK resp"
    by (auto simp: dispatch_def op_defs do_encrypt_def guard_def Encrypt_def seen_def c NoRequest_def
        split: prod.splits)
  have "\<forall>k \<in> set (names_of ?r). Allowed (sv_policy demo_server) ''al'' k"
    using data_needs_authorization [OF d] ok by (auto simp: NoRequest_def)
  with d ok show ?thesis by (auto simp: names_of_def op_defs NoRequest_def)
qed

lemma conn_loop_silent:
  assumes "\<not> DefaultAllow (sv_policy sv)" and "Rules (sv_policy sv) ident = None"
    and "conn_loop G decode ws k ident s sv = (resps, evs, sv')"
  shows "\<forall>r \<in> set resps. \<not> carries_data r"
  using assms
proof (induction G decode ws k ident s sv arbitrary: resps evs sv' rule: conn_loop.induct)
  case (1 G decode ws k ident s sv)
  have line: "\<not> carries_data r \<and> sv_policy sv1 = sv_policy sv"
    if l: "serve_line G decode (ws k) ident line sv = (r, es, sv1)" for line r es sv1
  proof (cases "decode line")
    case (Some req)
    with l have d: "dispatch G (ws k) ident req sv = (r, es, sv1)" by (simp add: serve_line_def)
    have "\<not> carries_data r"
    proof
      assume c: "carries_data r"
      from dispatch_passed [OF d] c have g: "gated req" and p: "passed (sv_policy sv) ident req es" by auto
      from p 1(2,3) have "names_of req = []" by (auto simp: passed_def Allowed_def)
      then have m: "Req_Op req = OpDecryptManyName" "Req_Keys req = []"
        by (auto simp: names_of_def split: if_splits)
      with d c show False
        by (auto simp: dispatch_def op_defs do_decryptMany_def Let_def carries_data_def
            split: prod.splits option.splits if_splits)
          (auto simp: rateLimit_def guard_def split: prod.splits bool.splits)
    qed
    with dispatch_policy [OF d] show ?thesis by simp
  qed (use l in \<open>auto simp: serve_line_def\<close>)
  show ?case
  proof (cases "ReadSlice maxReqBytes s")
    case (FullLine l rest)
    obtain r es sv1 where s1: "serve_line G decode (ws k) ident l sv = (r, es, sv1)"
      by (metis prod_cases3)
    obtain rs es' sv2 where s2: "conn_loop G decode ws (Suc k) ident rest sv1 = (rs, es', sv2)"
      by (metis prod_cases3)
    from 1(4) have "resps = r # rs"
      by (simp add: conn_loop.simps [of G decode ws k] FullLine s1 s2)
    moreover from line [OF s1] 1(2,3) have "\<forall>r \<in> set rs. \<not> carries_data r"
      by (intro "1.IH" [OF FullLine s1 [symmetric] refl _ _ s2]) simp_all
    ultimately show ?thesis using line [OF s1] by simp
  next
    case (LastBytes l)
    with 1(4) line [of l] show ?thesis
      by (cases "l = []") (auto simp: conn_loop.simps [of G decode ws k] split: prod.splits)
  next
    case BufferFull
    with 1(4) show ?thesis by (auto simp: conn_loop.simps [of G decode ws k])
  qed
qed

text \<open>An identity without a rule learns nothing: over a whole connection, whatever bytes
  it sends and however its requests decode, no response carries any ciphertext or plaintext.\<close>

theorem unknown_identity_learns_nothing:
  assumes "\<not> DefaultAllow (sv_policy sv)" and "Rules (sv_policy sv) ident = None"
    and "handleConn G decode ws (Established ident s) sv = (resps, evs, sv')"
  shows "\<forall>r \<in> set resps. Resp_Packed r = [] \<and> Resp_Plaintext r = [] \<and> Resp_PlaintextMany r = [] \<and>
    Resp_RewrappedPacked r = [] \<and> Resp_RewrappedPackedMany r = []"
  using assms conn_loop_silent [OF assms(1,2), of G decode ws 0 s resps evs sv']
  by (auto simp: handleConn_def carries_data_def split: if_splits)

theorem unknown_identity_learns_nothing_witness:
  "\<exists>resps evs sv'. handleConn demo_aead (\<lambda>_. None) (\<lambda>_. calm 0) (Established ''eve'' ''hi'') demo_server = (resps, evs, sv') \<and>
    (\<forall>r \<in> set resps. Resp_Plaintext r = [])"
proof -
  obtain resps evs sv' where
    h: "handleConn demo_aead (\<lambda>_. None) (\<lambda>_. calm 0) (Established ''eve'' ''hi'') demo_server = (resps, evs, sv')"
    by (metis prod_cases3)
  have "\<forall>r \<in> set resps. Resp_Packed r = [] \<and> Resp_Plaintext r = [] \<and> Resp_PlaintextMany r = [] \<and>
    Resp_RewrappedPacked r = [] \<and> Resp_RewrappedPackedMany r = []"
    by (rule unknown_identity_learns_nothing [OF _ _ h]) (simp_all add: demo_policy_def)
  with h show ?thesis by auto
qed


text \<open>C22: A request that names a key its identity is not authorized for is refused with
  \<open>unauthorized\<close> or \<open>rate-limit\<close>, leaves the key store untouched, and is recorded by a
  \<open>DENY\<close> or \<open>RATELIMIT\<close> event.\<close>

theorem denied_request_has_no_effect:
  assumes "dispatch G w ident req sv = (resp, evs, sv')" and "gated req"
    and "k \<in> set (names_of req)" and "\<not> Allowed (sv_policy sv) ident k"
  shows "\<not> Resp_OK resp \<and> Resp_Code resp \<in> {''unauthorized'', ''rate-limit''} \<and>
    sv_store sv' = sv_store sv \<and> ev_kind (last evs) \<in> {''DENY'', ''RATELIMIT''}"
proof -
  have g: "\<exists>k' e. guard p ident keys opn reason =
      (Some (failure CodeUnauthorized (''not authorized for key '' @ k')), [audit ''DENY'' e])"
    if "k \<in> set keys" "\<not> Allowed p ident k" for p keys opn reason
  proof -
    obtain x evs where g: "guard p ident keys opn reason = (x, evs)" by (metis surj_pair)
    with that guard_None(1) have "x \<noteq> None" by fastforce
    with g show ?thesis by (auto simp: guard_def split: option.splits)
  qed
  have rl: "rateLimit t ident opn sv = (x, e, sv1) \<Longrightarrow> sv_store sv1 = sv_store sv \<and>
      sv_policy sv1 = sv_policy sv \<and> (x \<noteq> None \<longrightarrow> x = Some (failure CodeRateLimit ''rate limit exceeded'') \<and>
        ev_kind (last e) = ''RATELIMIT'')" for t opn x e sv1
    by (auto simp: rateLimit_def audit_def split: prod.splits bool.splits)
  from assms(2) consider "Req_Op req = OpEncryptName" | "Req_Op req = OpDecryptName"
    | "Req_Op req = OpDecryptManyName" by (auto simp: gated_def)
  then show ?thesis
  proof cases
    case 1
    with assms(3) have "k \<in> set [Req_Key req]" by (simp add: names_of_def op_defs)
    from g [OF this assms(4), of "''encrypt''" "Req_Reason req"] 1 assms(1) show ?thesis
      by (auto simp: dispatch_def op_defs do_encrypt_def audit_def code_defs)
  next
    case 2
    with assms(3) have k: "k \<in> set [Req_Key req]" by (simp add: names_of_def op_defs)
    obtain x e sv1 where r: "rateLimit (w_now w 0) ident ''decrypt'' sv = (x, e, sv1)" by (metis prod_cases3)
    from rl [OF r] g [OF k assms(4), of "''decrypt''" "Req_Reason req"] 2 assms(1) r show ?thesis
      by (cases x) (auto simp: dispatch_def op_defs do_decrypt_def audit_def code_defs)
  next
    case 3
    with assms(3) have k: "k \<in> set (Req_Keys req)" by (simp add: names_of_def)
    obtain x e sv1 where r: "rateLimit (w_now w 0) ident ''decryptMany'' sv = (x, e, sv1)" by (metis prod_cases3)
    from rl [OF r] g [OF k assms(4), of "''decryptMany''" "Req_Reason req"] 3 assms(1) r show ?thesis
      by (cases x) (auto simp: dispatch_def op_defs do_decryptMany_def audit_def code_defs)
  qed
qed

theorem denied_request_has_no_effect_witness:
  "\<exists>resp evs sv'. dispatch demo_aead (calm 0) ''al''
      (NoRequest\<lparr>Req_Op := ''decrypt'', Req_Key := ''zz'', Req_Packed := ''x''\<rparr>) demo_server = (resp, evs, sv') \<and>
    \<not> Resp_OK resp \<and> sv_store sv' = sv_store demo_server"
proof -
  let ?r = "NoRequest\<lparr>Req_Op := ''decrypt'', Req_Key := ''zz'', Req_Packed := ''x''\<rparr>"
  obtain resp evs sv' where d: "dispatch demo_aead (calm 0) ''al'' ?r demo_server = (resp, evs, sv')"
    by (metis prod_cases3)
  have "\<not> Resp_OK resp \<and> Resp_Code resp \<in> {''unauthorized'', ''rate-limit''} \<and>
    sv_store sv' = sv_store demo_server \<and> ev_kind (last evs) \<in> {''DENY'', ''RATELIMIT''}"
    by (rule denied_request_has_no_effect [OF d, where k = "''zz''"])
      (simp_all add: gated_def names_of_def op_defs NoRequest_def)
  with d show ?thesis by blast
qed

text \<open>C21: Over any history of requests, from any connections, the number of successful
  decrypt-class requests of an identity is at most its configured capacity plus the refill
  for the time the history spans.\<close>

theorem decrypt_rate_bound:
  assumes "1 \<le> Limit policy ident" and "tb.in_order t (limiter_calls hist) u"
  shows "of_nat (decrypts_ok ident hist (fst (serve_all G hist (NewServer store policy)))) \<le>
    (of_int (Limit policy ident) :: rat) + Seconds (u - t) * (of_int (Limit policy ident) / 60)"
proof -
  let ?sv = "NewServer store policy"
  have sv: "sv_policy ?sv = policy" "sv_limiter ?sv = newRateLimiter" by (simp_all add: NewServer_def)
  have c: "0 \<le> credit (Limit policy) t ident newRateLimiter"
    using assms(1) by (simp add: credit_def newRateLimiter_def)
  have "of_nat (fst (tb.grants (Limit policy) ident (limiter_calls hist) newRateLimiter)) \<le>
      (of_int (Limit policy ident) :: rat) + Seconds (u - t) * (of_int (Limit policy ident) / 60)"
    by (rule tb.grants_bound [of "Limit policy", OF assms(1,2) c])
  moreover have "decrypts_ok ident hist (fst (serve_all G hist ?sv)) \<le>
      fst (tb.grants (Limit policy) ident (limiter_calls hist) newRateLimiter)"
    using decrypts_ok_grants [of ident hist G ?sv] unfolding sv .
  ultimately show ?thesis using order_trans of_nat_mono by (metis (mono_tags, lifting))
qed

theorem decrypt_rate_bound_witness:
  "of_nat (decrypts_ok ''al'' (replicate 9 (calm 0, ''al'', NoRequest\<lparr>Req_Op := ''decryptMany''\<rparr>))
      (fst (serve_all demo_aead (replicate 9 (calm 0, ''al'', NoRequest\<lparr>Req_Op := ''decryptMany''\<rparr>))
        (NewServer NewStore demo_policy)))) \<le> (3 :: rat)"
proof -
  let ?h = "replicate 9 (calm 0, ''al'', NoRequest\<lparr>Req_Op := ''decryptMany''\<rparr>)"
  have "1 \<le> Limit demo_policy ''al''" by simp
  moreover have "tb.in_order 0 (limiter_calls ?h) 0"
    by (simp add: limiter_calls_def decrypt_class_def op_defs NoRequest_def eval_nat_numeral)
  ultimately have "of_nat (decrypts_ok ''al'' ?h (fst (serve_all demo_aead ?h (NewServer NewStore demo_policy)))) \<le>
      (of_int (Limit demo_policy ''al'') :: rat) + Seconds (0 - 0) * (of_int (Limit demo_policy ''al'') / 60)"
    by (rule decrypt_rate_bound)
  then show ?thesis by (simp add: Seconds_def)
qed

text \<open>A successful \<open>decryptMany\<close> answers position by position: as many plaintexts as keys
  were named, each the opening of its ciphertext under its own name with a key the store
  holds; the list of rewraps is empty, or has one slot per key, filled exactly where the
  ciphertext was not on the current version.\<close>

theorem decryptMany_positions:
  assumes "dispatch G w ident req sv = (resp, evs, sv')" and "Req_Op req = ''decryptMany''"
    and "Resp_OK resp" and "quiet w" and "n < length (Req_Keys req)"
  shows "length (Resp_PlaintextMany resp) = length (Req_Keys req) \<and>
    length (Req_PackedMany req) = length (Req_Keys req) \<and>
    cs.open_packed G (map_of (st_keys (sv_store sv))) (Req_PackedMany req ! n) (Req_Keys req ! n) =
      Some (Inr (Resp_PlaintextMany resp ! n)) \<and>
    (Resp_RewrappedPackedMany resp = [] \<longrightarrow>
       (\<exists>raw. ParseVersion (Req_PackedMany req ! n) = Inr (st_current (sv_store sv), raw))) \<and>
    (Resp_RewrappedPackedMany resp \<noteq> [] \<longrightarrow>
       length (Resp_RewrappedPackedMany resp) = length (Req_Keys req) \<and>
       (Resp_RewrappedPackedMany resp ! n = [] \<longleftrightarrow>
         (\<exists>raw. ParseVersion (Req_PackedMany req ! n) = Inr (st_current (sv_store sv), raw))))"
proof -
  have "do_decryptMany G w ident req sv = (resp, evs, sv')"
    using assms(1,2) by (simp add: dispatch_def op_defs)
  from this assms(3) obtain out where
    l: "decrypt_loop G w 0 (zip (Req_Keys req) (Req_PackedMany req)) (sv_store sv) = (Inr out, sv_store sv')"
    and len: "length (Req_Keys req) = length (Req_PackedMany req)"
    and pts: "Resp_PlaintextMany resp = map fst out"
    and rws: "Resp_RewrappedPackedMany resp = (if list_all (\<lambda>x. x = []) (map snd out) then [] else map snd out)"
    by (rule do_decryptMany_cases)
  have o: "list_all2 (opens_to G (sv_store sv)) (zip (Req_Keys req) (Req_PackedMany req)) out"
    by (rule decrypt_loop_opens [OF assms(4) l])
  then have lo: "length out = length (Req_Keys req)" by (auto dest: list_all2_lengthD simp: len)
  from list_all2_nthD [OF o, of n] assms(5) len
  have n: "opens_to G (sv_store sv) (Req_Keys req ! n, Req_PackedMany req ! n) (out ! n)" by simp
  have e: "snd (out ! n) = []" if "list_all (\<lambda>x. x = []) (map snd out)"
    using that assms(5) lo by (simp add: list_all_length)
  show ?thesis
    using n e len lo assms(5) by (auto simp: pts rws opens_to_def simp del: list.pred_map split: if_splits)
qed


lemma demo_packed:
  assumes "SealAAD demo_aead (Some (replicate 12 CHR ''n'')) demo_key p a = Inr c"
  shows "OpenAAD demo_aead demo_key c a = Inr p" "ParseVersion (PackVersion 1 c) = Inr (1, c)"
  using cs.seal_opens [OF demo_aead_ok assms] cs.pack_unpack [OF assms, of 1] by simp_all

theorem decryptMany_positions_witness:
  "\<exists>c resp evs sv'. dispatch demo_aead (calm 0) ''al''
      (NoRequest\<lparr>Req_Op := ''decryptMany'', Req_Keys := [''a''], Req_PackedMany := [c]\<rparr>) demo_server = (resp, evs, sv') \<and>
    Resp_OK resp \<and> length (Resp_PlaintextMany resp) = 1"
proof -
  obtain c where c: "SealAAD demo_aead (Some (replicate 12 CHR ''n'')) demo_key ''p'' ''a'' = Inr c"
    by (rule demo_seal)
  let ?r = "NoRequest\<lparr>Req_Op := ''decryptMany'', Req_Keys := [''a''], Req_PackedMany := [PackVersion 1 c]\<rparr>"
  obtain resp evs sv' where d: "dispatch demo_aead (calm 0) ''al'' ?r demo_server = (resp, evs, sv')"
    by (metis prod_cases3)
  then have ok: "Resp_OK resp"
    by (auto simp: dispatch_def op_defs do_decryptMany_def rateLimit_def allow_def guard_def Decrypt_def
        demo_packed [OF c] NoRequest_def Let_def split: prod.splits if_splits)
  from decryptMany_positions [OF d _ ok, of 0] have "length (Resp_PlaintextMany resp) = 1"
    by (simp add: NoRequest_def)
  with d ok show ?thesis by blast
qed

text \<open>End to end: what one authorized identity has encrypted for a key, any identity
  authorized for that key and within its rate gets back from a server that still holds the
  version it was sealed under; asked for under the name of another key, the same ciphertext
  is refused as \<open>decrypt-failed\<close>.\<close>

theorem encrypt_then_decrypt:
  assumes "aead_ok G" and "aead_binds G N" and "key \<in> N" and "key' \<in> N"
    and "dispatch G w a (req\<lparr>Req_Op := ''encrypt'', Req_Key := key, Req_Plaintext := p\<rparr>) sv = (r1, evs1, sv1)"
    and "Resp_OK r1" and "quiet w" and "w_rnd w 0 = Some iv" and "length iv = 12"
    and "1 \<le> st_current (sv_store sv)" and "st_current (sv_store sv) < 2 ^ 63"
    and "map_of (st_keys (sv_store sv2)) (st_current (sv_store sv)) =
          map_of (st_keys (sv_store sv)) (st_current (sv_store sv))"
    and "st_current (sv_store sv2) = st_current (sv_store sv)"
    and "Allowed (sv_policy sv2) b key'" and "quiet w'"
    and "fst (allow (Limit (sv_policy sv2)) (w_now w' 0) b (sv_limiter sv2))"
    and "dispatch G w' b (req'\<lparr>Req_Op := ''decrypt'', Req_Key := key', Req_Packed := Resp_Packed r1\<rparr>) sv2 = (r2, evs2, sv3)"
  shows "if key' = key then Resp_OK r2 \<and> Resp_Plaintext r2 = p
    else \<not> Resp_OK r2 \<and> Resp_Code r2 = ''decrypt-failed''"
proof -
  let ?s = "seen w 0 sv"
  have s: "st_keys ?s = st_keys (sv_store sv)" "st_current ?s = st_current (sv_store sv)"
    using quietD [OF assms(7)] by (simp_all add: seen_def)
  obtain packed where e: "fst (Encrypt G (Some iv) (w_now w 0) key p ?s) = Inr packed"
    and p: "Resp_Packed r1 = packed"
    using assms(5,6,8)
    by (auto simp: dispatch_def op_defs do_encrypt_def dest: guard_Some
        split: prod.splits option.splits sum.splits)
  obtain evs0 sv2' where rl: "rateLimit (w_now w' 0) b ''decrypt'' sv2 = (None, evs0, sv2')"
    using assms(16)
    by (cases "allow (Limit (sv_policy sv2)) (w_now w' 0) b (sv_limiter sv2)") (auto simp: rateLimit_def)
  have f: "sv_store sv2' = sv_store sv2" "sv_policy sv2' = sv_policy sv2"
    using rateLimit_fields [OF rl] by simp_all
  obtain evs' where g: "guard (sv_policy sv2') b [key'] ''decrypt'' (Req_Reason req') = (None, evs')"
    using guard_allowed [of "[key']" "sv_policy sv2'" b "''decrypt''" "Req_Reason req'"] assms(14)
    by (auto simp: f)
  let ?s' = "seen w' 0 sv2'"
  have s': "st_keys ?s' = st_keys (sv_store sv2)" "st_current ?s' = st_current (sv_store sv2)"
    using quietD [OF assms(15)] by (simp_all add: seen_def f)
  have r2: "(case fst (Decrypt G (w_rnd w' 0) (w_now w' 0) key' packed ?s') of
      Inl er \<Rightarrow> r2 = cryptoErr er
    | Inr (pt, rw, _) \<Rightarrow> Resp_OK r2 \<and> Resp_Plaintext r2 = pt)"
    using assms(17) rl g
    by (auto simp: dispatch_def op_defs do_decrypt_def p split: prod.splits sum.splits)
  from e obtain k raw where k: "map_of (st_keys ?s) (st_current ?s) = Some k"
    and raw: "SealAAD G (Some iv) k p key = Inr raw" "packed = PackVersion (st_current ?s) raw"
    by (rule Encrypt_cases)
  have k': "map_of (st_keys ?s') (st_current ?s) = Some k" using k assms(12) by (simp add: s s')
  have nz: "st_current ?s' \<noteq> 0" using assms(10,13) by (simp add: s')
  have v: "1 \<le> st_current ?s" "st_current ?s < 2 ^ 63" using assms(10,11) by (simp_all add: s)
  show ?thesis
  proof (cases "key' = key")
    case True
    from cs.open_packed_sealed [where K = "map_of (st_keys ?s')", OF assms(1) raw(1) assms(9) v k']
      cs.pack_unpack [OF raw(1) v] r2 True show ?thesis
      by (simp add: Decrypt_open_packed [OF nz] raw(2) assms(13) s s')
  next
    case False
    from cs.open_packed_other_name [where K = "map_of (st_keys ?s')" and b = key',
        OF assms(1,2) raw(1) assms(9) v k' assms(3,4)] r2 False
    show ?thesis by (simp add: Decrypt_open_packed [OF nz] raw(2) cryptoErr_def code_defs)
  qed
qed

theorem encrypt_then_decrypt_witness:
  "\<exists>c r evs sv'. dispatch demo_aead (calm 5) ''al''
      (NoRequest\<lparr>Req_Op := ''decrypt'', Req_Key := ''a'', Req_Packed := c\<rparr>) demo_server = (r, evs, sv') \<and>
    Resp_OK r \<and> Resp_Plaintext r = ''p''"
proof -
  let ?q = "NoRequest\<lparr>Req_Op := ''encrypt'', Req_Key := ''a'', Req_Plaintext := ''p''\<rparr>"
  obtain c where c: "SealAAD demo_aead (Some (replicate 12 CHR ''n'')) demo_key ''p'' ''a'' = Inr c"
    by (rule demo_seal)
  obtain r1 evs1 sv1 where d1: "dispatch demo_aead (calm 0) ''al'' ?q demo_server = (r1, evs1, sv1)"
    by (metis prod_cases3)
  then have ok: "Resp_OK r1"
    by (auto simp: dispatch_def op_defs do_encrypt_def guard_def Encrypt_def seen_def c NoRequest_def
        split: prod.splits)
  let ?r = "NoRequest\<lparr>Req_Op := ''decrypt'', Req_Key := ''a'', Req_Packed := Resp_Packed r1\<rparr>"
  obtain r2 evs2 sv2 where d2: "dispatch demo_aead (calm 5) ''al'' ?r demo_server = (r2, evs2, sv2)"
    by (metis prod_cases3)
  have "if ''a'' = ''a'' then Resp_OK r2 \<and> Resp_Plaintext r2 = ''p''
    else \<not> Resp_OK r2 \<and> Resp_Code r2 = ''decrypt-failed''"
    by (rule encrypt_then_decrypt [where iv = "replicate 12 CHR ''n''",
          OF demo_aead_ok demo_aead_binds _ _ d1 ok _ _ _ _ _ _ _ _ _ _ d2])
      (simp_all add: allow_def)
  with d2 show ?thesis by auto
qed

text \<open>The operator's reason is for the log only: two requests that differ in nothing but
  the reason get the same response and leave the same server.\<close>

theorem reason_is_not_authority:
  "(fst (dispatch G w ident (req\<lparr>Req_Reason := r\<rparr>) sv), snd (snd (dispatch G w ident (req\<lparr>Req_Reason := r\<rparr>) sv))) =
   (fst (dispatch G w ident (req\<lparr>Req_Reason := r'\<rparr>) sv), snd (snd (dispatch G w ident (req\<lparr>Req_Reason := r'\<rparr>) sv)))"
proof -
  have g: "\<exists>x e e'. guard p ident keys opn r = (x, e) \<and> guard p ident keys opn r' = (x, e')" for p keys opn
    using guard_reason [of p ident keys opn r r'] by (metis prod.collapse)
  let ?q = "req\<lparr>Req_Reason := r\<rparr>" and ?q' = "req\<lparr>Req_Reason := r'\<rparr>"
  have 1: "fst (do_encrypt G w ident ?q sv) = fst (do_encrypt G w ident ?q' sv) \<and>
      snd (snd (do_encrypt G w ident ?q sv)) = snd (snd (do_encrypt G w ident ?q' sv))"
    using g [of "sv_policy sv" "[Req_Key req]" "''encrypt''"]
    by (auto simp: do_encrypt_def split: option.splits sum.splits prod.splits)
  have 2: "fst (do_decrypt G w ident ?q sv) = fst (do_decrypt G w ident ?q' sv) \<and>
      snd (snd (do_decrypt G w ident ?q sv)) = snd (snd (do_decrypt G w ident ?q' sv))"
  proof -
    obtain x e sv1 where "rateLimit (w_now w 0) ident ''decrypt'' sv = (x, e, sv1)" by (metis prod_cases3)
    then show ?thesis using g [of "sv_policy sv1" "[Req_Key req]" "''decrypt''"]
      by (auto simp: do_decrypt_def split: option.splits sum.splits prod.splits)
  qed
  have 3: "fst (do_decryptMany G w ident ?q sv) = fst (do_decryptMany G w ident ?q' sv) \<and>
      snd (snd (do_decryptMany G w ident ?q sv)) = snd (snd (do_decryptMany G w ident ?q' sv))"
  proof -
    obtain x e sv1 where "rateLimit (w_now w 0) ident ''decryptMany'' sv = (x, e, sv1)" by (metis prod_cases3)
    then show ?thesis using g [of "sv_policy sv1" "Req_Keys req" "''decryptMany''"]
      by (auto simp: do_decryptMany_def Let_def split: option.splits sum.splits prod.splits)
  qed
  from 1 2 3 show ?thesis by (simp add: dispatch_def)
qed

end
