(* ===== verification/Client.thy ===== *)
theory Client
  imports Server
begin

text \<open>
  Alice's side of the wire (\<open>internal/client/client.go\<close>): one request per call, and the
  mapping of failure codes to typed errors. The network with TLS and JSON is the function
  \<open>net\<close> from the request sent to what came back.
\<close>

datatype client_error =
    Unreachable
  | Locked
  | Unauthorized
  | DecryptFailed
  | RateLimited
  | UnknownKeyVersion
  | Protocol
  | OtherError string

text \<open>The outcome of dialling, writing and reading one line: a failure, a line that is not a
  JSON response, or a response.\<close>

datatype net_result = NetFailed | NotAResponse | Reply Response

definition client_call :: "string \<Rightarrow> (Request \<Rightarrow> net_result) \<Rightarrow> Request \<Rightarrow> client_error + Response" where
  "client_call reason net req =
     (case net (req\<lparr>Req_Reason := reason\<rparr>) of
        NetFailed \<Rightarrow> Inl Unreachable
      | NotAResponse \<Rightarrow> Inl Protocol
      | Reply resp \<Rightarrow> Inr resp)"

definition mapErr :: "Response \<Rightarrow> client_error" where
  "mapErr resp =
     (if Resp_Code resp = CodeLocked then Locked
      else if Resp_Code resp = CodeUnauthorized then Unauthorized
      else if Resp_Code resp = CodeDecryptFailed then DecryptFailed
      else if Resp_Code resp = CodeRateLimit then RateLimited
      else if Resp_Code resp = CodeUnknownKeyVersion then UnknownKeyVersion
      else if Resp_Error resp \<noteq> [] then OtherError (Resp_Error resp)
      else Protocol)"

definition client_Encrypt ::
  "string \<Rightarrow> (Request \<Rightarrow> net_result) \<Rightarrow> string \<Rightarrow> string \<Rightarrow> client_error + string" where
  "client_Encrypt reason net key plaintext =
     (case client_call reason net
             (NoRequest\<lparr>Req_Op := OpEncryptName, Req_Key := key, Req_Plaintext := plaintext\<rparr>) of
        Inl e \<Rightarrow> Inl e
      | Inr resp \<Rightarrow> if \<not> Resp_OK resp then Inl (mapErr resp) else Inr (Resp_Packed resp))"

definition client_Decrypt ::
  "string \<Rightarrow> (Request \<Rightarrow> net_result) \<Rightarrow> string \<Rightarrow> string \<Rightarrow> client_error + (string \<times> string)" where
  "client_Decrypt reason net key packed =
     (case client_call reason net
             (NoRequest\<lparr>Req_Op := OpDecryptName, Req_Key := key, Req_Packed := packed\<rparr>) of
        Inl e \<Rightarrow> Inl e
      | Inr resp \<Rightarrow>
          if \<not> Resp_OK resp then Inl (mapErr resp)
          else Inr (Resp_Plaintext resp, Resp_RewrappedPacked resp))"

definition client_DecryptMany ::
  "string \<Rightarrow> (Request \<Rightarrow> net_result) \<Rightarrow> string list \<Rightarrow> string list \<Rightarrow>
     client_error + (string list \<times> string list)" where
  "client_DecryptMany reason net keys packed =
     (if packed = [] then Inr ([], [])
      else
        (case client_call reason net
                (NoRequest\<lparr>Req_Op := OpDecryptManyName, Req_Keys := keys, Req_PackedMany := packed\<rparr>) of
           Inl e \<Rightarrow> Inl e
         | Inr resp \<Rightarrow>
             if \<not> Resp_OK resp then Inl (mapErr resp)
             else Inr (Resp_PlaintextMany resp, Resp_RewrappedPackedMany resp)))"

definition client_Status :: "string \<Rightarrow> (Request \<Rightarrow> net_result) \<Rightarrow> client_error + (bool \<times> int)" where
  "client_Status reason net =
     (case client_call reason net (NoRequest\<lparr>Req_Op := OpStatusName\<rparr>) of
        Inl e \<Rightarrow> Inl e
      | Inr resp \<Rightarrow> Inr (Resp_Unlocked resp, Resp_TTLRemaining resp))"

section \<open>The client against the server\<close>

text \<open>A network that delivers: Alice's identity is the one of her client certificate.\<close>

definition net_to :: "aead \<Rightarrow> world \<Rightarrow> string \<Rightarrow> Server \<Rightarrow> Request \<Rightarrow> net_result" where
  "net_to G w ident sv req = Reply (fst (dispatch G w ident req sv))"

lemma cryptoErr_code:
  "mapErr (cryptoErr e) =
    (case e of ErrLocked \<Rightarrow> Locked | ErrUnknownVersion \<Rightarrow> UnknownKeyVersion | _ \<Rightarrow> DecryptFailed)"
  by (simp add: cryptoErr_def mapErr_def code_defs split: keystore_error.splits)

lemma mapErr_failure:
  "mapErr (failure CodeRateLimit e) = RateLimited"
  "mapErr (failure CodeUnauthorized e) = Unauthorized"
  by (simp_all add: mapErr_def code_defs)

text \<open>What \<open>Encrypt\<close> of the client reports, in terms of the key store behind the server.\<close>

lemma client_Encrypt_net:
  "client_Encrypt reason (net_to G w ident sv) key plaintext =
     (if \<not> Allowed (sv_policy sv) ident key then Inl Unauthorized
      else
        (case fst (Encrypt G (w_rnd w 0) (w_now w 0) key plaintext (w_other w 0 (sv_store sv))) of
           Inl ErrLocked \<Rightarrow> Inl Locked
         | Inl ErrUnknownVersion \<Rightarrow> Inl UnknownKeyVersion
         | Inl _ \<Rightarrow> Inl DecryptFailed
         | Inr packed \<Rightarrow> Inr packed))"
proof -
  let ?r = "NoRequest\<lparr>Req_Op := OpEncryptName, Req_Key := key, Req_Plaintext := plaintext, Req_Reason := reason\<rparr>"
  have c: "client_Encrypt reason (net_to G w ident sv) key plaintext =
      (let resp = fst (do_encrypt G w ident ?r sv) in
       if \<not> Resp_OK resp then Inl (mapErr resp) else Inr (Resp_Packed resp))"
    by (simp add: client_Encrypt_def client_call_def net_to_def dispatch_def op_defs Let_def)
  obtain y evs' where g: "guard (sv_policy sv) ident [key] ''encrypt'' reason = (y, evs')"
    by (metis surj_pair)
  show ?thesis
  proof (cases y)
    case (Some resp)
    with g guard_Some [of "sv_policy sv" ident "[key]" "''encrypt''" reason resp evs'] c
    show ?thesis by (auto simp: do_encrypt_def mapErr_failure)
  next
    case y: None
    with g guard_None [of "sv_policy sv" ident "[key]" "''encrypt''" reason evs']
    have "Allowed (sv_policy sv) ident key" by simp
    with c g y show ?thesis
      by (simp add: do_encrypt_def cryptoErr_code seen_def split: prod.splits sum.splits keystore_error.splits)
  qed
qed

text \<open>The verdict on a decryption.\<close>

lemma client_Decrypt_net:
  "client_Decrypt reason (net_to G w ident sv) key packed =
     (if \<not> fst (allow (Limit (sv_policy sv)) (w_now w 0) ident (sv_limiter sv)) then Inl RateLimited
      else if \<not> Allowed (sv_policy sv) ident key then Inl Unauthorized
      else
        (case fst (Decrypt G (w_rnd w 0) (w_now w 0) key packed (w_other w 0 (sv_store sv))) of
           Inl ErrLocked \<Rightarrow> Inl Locked
         | Inl ErrUnknownVersion \<Rightarrow> Inl UnknownKeyVersion
         | Inl _ \<Rightarrow> Inl DecryptFailed
         | Inr (pt, rewrapped, _) \<Rightarrow> Inr (pt, rewrapped)))"
proof -
  let ?r = "NoRequest\<lparr>Req_Op := OpDecryptName, Req_Key := key, Req_Packed := packed, Req_Reason := reason\<rparr>"
  have c: "client_Decrypt reason (net_to G w ident sv) key packed =
      (let resp = fst (do_decrypt G w ident ?r sv) in
       if \<not> Resp_OK resp then Inl (mapErr resp) else Inr (Resp_Plaintext resp, Resp_RewrappedPacked resp))"
    by (simp add: client_Decrypt_def client_call_def net_to_def dispatch_def op_defs Let_def)
  obtain x evs sv1 where rl: "rateLimit (w_now w 0) ident ''decrypt'' sv = (x, evs, sv1)"
    by (metis prod_cases3)
  note f = rateLimit_fields [OF rl]
  show ?thesis
  proof (cases x)
    case (Some resp)
    with f(4,5) c rl show ?thesis by (simp add: do_decrypt_def mapErr_failure)
  next
    case None
    obtain y evs' where g: "guard (sv_policy sv1) ident [key] ''decrypt'' reason = (y, evs')"
      by (metis surj_pair)
    show ?thesis
    proof (cases y)
      case (Some resp)
      with g guard_Some [of "sv_policy sv1" ident "[key]" "''decrypt''" reason resp evs'] f(2,4) c rl None
      show ?thesis by (auto simp: do_decrypt_def mapErr_failure)
    next
      case y: None
      with g guard_None [of "sv_policy sv1" ident "[key]" "''decrypt''" reason evs'] f(2)
      have "Allowed (sv_policy sv) ident key" by simp
      with f(1,4) c rl None g y show ?thesis
        by (simp add: do_decrypt_def cryptoErr_code seen_def split: prod.splits sum.splits keystore_error.splits)
    qed
  qed
qed

text \<open>Error fidelity across the wire: what \<open>Decrypt\<close> of the client reports is exactly what
  stopped the request in the server, in the order of the gates: the rate limit, then the
  authorization, then the key store's own verdict, a locked store and an unknown version
  each keeping their identity and every other failure being \<open>DecryptFailed\<close>.\<close>

theorem client_decrypt_verdict:
  "client_Decrypt reason (net_to G w ident sv) key packed =
     (if \<not> fst (allow (Limit (sv_policy sv)) (w_now w 0) ident (sv_limiter sv)) then Inl RateLimited
      else if \<not> Allowed (sv_policy sv) ident key then Inl Unauthorized
      else
        (case fst (Decrypt G (w_rnd w 0) (w_now w 0) key packed (w_other w 0 (sv_store sv))) of
           Inl ErrLocked \<Rightarrow> Inl Locked
         | Inl ErrUnknownVersion \<Rightarrow> Inl UnknownKeyVersion
         | Inl _ \<Rightarrow> Inl DecryptFailed
         | Inr (pt, rewrapped, _) \<Rightarrow> Inr (pt, rewrapped)))"
  by (rule client_Decrypt_net)

end
