(* ===== verification/Go_Os.thy ===== *)
theory Go_Os
  imports Prelude "HOL-Library.Word"
begin

text \<open>
  The parts of Go's standard library that stand between the program and the operating
  system: lexical paths and globs (\<open>path/filepath\<close>), the environment (\<open>os\<close>), command
  line flags (\<open>flag\<close>), and the lines read from a terminal (\<open>internal/term/term.go\<close>).
\<close>

section \<open>Package path/filepath\<close>

text \<open>\<open>Clean\<close>: the components are pushed on a stack, here in reverse.\<close>

fun clean_step :: "bool \<Rightarrow> string list \<Rightarrow> string \<Rightarrow> string list" where
  "clean_step rooted st c =
     (if c = '''' \<or> c = ''.'' then st
      else if c = ''..'' then
        (case st of
           [] \<Rightarrow> if rooted then [] else [''..'']
         | t # st' \<Rightarrow> if t = ''..'' then ''..'' # st else st')
      else c # st)"

definition Clean :: "string \<Rightarrow> string" where
  "Clean path =
     (if path = '''' then ''.''
      else
        (let rooted = (hd path = CHR ''/'');
             out = Join (rev (foldl (clean_step rooted) [] (Split path CHR ''/''))) ''/''
         in if rooted then CHR ''/'' # out else if out = '''' then ''.'' else out))"

definition FilepathJoin :: "string list \<Rightarrow> string" where
  "FilepathJoin elems =
     (case dropWhile (\<lambda>e. e = '''') elems of
        [] \<Rightarrow> '''' | es \<Rightarrow> Clean (Join es ''/''))"

text \<open>A file name joined to a directory is the name after a prefix that depends on the
  directory alone.\<close>

definition file_name :: "string \<Rightarrow> bool" where
  "file_name n \<longleftrightarrow> n \<noteq> '''' \<and> CHR ''/'' \<notin> set n \<and> n \<noteq> ''.'' \<and> n \<noteq> ''..''"

lemma Split_append: "Split (a @ c # b) c = Split a c @ Split b c"
  by (induction a) (auto split: list.splits)

lemma Join_snoc: "xs \<noteq> [] \<Longrightarrow> Join (xs @ [y]) sep = Join xs sep @ sep @ y"
  by (induction xs rule: induct_list012) auto

definition dir_prefix :: "string \<Rightarrow> string" where
  "dir_prefix dir =
     (if dir = '''' then ''''
      else
        (let rooted = (hd dir = CHR ''/'');
             cs = rev (foldl (clean_step rooted) [] (Split dir CHR ''/''))
         in (if rooted then ''/'' else '''') @ (if cs = [] then '''' else Join cs ''/'' @ ''/'')))"

lemma FilepathJoin_name: "file_name n \<Longrightarrow> FilepathJoin [dir, n] = dir_prefix dir @ n"
proof (cases "dir = ''''")
  case True
  assume n: "file_name n"
  then have "hd n \<noteq> CHR ''/''" by (cases n) (auto simp: file_name_def)
  with True n show ?thesis
    by (simp add: FilepathJoin_def Clean_def dir_prefix_def Split_id file_name_def)
next
  case False
  assume n: "file_name n"
  with False show ?thesis
    by (simp add: FilepathJoin_def Clean_def dir_prefix_def Let_def Split_append Split_id Join_snoc file_name_def)
qed

definition IsAbs :: "string \<Rightarrow> bool" where
  "IsAbs path = HasPrefix path ''/''"

text \<open>\<open>Match\<close>, by backtracking. One rune of the name is \<open>uncons_rune\<close>; a class is parsed
  into its ranges and its rest; a malformed pattern matches nothing.\<close>

definition uncons_rune :: "string \<Rightarrow> (nat \<times> string) option" where
  "uncons_rune s =
     (if s = [] then None
      else (case rune_of (map of_char s) of (r, n) \<Rightarrow> Some (r, drop (max 1 n) s)))"

lemma uncons_rune_shorter: "uncons_rune s = Some (r, t) \<Longrightarrow> length t < length s"
  by (auto simp: uncons_rune_def split: if_splits prod.splits)

text \<open>A bound of a range: an escaped rune, or any rune but \<open>-\<close> and \<open>]\<close>; never the last
  thing of the pattern.\<close>

definition class_rune :: "string \<Rightarrow> (nat \<times> string) option" where
  "class_rune p =
     (if p = [] \<or> hd p = CHR ''-'' \<or> hd p = CHR '']'' then None
      else
        (let q = (if hd p = BSL then tl p else p) in
         case uncons_rune q of None \<Rightarrow> None | Some (r, t) \<Rightarrow> if t = [] then None else Some (r, t)))"

lemma class_rune_shorter: "class_rune p = Some (r, t) \<Longrightarrow> length t < length p"
  by (cases p) (auto simp: class_rune_def Let_def split: if_splits option.splits dest!: uncons_rune_shorter)

function class_ranges :: "bool \<Rightarrow> string \<Rightarrow> ((nat \<times> nat) list \<times> string) option" where
  "class_ranges started p =
     (if p \<noteq> [] \<and> hd p = CHR '']'' \<and> started then Some ([], tl p)
      else
        (case class_rune p of
           None \<Rightarrow> None
         | Some (lo, q) \<Rightarrow>
             (case (if hd q = CHR ''-'' then class_rune (tl q) else Some (lo, q)) of
                None \<Rightarrow> None
              | Some (hi, q') \<Rightarrow>
                  if length q' < length p
                  then map_option (\<lambda>(rs, rest). ((lo, hi) # rs, rest)) (class_ranges True q')
                  else None)))"
  by pat_completeness auto
termination
  by (relation "measure (\<lambda>(b, p). length p)") auto

declare class_ranges.simps [simp del]

lemma class_ranges_shorter: "class_ranges b p = Some (rs, t) \<Longrightarrow> length t < length p"
proof (induction b p arbitrary: rs t rule: class_ranges.induct)
  case (1 b p)
  show ?case
  proof (cases "p \<noteq> [] \<and> hd p = CHR '']'' \<and> b")
    case True
    then have "class_ranges b p = Some ([], tl p)" by (subst class_ranges.simps) simp
    with "1.prems" True show ?thesis by (cases p) auto
  next
    case False
    with "1.prems" obtain lo q hi q' rs' where s: "class_rune p = Some (lo, q)"
      "(if hd q = CHR ''-'' then class_rune (tl q) else Some (lo, q)) = Some (hi, q')"
      "length q' < length p" "class_ranges True q' = Some (rs', t)"
      by (auto simp: class_ranges.simps [of b p] split: option.splits if_splits)
    from "1.IH" [OF _ s(1) refl s(2) refl s(3) s(4)] False s(3) show ?thesis by fastforce
  qed
qed

function Match :: "string \<Rightarrow> string \<Rightarrow> bool" where
  "Match p s =
     (if p = [] then s = []
      else if hd p = CHR ''*'' then
        Match (tl p) s \<or> (if s = [] \<or> hd s = CHR ''/'' then False else Match p (tl s))
      else if hd p = CHR ''?'' then
        (case uncons_rune s of None \<Rightarrow> False
         | Some (r, t) \<Rightarrow> hd s \<noteq> CHR ''/'' \<and> Match (tl p) t)
      else if hd p = CHR ''['' then
        (case uncons_rune s of None \<Rightarrow> False
         | Some (r, t) \<Rightarrow>
             (let neg = (tl p \<noteq> [] \<and> hd (tl p) = CHR ''^'');
                  q = (if neg then tl (tl p) else tl p)
              in case class_ranges False q of None \<Rightarrow> False
                 | Some (rs, rest) \<Rightarrow>
                     (if length rest < length p
                      then list_ex (\<lambda>(lo, hi). lo \<le> r \<and> r \<le> hi) rs \<noteq> neg \<and> Match rest t
                      else False)))
      else if hd p = BSL then
        (if tl p = [] \<or> s = [] \<or> hd s \<noteq> hd (tl p) then False else Match (tl (tl p)) (tl s))
      else if s = [] \<or> hd s \<noteq> hd p then False else Match (tl p) (tl s))"
  by pat_completeness auto
termination
  by (relation "measure (\<lambda>(p, s). length p + length s)") (auto dest: uncons_rune_shorter simp: neq_Nil_conv)

declare Match.simps [simp del]

lemma Match_literal: "list_all (\<lambda>c. c \<notin> set ''*?['' \<and> c \<noteq> BSL) p \<Longrightarrow> Match p s \<longleftrightarrow> s = p"
proof (induction p arbitrary: s)
  case Nil
  show ?case by (simp add: Match.simps [of "[]"])
next
  case (Cons c p)
  then show ?case by (cases s) (simp_all add: Match.simps [of "c # p"])
qed

section \<open>Package os\<close>

text \<open>A path as \<open>os.Open\<close> and reading it give it, and a disk.\<close>

datatype file_bytes = Missing | Unopenable | Content bytes

type_synonym disk = "string \<Rightarrow> file_bytes"

text \<open>\<open>Getenv\<close> over the entries of \<open>os.Environ\<close>: the first entry of that name.\<close>

definition Getenv :: "string list \<Rightarrow> string \<Rightarrow> string" where
  "Getenv environ name =
     (case filter (\<lambda>kv. name \<noteq> [] \<and> HasPrefix kv (name @ ''='')) environ of
        [] \<Rightarrow> '''' | kv # _ \<Rightarrow> drop (Suc (length name)) kv)"

section \<open>Lower case\<close>

text \<open>\<open>strings.ToLower\<close>, whose results the program only compares with ASCII words: besides
  the ASCII letters, the two runes outside ASCII whose lower case is an ASCII letter.\<close>

definition lower_byte :: "char \<Rightarrow> char" where
  "lower_byte c = (if is_upper c then char_of ((of_char c :: nat) + 32) else c)"

fun ToLower :: "string \<Rightarrow> string" where
  "ToLower (a # b # c # s) =
     (if [a, b, c] = [CHR 0xE2, CHR 0x84, CHR 0xAA] then CHR ''k'' # ToLower s
      else if [a, b] = [CHR 0xC4, CHR 0xB0] then CHR ''i'' # ToLower (c # s)
      else lower_byte a # ToLower (b # c # s))"
| "ToLower [a, b] =
     (if [a, b] = [CHR 0xC4, CHR 0xB0] then ''i'' else [lower_byte a, lower_byte b])"
| "ToLower [a] = [lower_byte a]"
| "ToLower [] = []"

section \<open>Package flag\<close>

datatype flag_kind = BoolFlag | IntFlag | UintFlag | StringFlag

text \<open>A flag set: the kinds of its flags. With \<open>ExitOnError\<close> a bad flag ends the process
  with status 2 and a help flag with status 0.\<close>

type_synonym flag_set = "(string \<times> flag_kind) list"

datatype parse_step =
    NoMore "string list"
  | Setting string string "string list"
  | FlagExit nat

definition parse_bool :: "string \<Rightarrow> bool option" where
  "parse_bool s =
     (if s \<in> set [''1'', ''t'', ''T'', ''TRUE'', ''true'', ''True''] then Some True
      else if s \<in> set [''0'', ''f'', ''F'', ''FALSE'', ''false'', ''False''] then Some False
      else None)"

text \<open>\<open>strconv.ParseInt(s, 0, 64)\<close>: a sign, then decimal digits or a base prefix.\<close>

definition digit_of :: "char \<Rightarrow> nat" where
  "digit_of c =
     (if is_digit c then digit_val c
      else if is_lower c then of_char c - 87
      else if is_upper c then of_char c - 55
      else 36)"

definition base_val :: "nat \<Rightarrow> string \<Rightarrow> nat" where
  "base_val b ds = foldl (\<lambda>a c. b * a + digit_of c) 0 ds"

text \<open>An underscore may stand only between digits, or between the base prefix and a digit.\<close>

fun underscores_ok :: "bool \<Rightarrow> string \<Rightarrow> bool" where
  "underscores_ok before [] = True"
| "underscores_ok before (c # s) =
     (if c = CHR ''_'' then before \<and> s \<noteq> [] \<and> hd s \<noteq> CHR ''_'' \<and> underscores_ok False s
      else underscores_ok True s)"

definition parse_base0 :: "string \<Rightarrow> nat option" where
  "parse_base0 t =
     (let l = map lower_byte t;
          (b, ds, prefixed) =
            (if HasPrefix l ''0x'' \<and> 2 < length l then (16, drop 2 t, True)
             else if HasPrefix l ''0b'' \<and> 2 < length l then (2, drop 2 t, True)
             else if HasPrefix l ''0o'' \<and> 2 < length l then (8, drop 2 t, True)
             else if HasPrefix l ''0'' \<and> 1 < length l then (8, drop 1 t, True)
             else (10, t, False));
          clean = filter (\<lambda>c. c \<noteq> CHR ''_'') ds
      in if clean = [] \<or> \<not> list_all (\<lambda>c. digit_of c < b) clean
            \<or> (CHR ''_'' \<in> set ds \<and> \<not> underscores_ok prefixed ds) then None
         else Some (base_val b clean))"

definition parse_int0 :: "string \<Rightarrow> int option" where
  "parse_int0 s =
     (let neg = HasPrefix s ''-'' in
      case parse_base0 (if neg \<or> HasPrefix s ''+'' then tl s else s) of
        None \<Rightarrow> None
      | Some v \<Rightarrow>
          if neg then (if int v \<le> 2 ^ 63 then Some (- int v) else None)
          else if int v < 2 ^ 63 then Some (int v) else None)"

text \<open>\<open>strconv.ParseUint(s, 0, 64)\<close> takes no sign.\<close>

definition parse_uint0 :: "string \<Rightarrow> 64 word option" where
  "parse_uint0 s =
     (case parse_base0 s of None \<Rightarrow> None | Some v \<Rightarrow> if v < 2 ^ 64 then Some (of_nat v) else None)"

definition value_ok :: "flag_kind \<Rightarrow> string \<Rightarrow> bool" where
  "value_ok k v =
     (case k of BoolFlag \<Rightarrow> parse_bool v \<noteq> None
      | IntFlag \<Rightarrow> parse_int0 v \<noteq> None
      | UintFlag \<Rightarrow> parse_uint0 v \<noteq> None
      | StringFlag \<Rightarrow> True)"

text \<open>\<open>parseOne\<close>: the flag at the head of the arguments, with its value.\<close>

definition flag_value :: "flag_kind \<Rightarrow> string \<Rightarrow> string option \<Rightarrow> string list \<Rightarrow> parse_step" where
  "flag_value k key given rest =
     (case given of
        Some v \<Rightarrow> if value_ok k v then Setting key v rest else FlagExit 2
      | None \<Rightarrow>
          if k = BoolFlag then Setting key ''true'' rest
          else (case rest of [] \<Rightarrow> FlagExit 2
                | v # rest' \<Rightarrow> if value_ok k v then Setting key v rest' else FlagExit 2))"

definition flag_named :: "flag_set \<Rightarrow> string \<Rightarrow> string list \<Rightarrow> parse_step" where
  "flag_named fs nam rest =
     (let eq = IndexByte nam CHR ''='';
          key = (case eq of None \<Rightarrow> nam | Some i \<Rightarrow> take i nam)
      in case map_of fs key of
           None \<Rightarrow> FlagExit (if key = ''help'' \<or> key = ''h'' then 0 else 2)
         | Some k \<Rightarrow> flag_value k key (map_option (\<lambda>i. drop (Suc i) nam) eq) rest)"

definition parseOne :: "flag_set \<Rightarrow> string list \<Rightarrow> parse_step" where
  "parseOne fs args =
     (case args of
        [] \<Rightarrow> NoMore []
      | s # rest \<Rightarrow>
          if length s < 2 \<or> hd s \<noteq> CHR ''-'' then NoMore args
          else if s = ''--'' then NoMore rest
          else
            (let nam = (if s ! 1 = CHR ''-'' then drop 2 s else drop 1 s) in
             if hd nam = CHR ''-'' \<or> hd nam = CHR ''='' then FlagExit 2
             else flag_named fs nam rest))"

lemma value_ok_true [simp]: "value_ok BoolFlag ''true''"
  by (simp add: value_ok_def parse_bool_def)

lemma flag_value_Setting:
  "flag_value k key g rest = Setting n v r \<Longrightarrow> n = key \<and> value_ok k v \<and> length r \<le> length rest"
  by (auto simp: flag_value_def split: list.splits if_splits option.splits)

lemma flag_value_NoMore [simp]: "flag_value k key g rest \<noteq> NoMore r"
  by (auto simp: flag_value_def split: list.splits option.splits)

lemma flag_named_Setting:
  "flag_named fs nam rest = Setting n v r \<Longrightarrow> (\<exists>k. map_of fs n = Some k \<and> value_ok k v) \<and> length r \<le> length rest"
  unfolding flag_named_def Let_def by (auto split: option.splits dest!: flag_value_Setting)

lemma flag_named_NoMore [simp]: "flag_named fs nam rest \<noteq> NoMore r"
  by (auto simp: flag_named_def Let_def split: option.splits)

lemma parseOne_Setting:
  assumes "parseOne fs args = Setting n v rest"
  shows "(\<exists>k. map_of fs n = Some k \<and> value_ok k v) \<and> length rest < length args"
proof -
  from assms obtain s rest' where a: "args = s # rest'"
    unfolding parseOne_def by (cases args) simp_all
  let ?nam = "if s ! 1 = CHR ''-'' then drop 2 s else drop 1 s"
  from assms have "flag_named fs ?nam rest' = Setting n v rest"
    unfolding parseOne_def a list.case Let_def
    by (cases "length s < 2 \<or> hd s \<noteq> CHR ''-''"; cases "s = ''--''";
        cases "hd ?nam = CHR ''-'' \<or> hd ?nam = CHR ''=''") (simp_all only: if_True if_False parse_step.distinct simp_thms)
  with a flag_named_Setting [of fs ?nam rest' n v rest] show ?thesis by auto
qed

lemmas parseOne_rest = parseOne_Setting [THEN conjunct2]
lemmas parseOne_flag = parseOne_Setting [THEN conjunct1]

lemma parseOne_stop: "parseOne fs args = NoMore rest \<Longrightarrow> length rest \<le> length args"
proof (cases args)
  case (Cons s rest')
  let ?nam = "if s ! 1 = CHR ''-'' then drop 2 s else drop 1 s"
  assume "parseOne fs args = NoMore rest"
  then have "rest = s # rest' \<or> rest = rest'"
    unfolding parseOne_def Cons list.case Let_def
    by (cases "length s < 2 \<or> hd s \<noteq> CHR ''-''"; cases "s = ''--''";
        cases "hd ?nam = CHR ''-'' \<or> hd ?nam = CHR ''=''")
      (simp_all only: if_True if_False parse_step.distinct parse_step.inject flag_named_NoMore simp_thms)
  with Cons show ?thesis by auto
qed (simp add: parseOne_def)

text \<open>\<open>fs.Parse\<close>: the settings in their order and the arguments left, or the exit status.\<close>

type_synonym settings = "(string \<times> string) list"

function FlagParse :: "flag_set \<Rightarrow> string list \<Rightarrow> nat + (settings \<times> string list)" where
  "FlagParse fs args =
     (case parseOne fs args of
        FlagExit n \<Rightarrow> Inl n
      | NoMore rest \<Rightarrow> Inr ([], rest)
      | Setting n v rest \<Rightarrow>
          map_sum id (\<lambda>(ss, left). ((n, v) # ss, left)) (FlagParse fs rest))"
  by pat_completeness auto
termination
  by (relation "measure (\<lambda>(fs, args). length args)") (auto dest: parseOne_rest)

declare FlagParse.simps [simp del]

lemma FlagParse_rest: "FlagParse fs args = Inr (ss, rest) \<Longrightarrow> length rest \<le> length args"
proof (induction fs args arbitrary: ss rule: FlagParse.induct)
  case (1 fs args)
  show ?case
  proof (cases "parseOne fs args")
    case (Setting n v r)
    with "1.prems" obtain ss' where "FlagParse fs r = Inr (ss', rest)"
      by (cases "FlagParse fs r") (auto simp: FlagParse.simps [of fs args])
    with "1.IH" [OF Setting] parseOne_rest [OF Setting] show ?thesis by fastforce
  qed (use "1.prems" parseOne_stop in \<open>auto simp: FlagParse.simps [of fs args]\<close>)
qed

lemma FlagParse_settings: "FlagParse fs args = Inr (ss, rest) \<Longrightarrow> (n, v) \<in> set ss \<Longrightarrow>
    \<exists>k. map_of fs n = Some k \<and> value_ok k v"
proof (induction fs args arbitrary: ss rule: FlagParse.induct)
  case (1 fs args)
  show ?case
  proof (cases "parseOne fs args")
    case (Setting m w r)
    with "1.prems"(1) obtain ss' where p: "FlagParse fs r = Inr (ss', rest)" and ss: "ss = (m, w) # ss'"
      by (cases "FlagParse fs r") (auto simp: FlagParse.simps [of fs args])
    from "1.prems"(2) ss "1.IH" [OF Setting p] parseOne_flag [OF Setting] show ?thesis by auto
  qed (use "1.prems" in \<open>auto simp: FlagParse.simps [of fs args]\<close>)
qed

text \<open>\<open>parse\<close> of \<open>cmd/alice/main.go\<close> and \<open>cmd/bob/helpers.go\<close>: flags and positional arguments in any order; the first bad flag ends the
  process.\<close>

function parse_args :: "flag_set \<Rightarrow> string list \<Rightarrow> nat + (settings \<times> string list)" where
  "parse_args fs args =
     (case FlagParse fs args of
        Inl n \<Rightarrow> Inl n
      | Inr (ss, []) \<Rightarrow> Inr (ss, [])
      | Inr (ss, p # rest) \<Rightarrow> map_sum id (\<lambda>(ss', ps). (ss @ ss', p # ps)) (parse_args fs rest))"
  by pat_completeness auto
termination
  by (relation "measure (\<lambda>(fs, args). length args)") (auto dest!: FlagParse_rest)

declare parse_args.simps [simp del]

text \<open>Reading a flag: its last setting, or its default.\<close>

definition str_flag :: "settings \<Rightarrow> string \<Rightarrow> string \<Rightarrow> string" where
  "str_flag ss n d = (case map_of (rev ss) n of None \<Rightarrow> d | Some v \<Rightarrow> v)"

definition bool_flag :: "settings \<Rightarrow> string \<Rightarrow> bool" where
  "bool_flag ss n = (case map_of (rev ss) n of None \<Rightarrow> False | Some v \<Rightarrow> parse_bool v = Some True)"

text \<open>An integer bound to several names: the last setting of any of them.\<close>

definition int_flag :: "settings \<Rightarrow> string list \<Rightarrow> int \<Rightarrow> int" where
  "int_flag ss ns d =
     (case filter (\<lambda>(n, v). n \<in> set ns) (rev ss) of
        [] \<Rightarrow> d | (n, v) # _ \<Rightarrow> (case parse_int0 v of None \<Rightarrow> d | Some i \<Rightarrow> i))"

definition uint_flag :: "settings \<Rightarrow> string \<Rightarrow> 64 word \<Rightarrow> 64 word" where
  "uint_flag ss n d =
     (case filter (\<lambda>(m, v). m = n) (rev ss) of
        [] \<Rightarrow> d | (m, v) # _ \<Rightarrow> (case parse_uint0 v of None \<Rightarrow> d | Some i \<Rightarrow> i))"

definition isSet :: "settings \<Rightarrow> string \<Rightarrow> bool" where
  "isSet ss n \<longleftrightarrow> n \<in> fst ` set ss"

section \<open>Lines from the terminal\<close>

text \<open>\<open>readLine\<close>: the bytes up to the line feed, whether the input ended first, and the input
  that is left.\<close>

definition readLine :: "string \<Rightarrow> string \<times> bool \<times> string" where
  "readLine inp =
     (case IndexByte inp LF of
        None \<Rightarrow> (inp, True, [])
      | Some i \<Rightarrow> (take i inp, False, drop (Suc i) inp))"

text \<open>\<open>Confirm\<close> gives \<open>None\<close> at the end of the input.\<close>

definition Confirm :: "bool \<Rightarrow> string \<Rightarrow> bool option \<times> string" where
  "Confirm defaultYes inp =
     (case readLine inp of
        (line, eof, rest) \<Rightarrow>
          (let a = ToLower (TrimSpace line) in
           (if eof \<and> line = [] then None
            else if a = [] then Some defaultYes
            else Some (a = ''y'' \<or> a = ''yes''), rest)))"

definition ReadLine :: "string \<Rightarrow> string option \<times> string" where
  "ReadLine inp =
     (case readLine inp of
        (line, eof, rest) \<Rightarrow>
          (if eof \<and> line = [] then None else Some (TrimRight line [CR, LF]), rest))"

text \<open>\<open>ReadPassword\<close> answers from the operator, in order; a failed read is \<open>None\<close>.\<close>

definition ReadPassword :: "string option list \<Rightarrow> string option \<times> string option list" where
  "ReadPassword ps = (case ps of [] \<Rightarrow> (None, []) | p # ps' \<Rightarrow> (p, ps'))"

definition ReadNewPassword :: "string option list \<Rightarrow> string option \<times> string option list" where
  "ReadNewPassword ps =
     (case ReadPassword ps of
        (None, ps1) \<Rightarrow> (None, ps1)
      | (Some p1, ps1) \<Rightarrow>
          if p1 = [] then (None, ps1)
          else
            (case ReadPassword ps1 of
               (None, ps2) \<Rightarrow> (None, ps2)
             | (Some p2, ps2) \<Rightarrow> if p1 \<noteq> p2 then (None, ps2) else (Some p1, ps2)))"

section \<open>Environment entries\<close>

lemma name_prefix_iff:
  assumes "CHR ''='' \<notin> set n"
  shows "prefix (n @ ''='') kv \<longleftrightarrow> IndexByte kv CHR ''='' = Some (length n) \<and> take (length n) kv = n"
proof
  assume "prefix (n @ ''='') kv"
  then obtain t where "kv = n @ CHR ''='' # t" by (auto simp: prefix_def)
  with assms show "IndexByte kv CHR ''='' = Some (length n) \<and> take (length n) kv = n"
    by (simp add: IndexByte_append)
next
  assume r: "IndexByte kv CHR ''='' = Some (length n) \<and> take (length n) kv = n"
  then have "length n < length kv \<and> kv ! length n = CHR ''=''" by (auto dest: IndexByte_Some)
  then have "kv = take (length n) kv @ CHR ''='' # drop (Suc (length n)) kv" by (metis id_take_nth_drop)
  with r show "prefix (n @ ''='') kv" by (metis append.assoc append_Cons append_Nil prefixI)
qed

definition binds :: "string \<Rightarrow> string \<Rightarrow> bool" where
  "binds n kv \<longleftrightarrow> n \<noteq> [] \<and> prefix (n @ ''='') kv"

lemma Getenv_binds:
  "Getenv env n = (case find (binds n) env of None \<Rightarrow> '''' | Some kv \<Rightarrow> drop (Suc (length n)) kv)"
proof -
  have "find P xs = (case filter P xs of [] \<Rightarrow> None | x # _ \<Rightarrow> Some x)" for P :: "string \<Rightarrow> bool" and xs
    by (induction xs) auto
  moreover have "binds n = (\<lambda>kv. n \<noteq> [] \<and> HasPrefix kv (n @ ''=''))"
    by (rule ext) (simp add: binds_def HasPrefix_def)
  ultimately show ?thesis by (simp add: Getenv_def split: list.splits)
qed

lemma find_append: "find P (xs @ ys) = (case find P xs of None \<Rightarrow> find P ys | Some x \<Rightarrow> Some x)"
  by (induction xs) auto

lemma find_filter: "(\<And>x. x \<in> set xs \<Longrightarrow> P x \<Longrightarrow> Q x) \<Longrightarrow> find P (filter Q xs) = find P xs"
  by (induction xs) auto

text \<open>The environment that package \<open>os/exec\<close> gives a child: of the entries with the same name
  the last, in order; an entry that is not of the form \<open>name=value\<close> is kept as it is.\<close>

definition entry_name :: "string \<Rightarrow> string option" where
  "entry_name kv =
     (case IndexByte kv CHR ''='' of
        None \<Rightarrow> None
      | Some i \<Rightarrow>
          (if i = 0 then
             (case IndexByte (drop 1 kv) CHR ''='' of None \<Rightarrow> Some '''' | Some j \<Rightarrow> Some (take (Suc j) kv))
           else Some (take i kv)))"

fun dedup_env :: "string list \<Rightarrow> string list \<Rightarrow> string list" where
  "dedup_env saw [] = []"
| "dedup_env saw (kv # kvs) =
     (case entry_name kv of
        None \<Rightarrow> if kv = '''' then dedup_env saw kvs else kv # dedup_env saw kvs
      | Some k \<Rightarrow> if k \<in> set saw then dedup_env saw kvs else kv # dedup_env (k # saw) kvs)"

definition dedupEnv :: "string list \<Rightarrow> string list" where
  "dedupEnv environ = rev (dedup_env [] (rev environ))"

lemma entry_name_binds: "binds n kv \<Longrightarrow> CHR ''='' \<notin> set n \<Longrightarrow> entry_name kv = Some n"
  by (auto simp: binds_def name_prefix_iff entry_name_def)

lemma dedup_env_saw: "n \<in> set saw \<Longrightarrow> CHR ''='' \<notin> set n \<Longrightarrow> kv \<in> set (dedup_env saw kvs) \<Longrightarrow> \<not> binds n kv"
  by (induction saw kvs rule: dedup_env.induct) (auto split: option.splits if_splits dest: entry_name_binds)

lemma dedup_env_subset: "set (dedup_env saw kvs) \<subseteq> set kvs"
  by (induction saw kvs rule: dedup_env.induct) (auto split: option.splits if_splits)

text \<open>The last entry wins, and a name without an entry stays without one.\<close>

lemma Getenv_dedupEnv_last:
  assumes "CHR ''='' \<notin> set n" and "n \<noteq> []"
  shows "Getenv (dedupEnv (environ @ [n @ ''='' @ v])) n = v"
proof -
  let ?kv = "n @ ''='' @ v"
  have b: "binds n ?kv" using assms(2) by (simp add: binds_def)
  with assms(1) have "dedupEnv (environ @ [?kv]) = rev (dedup_env [n] (rev environ)) @ [?kv]"
    by (simp add: dedupEnv_def entry_name_binds)
  moreover have "find (binds n) (rev (dedup_env [n] (rev environ))) = None"
    using assms(1) by (auto simp: find_None_iff dest: dedup_env_saw [rotated 2])
  ultimately show ?thesis using b by (simp add: Getenv_binds find_append)
qed

lemma Getenv_dedupEnv_none: "find (binds n) environ = None \<Longrightarrow> Getenv (dedupEnv environ) n = ''''"
proof -
  assume "find (binds n) environ = None"
  then have "find (binds n) (dedupEnv environ) = None"
    using dedup_env_subset [of "[]" "rev environ"] by (auto simp: find_None_iff dedupEnv_def)
  then show ?thesis by (simp add: Getenv_binds)
qed

end
