(* ===== verification/Atomic_File.thy ===== *)
theory Atomic_File
  imports Go_Os
begin

text \<open>
  The contract of a file that is written under a temporary name and renamed into place. Both
  programs have such a writer (\<open>writeAtomic\<close> of \<open>internal/localvault/localvault.go\<close> and \<open>writeFile\<close>
  of \<open>cmd/bob/main.go\<close>), which differ in the system calls that can fail and in what a failure
  cleans up; each is an instance of the locale, in the theory that models it.
\<close>

section \<open>The contract\<close>

text \<open>
  A writer goes through a list of disks, of which a crash may leave any. The laws: it starts at the
  disk given; the target is at every moment the old file or the complete new one; the verdict says
  which of them it is in the end; nothing else is touched but the temporary file.
\<close>

locale atomic_file =
  fixes wr :: "'f \<Rightarrow> string \<Rightarrow> bytes \<Rightarrow> disk \<Rightarrow> bool \<times> disk list"
  assumes starts: "wr f path dat d = (ok, ds) \<Longrightarrow> ds \<noteq> [] \<and> hd ds = d"
    and target: "wr f path dat d = (ok, ds) \<Longrightarrow> d' \<in> set ds \<Longrightarrow> d' path = d path \<or> d' path = Content dat"
    and verdict: "wr f path dat d = (ok, ds) \<Longrightarrow> last ds path = (if ok then Content dat else d path)"
    and frame: "wr f path dat d = (ok, ds) \<Longrightarrow> d' \<in> set ds \<Longrightarrow> p \<noteq> path \<Longrightarrow> p \<noteq> path @ ''.tmp'' \<Longrightarrow> d' p = d p"
begin

lemma last_in: "wr f path dat d = (ok, ds) \<Longrightarrow> last ds \<in> set ds"
  using starts by simp

lemma written: "wr f path dat d = (True, ds) \<Longrightarrow> last ds path = Content dat"
  and refused: "wr f path dat d = (False, ds) \<Longrightarrow> last ds path = d path"
  using verdict by fastforce+

lemma last_frame:
  "wr f path dat d = (ok, ds) \<Longrightarrow> p \<noteq> path \<Longrightarrow> p \<noteq> path @ ''.tmp'' \<Longrightarrow> last ds p = d p"
  by (rule frame [OF _ last_in])

text \<open>Whoever reads the target while it is written sees one of two values.\<close>

lemma reader:
  assumes "wr f path dat d = (ok, ds)" and "d' \<in> set ds" and "d' path \<noteq> d path"
  shows "d' path = Content dat"
  using target [OF assms(1,2)] assms(3) by blast

section \<open>Several files, one after the other\<close>

text \<open>Each write has its own fault; the first that fails ends the sequence.\<close>

fun write_all :: "('f \<times> string \<times> bytes) list \<Rightarrow> disk \<Rightarrow> bool \<times> disk list" where
  "write_all [] d = (True, [d])"
| "write_all ((f, path, dat) # ws) d =
     (case wr f path dat d of
        (False, ds) \<Rightarrow> (False, ds)
      | (True, ds) \<Rightarrow> (case write_all ws (last ds) of (ok, es) \<Rightarrow> (ok, ds @ es)))"

text \<open>The targets, and the temporary files beside them.\<close>

definition targets :: "('f \<times> string \<times> bytes) list \<Rightarrow> string list" where
  "targets ws = map (\<lambda>(f, path, dat). path) ws"

definition apart :: "('f \<times> string \<times> bytes) list \<Rightarrow> bool" where
  "apart ws \<longleftrightarrow> distinct (targets ws) \<and> (\<forall>p \<in> set (targets ws). p @ ''.tmp'' \<notin> set (targets ws))"

lemma apart_Cons:
  "apart ((f, path, dat) # ws) \<Longrightarrow> apart ws \<and> path \<notin> set (targets ws) \<and> path @ ''.tmp'' \<notin> set (targets ws) \<and>
     (\<forall>p \<in> set (targets ws). path \<noteq> p @ ''.tmp'')"
  by (auto simp: apart_def targets_def)

lemma write_all_nonempty: "write_all ws d = (ok, ds) \<Longrightarrow> ds \<noteq> []"
  by (cases ws) (auto dest: starts split: prod.splits bool.splits)

lemma write_all_frame:
  assumes "write_all ws d = (ok, ds)" and "d' \<in> set ds"
    and "p \<notin> set (targets ws)" and "\<forall>q \<in> set (targets ws). p \<noteq> q @ ''.tmp''"
  shows "d' p = d p"
  using assms
proof (induction ws arbitrary: d ok ds)
  case (Cons w ws)
  obtain f path dat where w: "w = (f, path, dat)" by (cases w)
  obtain ok1 ds1 where r: "wr f path dat d = (ok1, ds1)" by (metis surj_pair)
  from Cons.prems(3,4) have p: "p \<noteq> path" "p \<noteq> path @ ''.tmp''" "p \<notin> set (targets ws)"
    "\<forall>q \<in> set (targets ws). p \<noteq> q @ ''.tmp''" by (auto simp: w targets_def)
  show ?case
  proof (cases "d' \<in> set ds1")
    case True
    then show ?thesis using frame [OF r] p by blast
  next
    case False
    with Cons.prems(1,2) obtain es where "write_all ws (last ds1) = (ok, es)" "d' \<in> set es"
      by (auto simp: w r split: bool.splits prod.splits)
    from Cons.IH [OF this p(3,4)] last_frame [OF r p(1,2)] show ?thesis by simp
  qed
qed simp

text \<open>At every moment a prefix of the files is new and the rest is old; after a success all are new.\<close>

lemma write_all_prefix:
  assumes "write_all ws d = (ok, ds)" and "apart ws" and "d' \<in> set ds"
  shows "\<exists>n \<le> length ws. \<forall>i < length ws. case ws ! i of (f, path, dat) \<Rightarrow>
    (if i < n then d' path = Content dat else d' path = d path)"
  using assms
proof (induction ws arbitrary: d ok ds)
  case (Cons w ws)
  obtain f path dat where w: "w = (f, path, dat)" by (cases w)
  obtain ok1 ds1 where r: "wr f path dat d = (ok1, ds1)" by (metis surj_pair)
  note a = apart_Cons [OF Cons.prems(2) [unfolded w]]
  have keep: "e q = d q" if "e \<in> set ds1" "q \<in> set (targets ws)" for e q
    using frame [OF r that(1), of q] a that(2) by metis
  have mem: "fst (snd (ws ! i)) \<in> set (targets ws)" if "i < length ws" for i
    using that by (force simp: targets_def split_beta in_set_conv_nth)
  show ?case
  proof (cases "d' \<in> set ds1")
    case True
    from target [OF r True] show ?thesis
    proof
      assume "d' path = d path"
      with keep [OF True] mem show ?thesis
        by (intro exI [of _ 0]) (auto simp: w nth_Cons split_beta split: nat.split)
    next
      assume "d' path = Content dat"
      with keep [OF True] mem show ?thesis
        by (intro exI [of _ 1]) (auto simp: w nth_Cons split_beta split: nat.split)
    qed
  next
    case False
    with Cons.prems(1,3) obtain es where e: "ok1" "write_all ws (last ds1) = (ok, es)" "d' \<in> set es"
      by (auto simp: w r split: bool.splits prod.splits)
    from Cons.IH [OF e(2) conjunct1 [OF a] e(3)] obtain n where n: "n \<le> length ws"
      "\<forall>i < length ws. case ws ! i of (f, path, dat) \<Rightarrow>
        (if i < n then d' path = Content dat else d' path = last ds1 path)" by blast
    have "d' path = Content dat"
      using write_all_frame [OF e(2,3), of path] a written [of f path dat d ds1] r e(1) by simp
    moreover have "last ds1 q = d q" if "q \<in> set (targets ws)" for q
      by (rule keep [OF last_in [OF r] that])
    ultimately show ?thesis using n mem
      by (intro exI [of _ "Suc n"]) (auto simp: w nth_Cons split_beta split: nat.split)
  qed
qed simp

end

section \<open>A value kept in such a file\<close>

text \<open>
  A file that is written by such a writer and read back as a value: what is read depends on the
  file only, and for the values that the encoding carries, printing and reading give the value seen.
\<close>

locale stored_value = atomic_file wr for wr :: "'f \<Rightarrow> string \<Rightarrow> bytes \<Rightarrow> disk \<Rightarrow> bool \<times> disk list" +
  fixes at_path :: string
    and print :: "'x \<Rightarrow> bytes"
    and load :: "disk \<Rightarrow> 'y"
    and carried :: "'x \<Rightarrow> bool"
    and seen :: "'x \<Rightarrow> 'y"
  assumes load_file: "d' at_path = d at_path \<Longrightarrow> load d' = load d"
    and load_print: "carried x \<Longrightarrow> d at_path = Content (print x) \<Longrightarrow> load d = seen x"
begin

lemma saved: "carried x \<Longrightarrow> wr f at_path (print x) d = (True, ds) \<Longrightarrow> load (last ds) = seen x"
  by (rule load_print [OF _ written])

lemma not_saved: "wr f at_path (print x) d = (False, ds) \<Longrightarrow> load (last ds) = load d"
  by (rule load_file [OF refused])

text \<open>A reader that comes at any moment, or after a crash, loads the old value or the new one.\<close>

lemma old_or_new:
  "carried x \<Longrightarrow> wr f at_path (print x) d = (ok, ds) \<Longrightarrow> d' \<in> set ds \<Longrightarrow> load d' = load d \<or> load d' = seen x"
  using target load_file load_print by blast

end

end
