(* ===== verification/Localvault.thy ===== *)
theory Localvault
  imports Atomic_File "HOL-Library.AList" "HOL-Library.Char_ord" "HOL-Library.List_Lexorder"
begin

text \<open>
  Alice's on-disk state (\<open>internal/localvault/localvault.go\<close>): the vault of ciphertexts and
  its operations, and the atomic file write under which it is saved.

  A Go map from names to entries is an association list with distinct keys. JSON encoding
  and decoding are the parameter \<open>codec\<close>; a disk maps paths to what opening them gives.
\<close>

section \<open>The vault\<close>

record SecretEntry =
  Value :: string
  Desc :: string
  CreatedAt :: string
  UpdatedAt :: string
  KeyEpoch :: int
  LenBytes :: int
  EntropyBits :: int

record Vault =
  Vault_Version :: int
  Secrets :: "(string \<times> SecretEntry) list"

definition Version :: int where
  "Version = 1"

definition Has :: "Vault \<Rightarrow> string \<Rightarrow> bool" where
  "Has v key \<longleftrightarrow> map_of (Secrets v) key \<noteq> None"

definition Get :: "Vault \<Rightarrow> string \<Rightarrow> SecretEntry option" where
  "Get v key = map_of (Secrets v) key"

definition Set :: "string \<Rightarrow> SecretEntry \<Rightarrow> Vault \<Rightarrow> Vault" where
  "Set key e v = v\<lparr>Secrets := AList.update key e (Secrets v)\<rparr>"

definition Remove :: "string \<Rightarrow> Vault \<Rightarrow> bool \<times> Vault" where
  "Remove key v =
     (if map_of (Secrets v) key = None then (False, v)
      else (True, v\<lparr>Secrets := AList.delete key (Secrets v)\<rparr>))"

record Listing =
  L_Key :: string
  L_Desc :: string
  L_KeyEpoch :: int
  L_LenBytes :: int
  L_EntropyBits :: int

definition VaultList :: "Vault \<Rightarrow> Listing list" where
  "VaultList v =
     sort_key L_Key
       (map (\<lambda>(k, e). \<lparr>L_Key = k, L_Desc = Desc e, L_KeyEpoch = KeyEpoch e, L_LenBytes = LenBytes e,
                        L_EntropyBits = EntropyBits e\<rparr>) (Secrets v))"

definition vault_ok :: "Vault \<Rightarrow> bool" where
  "vault_ok v \<longleftrightarrow> distinct (map fst (Secrets v))"

section \<open>The contract of a secret map\<close>

text \<open>
  What the commands rely on: reading back what was set or removed, other keys undisturbed,
  and an invariant that every operation keeps.
\<close>

locale secret_map =
  fixes get :: "'v \<Rightarrow> string \<Rightarrow> 'e option"
    and put :: "string \<Rightarrow> 'e \<Rightarrow> 'v \<Rightarrow> 'v"
    and del :: "string \<Rightarrow> 'v \<Rightarrow> bool \<times> 'v"
    and ok :: "'v \<Rightarrow> bool"
  assumes get_put: "get (put k e v) j = (if j = k then Some e else get v j)"
    and get_del: "ok v \<Longrightarrow> get (snd (del k v)) j = (if j = k then None else get v j)"
    and del_found: "fst (del k v) \<longleftrightarrow> get v k \<noteq> None"
    and ok_put: "ok v \<Longrightarrow> ok (put k e v)"
    and ok_del: "ok v \<Longrightarrow> ok (snd (del k v))"
begin

text \<open>Writing a list of entries, the later ones over the earlier ones.\<close>

fun put_all :: "(string \<times> 'e) list \<Rightarrow> 'v \<Rightarrow> 'v" where
  "put_all [] v = v"
| "put_all ((k, e) # kes) v = put_all kes (put k e v)"

lemma ok_put_all: "ok v \<Longrightarrow> ok (put_all kes v)"
  by (induction kes arbitrary: v) (auto simp: ok_put)

lemma get_put_all: "get (put_all kes v) j = (case map_of (rev kes) j of Some e \<Rightarrow> Some e | None \<Rightarrow> get v j)"
  by (induction kes arbitrary: v) (auto simp: get_put map_add_def split: option.splits)

text \<open>Rewriting, in order, those keys that are still there.\<close>

fun modify_all :: "(string \<times> ('e \<Rightarrow> 'e)) list \<Rightarrow> 'v \<Rightarrow> 'v" where
  "modify_all [] v = v"
| "modify_all ((k, f) # kfs) v =
     modify_all kfs (case get v k of None \<Rightarrow> v | Some e \<Rightarrow> put k (f e) v)"

lemma ok_modify_all: "ok v \<Longrightarrow> ok (modify_all kfs v)"
  by (induction kfs arbitrary: v) (auto simp: ok_put split: option.splits)

lemma modify_all_dom: "get (modify_all kfs v) j = None \<longleftrightarrow> get v j = None"
proof (induction kfs arbitrary: v)
  case (Cons a kfs)
  obtain k f where a: "a = (k, f)" by (cases a)
  show ?case by (cases "get v k") (auto simp: a Cons.IH get_put)
qed simp

lemma modify_all_other: "j \<notin> fst ` set kfs \<Longrightarrow> get (modify_all kfs v) j = get v j"
proof (induction kfs arbitrary: v)
  case (Cons a kfs)
  obtain k f where a: "a = (k, f)" by (cases a)
  from Cons.prems a have "j \<notin> fst ` set kfs" "j \<noteq> k" by auto
  then show ?case by (cases "get v k") (auto simp: a Cons.IH get_put)
qed simp

lemma modify_all_get:
  assumes "distinct (map fst kfs)" and "(j, f) \<in> set kfs"
  shows "get (modify_all kfs v) j = map_option f (get v j)"
  using assms
proof (induction kfs arbitrary: v)
  case (Cons a kfs)
  obtain k g where a: "a = (k, g)" by (cases a)
  show ?case
  proof (cases "k = j")
    case True
    with Cons.prems a have "j \<notin> fst ` set kfs" and "f = g"
      by (auto simp: rev_image_eqI)
    with True show ?thesis
      by (cases "get v k") (auto simp: a modify_all_other get_put)
  next
    case False
    with Cons.prems a have "(j, f) \<in> set kfs" "distinct (map fst kfs)" by auto
    with Cons.IH False show ?thesis by (cases "get v k") (auto simp: a get_put)
  qed
qed simp

end

interpretation vm: secret_map Get Set Remove vault_ok
proof unfold_locales
  fix v and k j :: string
  assume "vault_ok v"
  show "Get (snd (Remove k v)) j = (if j = k then None else Get v j)"
    by (simp add: Get_def Remove_def delete_conv')
next
  fix v and k :: string
  assume "vault_ok v"
  then show "vault_ok (snd (Remove k v))"
    by (simp add: vault_ok_def Remove_def delete_keys distinct_removeAll)
qed (auto simp: Get_def Set_def Remove_def vault_ok_def update_conv' distinct_update)

lemma Has_Get: "Has v k \<longleftrightarrow> Get v k \<noteq> None"
  by (simp add: Has_def Get_def)

lemma VaultList_sorted: "sorted (map L_Key (VaultList v))"
  by (simp add: VaultList_def)

lemma VaultList_keys: "set (map L_Key (VaultList v)) = {k. Has v k}"
  by (force simp: VaultList_def Has_def map_of_eq_None_iff)

lemma VaultList_distinct: "vault_ok v \<Longrightarrow> distinct (map L_Key (VaultList v))"
proof -
  assume "vault_ok v"
  then have "distinct (map L_Key (map (\<lambda>(k, e). \<lparr>L_Key = k, L_Desc = Desc e, L_KeyEpoch = KeyEpoch e,
      L_LenBytes = LenBytes e, L_EntropyBits = EntropyBits e\<rparr>) (Secrets v)))"
    by (simp add: vault_ok_def comp_def split_beta)
  then have "distinct (map L_Key (sort_key L_Key (map (\<lambda>(k, e). \<lparr>L_Key = k, L_Desc = Desc e,
      L_KeyEpoch = KeyEpoch e, L_LenBytes = LenBytes e, L_EntropyBits = EntropyBits e\<rparr>) (Secrets v))))"
    unfolding distinct_map by (auto simp: distinct_map)
  then show ?thesis by (simp add: VaultList_def)
qed

section \<open>The state directory\<close>

record Config =
  BobAddr :: string
  ServerName :: string
  Identity :: string

definition DefaultDir :: "string list \<Rightarrow> string" where
  "DefaultDir environ =
     (let d = Getenv environ ''ANB_ALICE_DIR'' in
      if d \<noteq> '''' then d else FilepathJoin [Getenv environ ''HOME'', ''.anb'', ''alice''])"

text \<open>The directory of the store that \<open>Open\<close> returns.\<close>

definition OpenDir :: "string list \<Rightarrow> string \<Rightarrow> string" where
  "OpenDir environ dir = (if dir = '''' then DefaultDir environ else dir)"

definition VaultPath :: "string \<Rightarrow> string" where
  "VaultPath dir = FilepathJoin [dir, ''vault.json'']"

definition ConfigPath :: "string \<Rightarrow> string" where
  "ConfigPath dir = FilepathJoin [dir, ''config.json'']"

definition ClientCertPath :: "string \<Rightarrow> string" where
  "ClientCertPath dir = FilepathJoin [dir, ''client.crt'']"

definition ClientKeyPath :: "string \<Rightarrow> string" where
  "ClientKeyPath dir = FilepathJoin [dir, ''client.key'']"

definition CSRPath :: "string \<Rightarrow> string" where
  "CSRPath dir = FilepathJoin [dir, ''client.csr'']"

definition CAPath :: "string \<Rightarrow> string" where
  "CAPath dir = FilepathJoin [dir, ''ca.crt'']"

section \<open>Saving and loading\<close>

text \<open>\<open>encoding/json\<close> for vaults and configurations.\<close>

record codec =
  marshal :: "Vault \<Rightarrow> bytes"
  unmarshal :: "bytes \<Rightarrow> Vault option"
  marshal_config :: "Config \<Rightarrow> bytes"
  unmarshal_config :: "bytes \<Rightarrow> Config option"

text \<open>Where a system call of \<open>writeAtomic\<close> fails; a failed write leaves the first \<open>n\<close> bytes.\<close>

datatype write_fault = NoFault | MkdirFails | OpenFails | WriteFails nat | SyncFails | CloseFails | RenameFails

text \<open>The result, and every disk the write passes through, the final one last. A crash stops
  it at any of them.\<close>

definition writeAtomic :: "write_fault \<Rightarrow> string \<Rightarrow> bytes \<Rightarrow> disk \<Rightarrow> bool \<times> disk list" where
  "writeAtomic fault path dat d =
     (let tmp = path @ ''.tmp'';
          opened = d(tmp := Content []);
          written = d(tmp := Content dat);
          removed = d(tmp := Missing);
          renamed = written(path := Content dat, tmp := Missing)
      in case fault of
           MkdirFails \<Rightarrow> (False, [d])
         | OpenFails \<Rightarrow> (False, [d])
         | WriteFails n \<Rightarrow> (False, [d, opened, d(tmp := Content (take n dat)), removed])
         | SyncFails \<Rightarrow> (False, [d, opened, written, removed])
         | CloseFails \<Rightarrow> (False, [d, opened, written, removed])
         | RenameFails \<Rightarrow> (False, [d, opened, written])
         | NoFault \<Rightarrow> (True, [d, opened, written, renamed]))"

interpretation wa: atomic_file writeAtomic
proof unfold_locales
  fix f :: write_fault and path p :: string and dat :: bytes and d d' :: disk and ok and ds
  assume w: "writeAtomic f path dat d = (ok, ds)"
  then show "ds \<noteq> [] \<and> hd ds = d" and "last ds path = (if ok then Content dat else d path)"
    by (cases f; auto simp: writeAtomic_def Let_def)+
  assume "d' \<in> set ds"
  with w show "d' path = d path \<or> d' path = Content dat"
    and "p \<noteq> path \<Longrightarrow> p \<noteq> path @ ''.tmp'' \<Longrightarrow> d' p = d p"
    by (cases f; auto simp: writeAtomic_def Let_def)+
qed

definition Save :: "codec \<Rightarrow> write_fault \<Rightarrow> string \<Rightarrow> Vault \<Rightarrow> disk \<Rightarrow> bool \<times> disk list" where
  "Save J fault dir v d =
     writeAtomic fault (VaultPath dir) (marshal J (v\<lparr>Vault_Version := Version\<rparr>)) d"

definition SaveConfig :: "codec \<Rightarrow> write_fault \<Rightarrow> string \<Rightarrow> Config \<Rightarrow> disk \<Rightarrow> bool \<times> disk list" where
  "SaveConfig J fault dir c d = writeAtomic fault (ConfigPath dir) (marshal_config J c) d"

definition WriteFile :: "write_fault \<Rightarrow> string \<Rightarrow> string \<Rightarrow> bytes \<Rightarrow> disk \<Rightarrow> bool \<times> disk list" where
  "WriteFile fault dir name dat d = writeAtomic fault (FilepathJoin [dir, name]) dat d"

definition VaultExists :: "string \<Rightarrow> disk \<Rightarrow> bool" where
  "VaultExists dir d \<longleftrightarrow> d (VaultPath dir) \<noteq> Missing"

definition Load :: "codec \<Rightarrow> string \<Rightarrow> disk \<Rightarrow> Vault option" where
  "Load J dir d =
     (case d (VaultPath dir) of
        Missing \<Rightarrow> Some \<lparr>Vault_Version = Version, Secrets = []\<rparr>
      | Unopenable \<Rightarrow> None
      | Content b \<Rightarrow> unmarshal J b)"

definition LoadConfig :: "codec \<Rightarrow> string \<Rightarrow> disk \<Rightarrow> Config option" where
  "LoadConfig J dir d =
     (case d (ConfigPath dir) of Content b \<Rightarrow> unmarshal_config J b | _ \<Rightarrow> None)"

lemmas state_paths =
  VaultPath_def ConfigPath_def ClientCertPath_def ClientKeyPath_def CSRPath_def CAPath_def

lemma state_path_names [simp]:
  "VaultPath dir = dir_prefix dir @ ''vault.json''"
  "ConfigPath dir = dir_prefix dir @ ''config.json''"
  "ClientCertPath dir = dir_prefix dir @ ''client.crt''"
  "ClientKeyPath dir = dir_prefix dir @ ''client.key''"
  "CSRPath dir = dir_prefix dir @ ''client.csr''"
  "CAPath dir = dir_prefix dir @ ''ca.crt''"
  by (simp_all add: state_paths FilepathJoin_name file_name_def)

interpretation vf: stored_value writeAtomic "VaultPath dir" "\<lambda>v. marshal J (v\<lparr>Vault_Version := Version\<rparr>)" "Load J dir"
    "\<lambda>v. unmarshal J (marshal J (v\<lparr>Vault_Version := Version\<rparr>)) = Some (v\<lparr>Vault_Version := Version\<rparr>)"
    "\<lambda>v. Some (v\<lparr>Vault_Version := Version\<rparr>)" for dir :: string and J :: codec
  by unfold_locales (simp_all add: Load_def del: state_path_names)

interpretation cf: stored_value writeAtomic "ConfigPath dir" "marshal_config J" "LoadConfig J dir"
    "\<lambda>c. unmarshal_config J (marshal_config J c) = Some c" Some for dir :: string and J :: codec
  by unfold_locales (simp_all add: LoadConfig_def del: state_path_names)

section \<open>Properties\<close>



end
