(* ===== verification/Redact.thy ===== *)
theory Redact
  imports Go_Regex Go_Os "HOL-Library.Multiset"
begin

text \<open>
  The redaction engine (\<open>internal/redact/redact.go\<close>): replacing vault values and
  high-entropy tokens by placeholders, restoring placeholders, and the checks on
  placeholder syntax. SHA-256 in lower-case hexadecimal is the parameter \<open>sha256Hex\<close>.
\<close>

section \<open>Placeholders and patterns\<close>

definition placeholderPrefix :: string where
  "placeholderPrefix = ''<agent-vault:''"

definition unvaultedPrefixLen :: nat where "unvaultedPrefixLen = 12"
definition highEntropyMinLength :: nat where "highEntropyMinLength = 12"

abbreviation "key_end \<equiv> Cls (\<lambda>c. is_lower c \<or> is_digit c)"
abbreviation "key_mid \<equiv> Cls (\<lambda>c. is_lower c \<or> is_digit c \<or> c = CHR ''-'')"

text \<open>\<open>[a-z0-9](?:[a-z0-9-]*[a-z0-9])?\<close>\<close>

definition key_rx :: rx where
  "key_rx = Sq key_end (opt (Sq (Star key_mid) key_end))"

text \<open>\<open><agent-vault:(KEY)>\<close>\<close>

definition placeholderRE :: rx where
  "placeholderRE = Sq (lit placeholderPrefix) (Sq (Grp key_rx) (one CHR ''>''))"

abbreviation "lower_hex \<equiv> Cls (\<lambda>c. c \<in> set ''abcdef0123456789'')"

text \<open>\<open><agent-vault:UNVAULTED:sha256:([a-f0-9]{8,16})>\<close>\<close>

definition unvaultedRE :: rx where
  "unvaultedRE =
     Sq (lit ''<agent-vault:UNVAULTED:sha256:'') (Sq (Grp (rep_range 8 16 lower_hex)) (one CHR ''>''))"

text \<open>\<open><[^>]+>\<close>\<close>

definition looseAngleRE :: rx where
  "looseAngleRE = Sq (one CHR ''<'') (Sq (plus (Cls (\<lambda>c. c \<noteq> CHR ''>''))) (one CHR ''>''))"

abbreviation "word_dash \<equiv> Cls (\<lambda>c. is_alnum c \<or> c = CHR ''_'' \<or> c = CHR ''-'')"
abbreviation "space_cls \<equiv> Cls (\<lambda>c. c \<in> {TAB, LF, CHR 0x0C, CR, CHR '' ''})"
abbreviation "alnum_cls \<equiv> Cls is_alnum"
abbreviation "any_byte \<equiv> Cls (\<lambda>c. True)"

definition secretPatterns :: "rx list" where
  "secretPatterns =
     [Sq (lit ''sk-'') (rep_min 20 word_dash),
      Sq (lit ''sk-proj-'') (rep_min 20 word_dash),
      Sq (lit ''sk-ant-'') (rep_min 20 word_dash),
      Sq (lit ''gh'') (Sq (Cls (\<lambda>c. c \<in> set ''po'')) (Sq (lit ''_'')
        (rep_min 36 (Cls (\<lambda>c. is_alnum c \<or> c = CHR ''_''))))),
      Sq (lit ''github_pat_'') (rep_min 22 (Cls (\<lambda>c. is_alnum c \<or> c = CHR ''_''))),
      Sq (lit ''xox'') (Sq (Cls (\<lambda>c. c \<in> set ''bpas'')) (Sq (lit ''-'')
        (rep_min 10 (Cls (\<lambda>c. is_alnum c \<or> c = CHR ''-''))))),
      Sq (lit ''sk_live_'') (rep_min 24 alnum_cls),
      Sq (lit ''sk_test_'') (rep_min 24 alnum_cls),
      Sq (lit ''pk_live_'') (rep_min 24 alnum_cls),
      Sq (lit ''pk_test_'') (rep_min 24 alnum_cls),
      Sq (lit ''AKIA'') (rep 16 (Cls (\<lambda>c. is_digit c \<or> is_upper c))),
      Sq (rep_range 8 10 (Cls is_digit)) (Sq (lit '':'') (rep 35 word_dash)),
      rep_min 40 (Cls (\<lambda>c. c \<in> set ''0123456789abcdef'')),
      Sq (rep_min 32 (Cls (\<lambda>c. is_alnum c \<or> c \<in> set ''+/''))) (upto_rep 2 (one CHR ''='')),
      Sq (lit ''-----BEGIN '') (Sq (plus (Cls (\<lambda>c. is_upper c \<or> c = CHR '' ''))) (Sq (lit ''-----'')
        (Sq (Lazy any_byte) (Sq (lit ''-----END '') (Sq (plus (Cls (\<lambda>c. is_upper c \<or> c = CHR '' '')))
          (lit ''-----'')))))),
      Sq (lit ''eyJ'') (Sq (plus word_dash) (Sq (lit ''.eyJ'') (Sq (plus word_dash) (Sq (lit ''.'') (plus word_dash))))),
      Sq (lit ''Bearer'') (Sq (plus space_cls)
        (rep_min 20 (Cls (\<lambda>c. is_alnum c \<or> c \<in> set ''_.-''))))]"

abbreviation "name_start \<equiv> Cls (\<lambda>c. is_letter c \<or> c = CHR ''_'')"

text \<open>\<open>^[A-Za-z_][A-Za-z0-9_]*\s*=\s*(.+)$\<close>\<close>

definition reEnvLine :: rx where
  "reEnvLine =
     Sq (Sq Bol (Sq name_start (Sq (Star (Cls (\<lambda>c. is_alnum c \<or> c = CHR ''_'')))
       (Sq (Star space_cls) (Sq (one CHR ''='') (Star space_cls))))))
       (Sq (Grp (plus anyc)) Eol)"

text \<open>\<open>^[A-Za-z_][A-Za-z0-9_.-]*\s*:\s+(.+)$\<close>\<close>

definition reYamlLine :: rx where
  "reYamlLine =
     Sq (Sq Bol (Sq name_start (Sq (Star (Cls (\<lambda>c. is_alnum c \<or> c \<in> set ''_.-'')))
       (Sq (Star space_cls) (Sq (one CHR '':'') (plus space_cls))))))
       (Sq (Grp (plus anyc)) Eol)"

text \<open>\<open>"[^"]+"\s*:\s*"([^"]+)"\<close>\<close>

definition reJSONLine :: rx where
  "reJSONLine =
     Sq (Sq (one DQ) (Sq (plus (Cls (\<lambda>c. c \<noteq> DQ))) (Sq (one DQ)
       (Sq (Star space_cls) (Sq (one CHR '':'') (Sq (Star space_cls) (one DQ)))))))
       (Sq (Grp (plus (Cls (\<lambda>c. c \<noteq> DQ)))) (one DQ))"

definition reArrayObj :: rx where
  "reArrayObj =
     Alt (Sq Bol (Sq (one CHR ''['') (Sq (Star any_byte) (Sq (one CHR '']'') Eol))))
         (Sq Bol (Sq (one CHR ''{'') (Sq (Star any_byte) (Sq (one CHR ''}'') Eol))))"

definition ci :: "char \<Rightarrow> char \<Rightarrow> rx" where
  "ci l u = Cls (\<lambda>c. c = l \<or> c = u)"

text \<open>\<open>(?i)^https?://\<close>; the simple case folding of \<open>s\<close> includes U+017F.\<close>

definition reURL :: rx where
  "reURL =
     Sq Bol (Sq (ci CHR ''h'' CHR ''H'') (Sq (ci CHR ''t'' CHR ''T'') (Sq (ci CHR ''t'' CHR ''T'')
       (Sq (ci CHR ''p'' CHR ''P'') (Sq (opt (Alt (ci CHR ''s'' CHR ''S'') (lit [CHR 0xC5, CHR 0xBF]))) (lit ''://''))))))"

definition reFilePath :: rx where
  "reFilePath = Sq Bol (Sq (opt (Cls (\<lambda>c. c \<in> set ''~.''))) (one CHR ''/''))"

definition reAllUpper :: rx where "reAllUpper = anchored (plus (Cls is_upper))"
definition reAllDigits :: rx where "reAllDigits = anchored (plus (Cls is_digit))"
definition reAllLetters :: rx where "reAllLetters = anchored (plus (Cls is_letter))"

section \<open>Entropy and heuristics\<close>

definition shannonEntropy :: "string \<Rightarrow> real" where
  "shannonEntropy s =
     (if s = [] then 0
      else (let rs = runes s; n = real (length rs) in
            - (\<Sum>c \<in> set rs. (real (count_list rs c) / n) * log 2 (real (count_list rs c) / n))))"

text \<open>\<open>shannonEntropy s \<ge> 3\<close> without logarithms: with n runes of which c occurs \<open>k c\<close>
  times, n to the n is at least 8 to the n times the product of the \<open>k c\<close> to the \<open>k c\<close>. The code
  computes the sum in floating point; where the exact entropy is within rounding distance
  of the threshold its answer may differ.\<close>

definition entropyAtLeast3 :: "string \<Rightarrow> bool" where
  "entropyAtLeast3 s \<longleftrightarrow>
     s \<noteq> [] \<and>
     (let rs = runes s; n = length rs in
      8 ^ n * prod_list (map (\<lambda>c. count_list rs c ^ count_list rs c) (remdups rs)) \<le> n ^ n)"

definition isHighEntropy :: "string \<Rightarrow> bool" where
  "isHighEntropy s \<longleftrightarrow> highEntropyMinLength \<le> length s \<and> entropyAtLeast3 s"

definition matchesSecretPattern :: "string \<Rightarrow> bool" where
  "matchesSecretPattern s \<longleftrightarrow> list_ex (\<lambda>p. MatchString p s) secretPatterns"

definition commonBigrams :: "string list" where
  "commonBigrams =
     [''th'', ''he'', ''in'', ''er'', ''an'', ''re'', ''on'', ''en'', ''at'', ''es'',
      ''ed'', ''te'', ''ti'', ''or'', ''st'', ''ar'', ''nd'', ''to'', ''nt'', ''is'',
      ''of'', ''it'', ''al'', ''as'', ''ha'', ''ng'', ''co'', ''se'', ''me'', ''de'',
      ''le'', ''ou'', ''no'', ''ne'', ''ea'', ''ri'', ''ro'', ''li'', ''ra'', ''io'',
      ''ic'', ''el'', ''la'', ''ve'', ''ta'', ''ce'', ''ma'', ''si'', ''om'', ''ur'',
      ''ec'', ''il'', ''ge'', ''lo'', ''ch'', ''so'', ''pr'', ''pe'', ''fo'', ''ca'',
      ''di'', ''be'', ''mo'', ''ag'', ''un'', ''us'', ''wi'', ''hi'', ''sh'', ''ac'',
      ''ad'', ''ol'', ''ab'', ''mi'', ''im'', ''id'', ''oo'', ''ke'', ''ki'', ''su'',
      ''po'', ''pa'', ''wa'', ''up'', ''do'', ''fi'', ''ho'', ''da'', ''fe'', ''vi'',
      ''ow'', ''am'', ''ut'', ''ni'', ''lu'', ''tr'', ''pl'', ''bl'', ''sp'', ''cr'',
      ''na'', ''ot'', ''ns'', ''ll'', ''ss'', ''wh'', ''ck'', ''gh'', ''ry'', ''ly'',
      ''ty'', ''ay'', ''ey'']"

fun bigrams :: "string \<Rightarrow> string list" where
  "bigrams (a # b # s) = [a, b] # bigrams (b # s)"
| "bigrams _ = []"

text \<open>\<open>float64(hits)/float64(n) >= 0.3\<close>: for the lengths in question the quotient of integers
  reaches the double 0.3 exactly when ten times the hits reach three times n.\<close>

definition looksLikeEnglish :: "string \<Rightarrow> bool" where
  "looksLikeEnglish seg =
     (let s = ToLower seg; n = length s - 1 in
      if n \<le> 0 then True
      else (let hits = length (filter (\<lambda>b. b \<in> set commonBigrams) (bigrams s)) in 3 * n \<le> 10 * hits))"

definition isWordLikeSegment :: "string \<Rightarrow> bool" where
  "isWordLikeSegment seg =
     (if length seg \<le> 3 then True
      else if MatchString reAllUpper seg then True
      else if MatchString reAllDigits seg then True
      else if MatchString reAllLetters seg then looksLikeEnglish seg
      else False)"

text \<open>The non-empty pieces of \<open>reNonAlnum.Split\<close>: the maximal runs of letters and digits.\<close>

fun alnum_runs :: "string \<Rightarrow> string list" where
  "alnum_runs [] = [[]]"
| "alnum_runs (c # s) =
     (if \<not> is_alnum c then [] # alnum_runs s
      else (case alnum_runs s of [] \<Rightarrow> [[c]] | r # rs \<Rightarrow> (c # r) # rs))"

definition looksLikeNonSecret :: "string \<Rightarrow> bool" where
  "looksLikeNonSecret s =
     (if MatchString reArrayObj s then True
      else if MatchString reURL s then True
      else if MatchString reFilePath s then True
      else (let nonEmpty = filter (\<lambda>seg. seg \<noteq> []) (alnum_runs s) in
            if nonEmpty = [] then False
            else list_all isWordLikeSegment nonEmpty))"

text \<open>The test both phases apply to a token.\<close>

definition looksSecret :: "string \<Rightarrow> bool" where
  "looksSecret s \<longleftrightarrow> matchesSecretPattern s \<or> (isHighEntropy s \<and> \<not> looksLikeNonSecret s)"

section \<open>Redaction\<close>

definition extractValueCandidates :: "string \<Rightarrow> string list" where
  "extractValueCandidates line =
     (let trimmed = TrimSpace line in
      if HasPrefix trimmed ''#'' \<or> HasPrefix trimmed ''//'' then []
      else (case Submatch1 reEnvLine trimmed of Some m \<Rightarrow> [m] | None \<Rightarrow> [])
         @ (case Submatch1 reYamlLine trimmed of Some m \<Rightarrow> [m] | None \<Rightarrow> [])
         @ (case Submatch1 reJSONLine trimmed of Some m \<Rightarrow> [m] | None \<Rightarrow> []))"

definition is_quote :: "char \<Rightarrow> bool" where
  "is_quote c \<longleftrightarrow> c = DQ \<or> c = SQ"

definition stripQuotes :: "string \<Rightarrow> string" where
  "stripQuotes s0 =
     (let s = TrimSpace s0;
          s = (if s \<noteq> [] \<and> is_quote (hd s) then tl s else s);
          n = length s
      in if 2 \<le> n \<and> s ! (n - 1) = CHR '','' \<and> is_quote (s ! (n - 2)) then take (n - 2) s
         else if 1 \<le> n \<and> is_quote (s ! (n - 1)) then take (n - 1) s
         else s)"

definition sha256Prefix :: "(string \<Rightarrow> string) \<Rightarrow> string \<Rightarrow> string" where
  "sha256Prefix sha256Hex s = take unvaultedPrefixLen (sha256Hex s)"

definition redact_candidate :: "(string \<Rightarrow> string) \<Rightarrow> string set \<Rightarrow> string \<Rightarrow> string \<Rightarrow> string" where
  "redact_candidate sha256Hex known cand result =
     (let trimmed = stripQuotes cand in
      if length trimmed < highEntropyMinLength then result
      else if trimmed \<in> known then result
      else if looksSecret trimmed then
        Replace1 result cand
          (placeholderPrefix @ ''UNVAULTED:sha256:'' @ sha256Prefix sha256Hex trimmed @ ''>'')
      else result)"

definition redact_line :: "(string \<Rightarrow> string) \<Rightarrow> string set \<Rightarrow> string \<Rightarrow> string" where
  "redact_line sha256Hex known line =
     (if Contains line placeholderPrefix then line
      else fold (redact_candidate sha256Hex known) (extractValueCandidates line) line)"

definition redactUnvaultedTokens :: "(string \<Rightarrow> string) \<Rightarrow> string \<Rightarrow> string set \<Rightarrow> string" where
  "redactUnvaultedTokens sha256Hex content known =
     Join (map (redact_line sha256Hex known) (Split content LF)) [LF]"

text \<open>Phase 1. \<open>secretValues\<close> lists the Go map from values to key names in the order in
  which the code iterates over it; \<open>sort.Slice\<close> orders by length, and the order among values of one
  length is that of the iteration.\<close>

definition redact_entries :: "(string \<times> string) list \<Rightarrow> (string \<times> string) list" where
  "redact_entries secretValues =
     sort_key (\<lambda>(v, _). - int (length v)) (filter (\<lambda>(v, _). v \<noteq> []) secretValues)"

definition redact_known :: "(string \<times> string) list \<Rightarrow> string \<Rightarrow> string" where
  "redact_known entries content =
     fold (\<lambda>(v, k) result. ReplaceAll result v (placeholderPrefix @ k @ ''>'')) entries content"

definition Redact :: "(string \<Rightarrow> string) \<Rightarrow> string \<Rightarrow> (string \<times> string) list \<Rightarrow> string" where
  "Redact sha256Hex content secretValues =
     redactUnvaultedTokens sha256Hex
       (redact_known (redact_entries secretValues) content)
       (set (map fst secretValues))"

section \<open>Restoring\<close>

text \<open>\<open>ReplaceAllStringFunc\<close>: the function gets the match, its group, and a state.\<close>

fun replace_matches ::
  "('s \<Rightarrow> string \<Rightarrow> string \<Rightarrow> string \<times> 's) \<Rightarrow> 's \<Rightarrow> (string \<times> string \<times> string) list \<Rightarrow> string \<times> 's" where
  "replace_matches f st [] = ([], st)"
| "replace_matches f st ((pre, m, g) # ms) =
     (case f st m g of (r, st') \<Rightarrow> (case replace_matches f st' ms of (out, st'') \<Rightarrow> (pre @ r @ out, st'')))"

definition ReplaceAllStringFunc ::
  "rx \<Rightarrow> ('s \<Rightarrow> string \<Rightarrow> string \<Rightarrow> string \<times> 's) \<Rightarrow> 's \<Rightarrow> string \<Rightarrow> string \<times> 's" where
  "ReplaceAllStringFunc r f st s =
     (case segments r 0 s of (ms, rest) \<Rightarrow>
        (case replace_matches f st ms of (out, st') \<Rightarrow> (out @ rest, st')))"

record RestoreResult =
  RR_Content :: string
  RR_Restored :: "string list"
  RR_Missing :: "string list"

definition Restore :: "string \<Rightarrow> (string \<Rightarrow> string option) \<Rightarrow> RestoreResult" where
  "Restore content get =
     (case ReplaceAllStringFunc placeholderRE
             (\<lambda>(restored, missing) m key.
                (case get key of
                   None \<Rightarrow> (m, (restored, missing @ [key]))
                 | Some val \<Rightarrow> (val, (restored @ [key], missing))))
             ([], []) content of
        (out, restored, missing) \<Rightarrow> \<lparr>RR_Content = out, RR_Restored = restored, RR_Missing = missing\<rparr>)"

fun collect_candidates :: "(string \<Rightarrow> string) \<Rightarrow> string list \<Rightarrow> (string \<times> string) list \<Rightarrow> (string \<times> string) list" where
  "collect_candidates sha256Hex [] acc = acc"
| "collect_candidates sha256Hex (c # cs) acc =
     (let trimmed = stripQuotes c in
      collect_candidates sha256Hex cs
        (if length trimmed < highEntropyMinLength then acc
         else if trimmed \<in> fst ` set acc then acc
         else if looksSecret trimmed then acc @ [(trimmed, sha256Hex trimmed)]
         else acc))"

definition RestoreUnvaulted ::
  "(string \<Rightarrow> string) \<Rightarrow> string \<Rightarrow> string \<Rightarrow> string \<times> nat \<times> string list" where
  "RestoreUnvaulted sha256Hex content existingContent =
     (let candidates =
            collect_candidates sha256Hex (concat (map extractValueCandidates (Split existingContent LF))) []
      in ReplaceAllStringFunc unvaultedRE
           (\<lambda>(n, unmatched) m hash.
              (case find (\<lambda>(v, full). length hash \<le> length full \<and> take (length hash) full = hash) candidates of
                 Some (v, _) \<Rightarrow> (v, (Suc n, unmatched))
               | None \<Rightarrow> (m, (n, unmatched @ [hash]))))
           (0, []) content)"

definition ExtractPlaceholders :: "string \<Rightarrow> string list" where
  "ExtractPlaceholders content =
     rev (remdups (rev (FindAllSubmatch1 placeholderRE content)))"

definition IsValidPlaceholder :: "string \<Rightarrow> bool" where
  "IsValidPlaceholder s =
     (if s = [] then False
      else FindString placeholderRE s = s \<or> FindString unvaultedRE s = s)"

definition FindSuspiciousPlaceholders :: "string \<Rightarrow> string list" where
  "FindSuspiciousPlaceholders content =
     filter (\<lambda>m. \<not> IsValidPlaceholder m) (FindAllString looseAngleRE content)"


section \<open>Occurrences and replacement\<close>

lemma sublist_sep:
  assumes "sublist v (a @ c # b)" and "c \<notin> set v"
  shows "sublist v a \<or> sublist v b"
proof (cases "v = []")
  case False
  from assms(1) obtain p q where e: "a @ c # b = p @ v @ q" by (auto simp: sublist_def)
  from e consider us where "a = p @ us" "us @ c # b = v @ q" | us where "a @ us = p" "c # b = us @ v @ q"
    by (auto simp: append_eq_append_conv2)
  then show ?thesis
  proof cases
    case 1
    from 1(2) assms(2) have "prefix v us"
      by (auto simp: append_eq_append_conv2 Cons_eq_append_conv)
    with 1(1) show ?thesis by (auto simp: prefix_def sublist_def)
  next
    case 2
    with assms(2) False show ?thesis
      by (cases us) (auto simp: Cons_eq_append_conv sublist_def)
  qed
qed simp

text \<open>A text without angle brackets.\<close>

definition plain :: "string \<Rightarrow> bool" where
  "plain v \<longleftrightarrow> CHR ''<'' \<notin> set v \<and> CHR ''>'' \<notin> set v"

abbreviation bracket :: "string \<Rightarrow> string" where
  "bracket w \<equiv> CHR ''<'' # w @ ''>''"

lemma ReplaceAll_prefix:
  "prefix v (ReplaceAll s old (bracket w)) \<Longrightarrow> plain v \<Longrightarrow> prefix v s"
proof (induction s old "bracket w" arbitrary: v rule: ReplaceAll.induct)
  case (1 s old)
  show ?case
  proof (cases "old = [] \<or> s = []")
    case True
    with 1 show ?thesis by (auto simp: ReplaceAll.simps [of s])
  next
    case ne: False
    show ?thesis
    proof (cases "prefix old s")
      case True
      with 1 ne have "v = []" by (cases v) (auto simp: ReplaceAll.simps [of s] plain_def)
      then show ?thesis by simp
    next
      case False
      from ne obtain x xs where s: "s = x # xs" by (cases s) auto
      from 1(3) False ne have p: "prefix v (x # ReplaceAll xs old (bracket w))"
        by (simp add: s ReplaceAll.simps [of "x # xs"])
      show ?thesis
      proof (cases v)
        case (Cons y v')
        with p have "y = x" "prefix v' (ReplaceAll xs old (bracket w))" by auto
        moreover have "plain v'" using 1(4) Cons by (simp add: plain_def)
        ultimately show ?thesis using 1(2) [OF ne False, of v'] Cons s by simp
      qed simp
    qed
  qed
qed

lemma ReplaceAll_sublist:
  "sublist v (ReplaceAll s old (bracket w)) \<Longrightarrow> plain v \<Longrightarrow> sublist v s \<or> sublist v w"
proof (induction s old "bracket w" rule: ReplaceAll.induct)
  case (1 s old)
  show ?case
  proof (cases "old = [] \<or> s = []")
    case True
    with 1 show ?thesis by (auto simp: ReplaceAll.simps [of s])
  next
    case ne: False
    show ?thesis
    proof (cases "prefix old s")
      case True
      then obtain r where r: "s = old @ r" by (auto simp: prefix_def)
      from 1(3) ne True have "sublist v (([] :: string) @ CHR ''<'' # w @ CHR ''>'' # ReplaceAll r old (bracket w))"
        by (simp add: r ReplaceAll.simps [of "old @ r"])
      from sublist_sep [OF this] 1(4) have "v = [] \<or> sublist v (w @ CHR ''>'' # ReplaceAll r old (bracket w))"
        by (simp add: plain_def)
      then have "v = [] \<or> sublist v w \<or> sublist v (ReplaceAll r old (bracket w))"
        using sublist_sep [of v w "CHR ''>''"] 1(4) by (auto simp: plain_def)
      moreover have "sublist v (ReplaceAll r old (bracket w)) \<Longrightarrow> sublist v r \<or> sublist v w"
        using 1(1) [OF ne True] 1(4) by (simp add: r)
      ultimately show ?thesis by (auto simp: r sublist_append)
    next
      case False
      from ne obtain x xs where s: "s = x # xs" by (cases s) auto
      have e: "ReplaceAll s old (bracket w) = x # ReplaceAll xs old (bracket w)"
        using ne False by (simp add: s ReplaceAll.simps [of "x # xs"])
      from 1(3) consider "prefix v (ReplaceAll s old (bracket w))" | "sublist v (ReplaceAll xs old (bracket w))"
        unfolding e by (auto simp: sublist_Cons_right)
      then show ?thesis
      proof cases
        case 1
        from ReplaceAll_prefix [OF this \<open>plain v\<close>] show ?thesis by (simp add: prefix_imp_sublist)
      next
        case 2
        with 1(2) [OF ne False] 1(4) s show ?thesis by (auto simp: sublist_Cons_right)
      qed
    qed
  qed
qed

lemma ReplaceAll_removes:
  "old \<noteq> [] \<Longrightarrow> plain old \<Longrightarrow> \<not> sublist old w \<Longrightarrow> \<not> sublist old (ReplaceAll s old (bracket w))"
proof (induction s old "bracket w" rule: ReplaceAll.induct)
  case (1 s old)
  show ?case
  proof (cases "s = []")
    case True
    with 1 show ?thesis by (simp add: ReplaceAll.simps [of "[]"])
  next
    case False
    with 1 have ne: "\<not> (old = [] \<or> s = [])" by simp
    show ?thesis
    proof (cases "prefix old s")
      case True
      then obtain r where r: "s = old @ r" by (auto simp: prefix_def)
      have IH: "\<not> sublist old (ReplaceAll r old (bracket w))" using 1(1) [OF ne True] 1(3-5) by (simp add: r)
      have e: "ReplaceAll s old (bracket w) = [] @ CHR ''<'' # w @ CHR ''>'' # ReplaceAll r old (bracket w)"
        using ne True by (simp add: r ReplaceAll.simps [of "old @ r"])
      show ?thesis
      proof
        assume "sublist old (ReplaceAll s old (bracket w))"
        from sublist_sep [OF this [unfolded e]] 1(3,4)
        have "sublist old (w @ CHR ''>'' # ReplaceAll r old (bracket w))" by (simp add: plain_def)
        from sublist_sep [OF this] 1(4,5) IH show False by (simp add: plain_def)
      qed
    next
      case F: False
      from False obtain x xs where s: "s = x # xs" by (cases s) auto
      have e: "ReplaceAll s old (bracket w) = x # ReplaceAll xs old (bracket w)"
        using ne F by (simp add: s ReplaceAll.simps [of "x # xs"])
      have "\<not> sublist old (ReplaceAll xs old (bracket w))" using 1(2) [OF ne F] 1(3-5) s by simp
      moreover have "\<not> prefix old (ReplaceAll s old (bracket w))"
        using ReplaceAll_prefix 1(4) F by blast
      ultimately show ?thesis unfolding e by (simp add: sublist_Cons_right)
    qed
  qed
qed


lemma Replace1_sublist:
  "sublist v (Replace1 s old (bracket w)) \<Longrightarrow> plain v \<Longrightarrow> sublist v s \<or> sublist v w"
proof (induction s old "bracket w" rule: Replace1.induct)
  case (1 old)
  then show ?case using sublist_sep [of v "[]" "CHR ''<''" "w @ ''>''"] sublist_sep [of v w "CHR ''>''" "[]"]
    by (auto simp: plain_def split: if_splits)
next
  case (2 x xs old)
  have pre: "prefix v (Replace1 xs old (bracket w)) \<Longrightarrow> plain v \<Longrightarrow> prefix v xs" for v xs
  proof (induction xs arbitrary: v)
    case Nil
    then show ?case by (cases v) (auto simp: plain_def split: if_splits)
  next
    case (Cons y ys)
    then show ?case by (cases v) (auto simp: plain_def split: if_splits)
  qed
  show ?case
  proof (cases "prefix old (x # xs)")
    case True
    then obtain r where r: "x # xs = old @ r" by (auto simp: prefix_def)
    have "Replace1 (x # xs) old (bracket w) = bracket w @ drop (length old) (x # xs)" using True by simp
    also have "\<dots> = [] @ CHR ''<'' # w @ CHR ''>'' # r" using r by simp
    finally have "sublist v ([] @ CHR ''<'' # w @ CHR ''>'' # r)" using 2(2) by simp
    from sublist_sep [OF this] 2(3) sublist_sep [of v w "CHR ''>''" r]
    have "v = [] \<or> sublist v w \<or> sublist v r" by (auto simp: plain_def)
    then show ?thesis unfolding r by (auto simp: sublist_append)
  next
    case False
    with 2(2) consider "prefix v (x # Replace1 xs old (bracket w))" | "sublist v (Replace1 xs old (bracket w))"
      by (auto simp: sublist_Cons_right)
    then show ?thesis
    proof cases
      case 1
      with pre [of "tl v" xs] 2(3) have "prefix v (x # xs)" by (cases v) (auto simp: plain_def)
      then show ?thesis by (simp add: prefix_imp_sublist)
    next
      case b: 2
      with 2(1) False 2(3) show ?thesis by (auto simp: sublist_Cons_right)
    qed
  qed
qed

section \<open>Known values disappear\<close>

text \<open>A value that redaction can remove: it has no angle bracket or line feed, and does not
  happen to be part of the text of a placeholder.\<close>

definition removable :: "(string \<Rightarrow> string) \<Rightarrow> (string \<times> string) list \<Rightarrow> string \<Rightarrow> bool" where
  "removable sha256Hex entries v \<longleftrightarrow> v \<noteq> [] \<and> plain v \<and> LF \<notin> set v \<and>
     (\<forall>(_, k) \<in> set entries. \<not> sublist v (''agent-vault:'' @ k)) \<and>
     (\<forall>x. \<not> sublist v (''agent-vault:UNVAULTED:sha256:'' @ sha256Prefix sha256Hex x))"

lemma placeholder_bracket: "placeholderPrefix @ k @ ''>'' = bracket (''agent-vault:'' @ k)"
  by (simp add: placeholderPrefix_def)

lemma redact_known_keeps_away:
  assumes "\<not> sublist v content" and "plain v" and "\<forall>(_, k) \<in> set entries. \<not> sublist v (''agent-vault:'' @ k)"
  shows "\<not> sublist v (redact_known entries content)"
  using assms
proof (induction entries arbitrary: content)
  case (Cons e es)
  obtain u k where e: "e = (u, k)" by (cases e)
  have "\<not> sublist v (ReplaceAll content u (bracket (''agent-vault:'' @ k)))"
    using ReplaceAll_sublist [of v content u "''agent-vault:'' @ k"] Cons.prems by (auto simp: e)
  from Cons.IH [OF this Cons.prems(2)] Cons.prems(3) show ?case
    unfolding redact_known_def by (simp add: e placeholder_bracket del: append.simps)
qed (simp add: redact_known_def)

lemma redact_known_removes:
  assumes "(v, k) \<in> set entries" and "v \<noteq> []" and "plain v"
    and "\<forall>(_, k) \<in> set entries. \<not> sublist v (''agent-vault:'' @ k)"
  shows "\<not> sublist v (redact_known entries content)"
proof -
  from assms(1) obtain as bs where es: "entries = as @ (v, k) # bs" by (auto simp: in_set_conv_decomp)
  let ?c = "ReplaceAll (redact_known as content) v (bracket (''agent-vault:'' @ k))"
  have "redact_known entries content = redact_known bs ?c"
    by (simp add: redact_known_def es placeholder_bracket del: append.simps)
  moreover have "\<not> sublist v ?c" using assms es by (intro ReplaceAll_removes) auto
  with assms es have "\<not> sublist v (redact_known bs ?c)"
    by (intro redact_known_keeps_away) auto
  ultimately show ?thesis by simp
qed

lemma redact_candidate_keeps_away:
  assumes "\<not> sublist v r" and "removable sha256Hex entries v"
  shows "\<not> sublist v (redact_candidate sha256Hex known cand r)"
proof -
  let ?w = "''agent-vault:UNVAULTED:sha256:'' @ sha256Prefix sha256Hex (stripQuotes cand)"
  have "redact_candidate sha256Hex known cand r = r \<or>
      redact_candidate sha256Hex known cand r = Replace1 r cand (bracket ?w)"
    by (simp add: redact_candidate_def Let_def placeholderPrefix_def)
  moreover have "\<not> sublist v ?w" "plain v" using assms(2) unfolding removable_def by blast+
  ultimately show ?thesis using assms(1) Replace1_sublist [of v r cand ?w] by metis
qed

lemma redact_line_keeps_away:
  assumes "\<not> sublist v line" and "removable sha256Hex entries v"
  shows "\<not> sublist v (redact_line sha256Hex known line)"
proof -
  have "\<not> sublist v r \<Longrightarrow> \<not> sublist v (fold (redact_candidate sha256Hex known) cs r)" for cs r
    using redact_candidate_keeps_away [OF _ assms(2)] by (induction cs arbitrary: r) auto
  with assms(1) show ?thesis by (simp add: redact_line_def)
qed

lemma sublist_Join:
  assumes "sublist v (Join ls [c])" and "c \<notin> set v" and "v \<noteq> []"
  shows "\<exists>l \<in> set ls. sublist v l"
  using assms(1)
proof (induction ls)
  case (Cons l ls)
  show ?case
  proof (cases "ls = []")
    case False
    with Cons.prems have "sublist v (l @ c # Join ls [c])" by (simp add: Join_Cons)
    from sublist_sep [OF this assms(2)] Cons.IH show ?thesis by auto
  qed (use Cons.prems in simp)
qed (use assms(3) in simp)

lemma Split_sublist: "l \<in> set (Split s c) \<Longrightarrow> sublist l s"
proof (induction s arbitrary: l)
  case (Cons x xs)
  show ?case
  proof (cases "x = c")
    case True
    with Cons show ?thesis by (auto simp: sublist_Cons_right)
  next
    case False
    obtain y ys where e: "Split xs c = y # ys" by (cases "Split xs c") auto
    have "prefix y xs"
      using e
    proof (induction xs arbitrary: y ys)
      case (Cons z zs)
      then show ?case by (cases "z = c"; cases "Split zs c") auto
    qed simp
    with Cons.prems Cons.IH [of l] False e show ?thesis
      by (auto simp: sublist_Cons_right intro: prefix_imp_sublist)
  qed
qed simp

lemma redactUnvaulted_keeps_away:
  assumes "\<not> sublist v content" and "removable sha256Hex entries v"
  shows "\<not> sublist v (redactUnvaultedTokens sha256Hex content known)"
proof
  assume "sublist v (redactUnvaultedTokens sha256Hex content known)"
  then have j: "sublist v (Join (map (redact_line sha256Hex known) (Split content LF)) [LF])"
    by (simp add: redactUnvaultedTokens_def)
  have "LF \<notin> set v" "v \<noteq> []" using assms(2) by (simp_all add: removable_def)
  from sublist_Join [OF j this] obtain l where
    l: "l \<in> set (Split content LF)" "sublist v (redact_line sha256Hex known l)" by auto
  have "\<not> sublist v l" using Split_sublist [OF l(1)] assms(1) by (metis sublist_order.order.trans)
  from redact_line_keeps_away [OF this assms(2)] l(2) show False by simp
qed

lemma Redact_removes:
  assumes "(v, k) \<in> set secretValues" and "removable sha256Hex secretValues v"
  shows "\<not> Contains (Redact sha256Hex content secretValues) v"
proof -
  have "(v, k) \<in> set (redact_entries secretValues)"
    using assms by (auto simp: redact_entries_def removable_def)
  moreover have "set (redact_entries secretValues) \<subseteq> set secretValues" by (auto simp: redact_entries_def)
  ultimately have "\<not> sublist v (redact_known (redact_entries secretValues) content)"
    using assms(2) by (intro redact_known_removes) (auto simp: removable_def)
  from redactUnvaulted_keeps_away [OF this assms(2)] show ?thesis
    by (simp add: Redact_def Contains_iff_sublist)
qed

section \<open>Properties\<close>

text \<open>C24: Redaction removes every known value: if a value of the map has no angle bracket or line
  feed and is not itself part of a placeholder's text, it does not occur anywhere in the
  redacted content, in whatever order the code iterates over the map.\<close>

theorem redact_removes_known_values:
  assumes "(v, k) \<in> set secretValues" and "removable sha256Hex secretValues v"
  shows "\<not> Contains (Redact sha256Hex content secretValues) v"
  using assms by (rule Redact_removes)


theorem redact_removes_known_values_witness:
  "\<not> Contains (Redact (\<lambda>_. replicate 64 CHR ''0'') ''url=s3cret-s3cret'' [(''s3cret'', ''db'')]) ''s3cret''"
proof -
  have n: "\<not> sublist ''s3cret'' (''agent-vault:'' @ ''db'')"
    "\<not> sublist ''s3cret'' (''agent-vault:UNVAULTED:sha256:'' @ take 12 (replicate 64 CHR ''0''))"
    unfolding Contains_iff_sublist [symmetric] by code_simp+
  have "removable (\<lambda>_. replicate 64 CHR ''0'') [(''s3cret'', ''db'')] ''s3cret''"
    using n by (simp add: removable_def plain_def sha256Prefix_def unvaultedPrefixLen_def)
  then show ?thesis by (intro redact_removes_known_values) auto
qed

section \<open>The placeholders of a text\<close>

definition valid_key :: "string \<Rightarrow> bool" where
  "valid_key k \<longleftrightarrow> k \<noteq> [] \<and> (is_lower (hd k) \<or> is_digit (hd k)) \<and> (is_lower (last k) \<or> is_digit (last k)) \<and>
     list_all (\<lambda>c. is_lower c \<or> is_digit c \<or> c = CHR ''-'') k"

definition ph_body :: "string \<Rightarrow> string" where
  "ph_body k = ''agent-vault:'' @ k"

abbreviation placeholder :: "string \<Rightarrow> string" where
  "placeholder k \<equiv> bracket (ph_body k)"

lemma spans_key_rx [simp]: "spans key_rx i k t \<longleftrightarrow> valid_key k"
proof
  assume "spans key_rx i k t"
  then obtain x u where "k = x # u" "is_lower x \<or> is_digit x"
    "u = [] \<or> (\<exists>m y. u = m @ [y] \<and> list_all (\<lambda>c. is_lower c \<or> is_digit c \<or> c = CHR ''-'') m \<and> (is_lower y \<or> is_digit y))"
    by (auto simp: key_rx_def)
  then show "valid_key k" by (auto simp: valid_key_def)
next
  assume v: "valid_key k"
  then obtain x u where k: "k = x # u" by (cases k) (auto simp: valid_key_def)
  show "spans key_rx i k t"
  proof (cases "u = []")
    case True
    with v k show ?thesis by (simp add: key_rx_def valid_key_def)
  next
    case False
    then obtain m y where "u = m @ [y]" by (cases u rule: rev_cases) auto
    with v k show ?thesis by (auto simp: key_rx_def valid_key_def)
  qed
qed

lemma valid_key_no_gt: "valid_key k \<Longrightarrow> CHR ''>'' \<notin> set k"
proof -
  have "\<not> (is_lower CHR ''>'' \<or> is_digit CHR ''>'' \<or> CHR ''>'' = CHR ''-'')" by (simp add: byte_class_defs)
  then show "valid_key k \<Longrightarrow> CHR ''>'' \<notin> set k" unfolding valid_key_def list_all_iff by blast
qed

text \<open>An expression of the form of \<open>placeholderRE\<close>: a literal that starts with a bracket, a
  group without closing brackets, a closing bracket.\<close>

lemma spans_bracketed:
  assumes "\<And>i u t. spans g i u t \<longleftrightarrow> P u"
  shows "spans (Sq (lit b) (Sq (Grp g) (one c))) i u t \<longleftrightarrow> (\<exists>x. P x \<and> u = b @ x @ [c])"
proof -
  have "spans (Sq g (one c)) j v t \<longleftrightarrow> (\<exists>x. P x \<and> v = x @ [c])" for j v
    unfolding spans_Sq assms spans_one by blast
  then show ?thesis unfolding spans_Sq_lit spans_Sq_Grp by blast
qed

lemma find_bracketed:
  assumes w: "\<And>i u t. spans g i u t \<longleftrightarrow> P u" and p: "\<And>u. P u \<Longrightarrow> CHR ''>'' \<notin> set u"
    and k: "P k" and a: "CHR ''<'' \<notin> set a"
  shows "find_from (Sq (lit (CHR ''<'' # b)) (Sq (Grp g) (one CHR ''>''))) i (a @ (CHR ''<'' # b @ k @ ''>'') @ r) =
    Some (a, CHR ''<'' # b @ k @ ''>'', Some k, r)"
proof -
  let ?R = "Sq (lit (CHR ''<'' # b)) (Sq (Grp g) (one CHR ''>''))"
  let ?m = "CHR ''<'' # b @ k @ ''>''"
  have sp: "spans ?R j u t \<longleftrightarrow> (\<exists>x. P x \<and> u = CHR ''<'' # b @ x @ ''>'')" for j u t
    using spans_bracketed [of g P "CHR ''<'' # b" "CHR ''>''" j u t] w by simp
  have "spans ?R (i + length a) ?m r" unfolding sp using k by blast
  then have "find_from ?R i (a @ ?m @ r) \<noteq> None" unfolding find_from_None by blast
  then obtain p m c t where f: "find_from ?R i (a @ ?m @ r) = Some (p, m, c, t)"
    by (metis not_None_eq prod_cases4)
  have "\<not> length a < length p"
    using find_from_leftmost [OF f, of a] \<open>spans ?R (i + length a) ?m r\<close> by blast
  from find_from_run [OF f] obtain j where "(j, t, c) \<in> set (run ?R (i + length p) (m @ t) None)"
    by (metis list.set_intros(1))
  from run_group [OF _ this] obtain x u y where
    g: "m @ t = x @ u @ y @ t" "spans (lit (CHR ''<'' # b)) (i + length p) x (u @ y @ t)" "P u"
    "spans (one CHR ''>'') (i + length p + length x + length u) y t" "c = Some u"
    by (auto simp: w)
  then have m: "m = CHR ''<'' # b @ u @ ''>''" by (simp add: spans_lit [of "CHR ''<'' # b"] del: lit.simps)
  have e: "a @ ?m @ r = p @ m @ t" using find_from_Some [OF f] by simp
  have "p = a"
  proof (rule ccontr)
    assume "p \<noteq> a"
    with e \<open>\<not> length a < length p\<close> obtain q where "a = p @ q" "q \<noteq> []"
      by (metis append_eq_append_conv_if append_Nil2 append_eq_conv_conj linorder_not_less take_all)
    with e a m show False by (cases q) auto
  qed
  with e m have "k @ CHR ''>'' # r = u @ CHR ''>'' # t" by simp
  moreover have "CHR ''>'' \<notin> set k" "CHR ''>'' \<notin> set u" using p k g(3) by auto
  ultimately have "k = u \<and> r = t"
    by (metis IndexByte_append append_eq_append_conv list.inject option.inject)
  with \<open>p = a\<close> m f g(5) show ?thesis by simp
qed


lemma placeholderRE_shape:
  "placeholderRE = Sq (lit (CHR ''<'' # ''agent-vault:'')) (Sq (Grp key_rx) (one CHR ''>''))"
  by (simp add: placeholderRE_def placeholderPrefix_def)

lemma spans_placeholderRE: "spans placeholderRE i u t \<longleftrightarrow> (\<exists>k. valid_key k \<and> u = placeholder k)"
  unfolding placeholderRE_shape using spans_bracketed [of key_rx valid_key "CHR ''<'' # ''agent-vault:''" "CHR ''>''" i u t]
  by (simp add: ph_body_def del: lit.simps)

lemma find_placeholder:
  assumes "valid_key k" and "CHR ''<'' \<notin> set a"
  shows "find_from placeholderRE i (a @ placeholder k @ r) = Some (a, placeholder k, Some k, r)"
  using find_bracketed [of key_rx valid_key k a "''agent-vault:''" i r] assms valid_key_no_gt
  unfolding placeholderRE_shape ph_body_def by simp

lemma find_no_placeholder: "CHR ''<'' \<notin> set a \<Longrightarrow> find_from placeholderRE i a = None"
  unfolding find_from_None spans_placeholderRE by auto

lemma segments_placeholder:
  assumes "valid_key k" and "CHR ''<'' \<notin> set a"
  shows "\<exists>j. segments placeholderRE i (a @ placeholder k @ r) =
    (case segments placeholderRE j r of (ms, rest) \<Rightarrow> ((a, placeholder k, k) # ms, rest))"
proof -
  have "find_from placeholderRE i (a @ placeholder k @ r) = Some (a, placeholder k, Some k, r)"
    by (rule find_placeholder [OF assms])
  then show ?thesis
    by (intro exI [of _ "i + length a + length (placeholder k)"], subst segments.simps) simp
qed

text \<open>\<open>redacted get r s\<close>: \<open>r\<close> is \<open>s\<close> with pieces replaced by placeholders that \<open>get\<close> resolves
  to them.\<close>

inductive redacted :: "(string \<Rightarrow> string option) \<Rightarrow> string \<Rightarrow> string \<Rightarrow> bool" for get where
  redacted_text: "CHR ''<'' \<notin> set a \<Longrightarrow> redacted get a a"
| redacted_key: "CHR ''<'' \<notin> set a \<Longrightarrow> valid_key k \<Longrightarrow> get k = Some v \<Longrightarrow> redacted get r s \<Longrightarrow>
    redacted get (a @ placeholder k @ r) (a @ v @ s)"

abbreviation restore_step ::
  "(string \<Rightarrow> string option) \<Rightarrow> string list \<times> string list \<Rightarrow> string \<Rightarrow> string \<Rightarrow>
     string \<times> string list \<times> string list" where
  "restore_step get \<equiv> (\<lambda>(restored, missing) m key.
     (case get key of
        None \<Rightarrow> (m, (restored, missing @ [key]))
      | Some val \<Rightarrow> (val, (restored @ [key], missing))))"

lemma redacted_restores:
  assumes "redacted get r s"
  shows "\<exists>ms rest restored'. segments placeholderRE i r = (ms, rest) \<and>
    (\<exists>out. replace_matches (restore_step get) (restored, missing) ms = (out, (restored', missing)) \<and>
       out @ rest = s)"
  using assms
proof (induction arbitrary: i restored rule: redacted.induct)
  case (redacted_text a)
  then have "segments placeholderRE i a = ([], a)"
    by (subst segments.simps) (simp add: find_no_placeholder)
  then show ?case by simp
next
  case (redacted_key a k v r s)
  obtain j where j: "segments placeholderRE i (a @ placeholder k @ r) =
    (case segments placeholderRE j r of (ms, rest) \<Rightarrow> ((a, placeholder k, k) # ms, rest))"
    using segments_placeholder [OF redacted_key(2,1), of i r] by blast
  obtain ms rest restored' out where
    "segments placeholderRE j r = (ms, rest)"
    "replace_matches (restore_step get) (restored @ [k], missing) ms = (out, (restored', missing))" "out @ rest = s"
    using redacted_key(5) [of j "restored @ [k]"] by blast
  with j redacted_key(3) show ?case by simp
qed

lemma Restore_redacted:
  assumes "redacted get r s"
  shows "RR_Content (Restore r get) = s \<and> RR_Missing (Restore r get) = []"
  using redacted_restores [OF assms, of 0 "[]" "[]"]
  by (auto simp: Restore_def ReplaceAllStringFunc_def)

lemma redacted_prepend: "CHR ''<'' \<notin> set b \<Longrightarrow> redacted get r s \<Longrightarrow> redacted get (b @ r) (b @ s)"
proof (erule redacted.cases)
  fix a assume "CHR ''<'' \<notin> set b" "r = a" "s = a" "CHR ''<'' \<notin> set a"
  then show ?thesis by (auto intro: redacted_text)
next
  fix a k v r' s' assume "CHR ''<'' \<notin> set b" "r = a @ placeholder k @ r'" "s = a @ v @ s'"
    "CHR ''<'' \<notin> set a" "valid_key k" "get k = Some v" "redacted get r' s'"
  then show ?thesis using redacted_key [of "b @ a" k get v r' s'] by simp
qed

lemma redacted_append: "redacted get r1 s1 \<Longrightarrow> redacted get r2 s2 \<Longrightarrow> redacted get (r1 @ r2) (s1 @ s2)"
proof (induction rule: redacted.induct)
  case (redacted_key a k v r s)
  from redacted.redacted_key [OF redacted_key(1-3) redacted_key(5) [OF redacted_key(6)]] show ?case by simp
qed (rule redacted_prepend)

lemma redacted_ReplaceAll_text:
  assumes "CHR ''<'' \<notin> set t" and "valid_key k" and "get k = Some v" and "v \<noteq> []"
  shows "redacted get (ReplaceAll t v (placeholder k)) t"
  using assms
proof (induction "length t" arbitrary: t rule: less_induct)
  case less
  show ?case
  proof (cases "t = []")
    case True
    then show ?thesis by (simp add: ReplaceAll.simps [of "[]"] redacted_text)
  next
    case False
    show ?thesis
    proof (cases "prefix v t")
      case True
      then obtain r where r: "t = v @ r" by (auto simp: prefix_def)
      have "redacted get (ReplaceAll r v (placeholder k)) r"
        by (rule less(1)) (use r less(2-5) in auto)
      from redacted_key [OF _ less(3,4) this, of "[]"] r False less(5) show ?thesis
        by (simp add: ReplaceAll.simps [of "v @ r"])
    next
      case F: False
      obtain x xs where t: "t = x # xs" using False by (cases t) auto
      have "redacted get (ReplaceAll xs v (placeholder k)) xs"
        by (rule less(1)) (use t less(2-5) in auto)
      from redacted_prepend [OF _ this, of "[x]"] t F less(2,5) show ?thesis
        by (simp add: ReplaceAll.simps [of "x # xs"])
    qed
  qed
qed

lemma ReplaceAll_across:
  "c \<notin> set old \<Longrightarrow> old \<noteq> [] \<Longrightarrow> ReplaceAll (a @ c # b) old new = ReplaceAll a old new @ c # ReplaceAll b old new"
proof (induction "length a" arbitrary: a rule: less_induct)
  case less
  show ?case
  proof (cases a)
    case Nil
    have "\<not> prefix old (c # b)" using less(2,3) by (cases old) auto
    with less(3) Nil show ?thesis by (simp add: ReplaceAll.simps [of "c # b"] ReplaceAll.simps [of "[]"])
  next
    case (Cons x xs)
    show ?thesis
    proof (cases "prefix old a")
      case True
      then obtain r where r: "a = old @ r" by (auto simp: prefix_def)
      with less(1) [of r] less(2,3) show ?thesis
        by (simp add: ReplaceAll.simps [of "old @ r"] ReplaceAll.simps [of "old @ r @ c # b"])
    next
      case False
      have "\<not> prefix old (a @ c # b)"
        using False less(2) by (auto simp: prefix_def append_eq_append_conv2 Cons_eq_append_conv)
      with False less(1) [of xs] less(2,3) Cons show ?thesis
        by (simp add: ReplaceAll.simps [of "x # xs"] ReplaceAll.simps [of "x # xs @ c # b"])
    qed
  qed
qed

lemma redacted_ReplaceAll:
  assumes "redacted get r s" and "valid_key k" and "get k = Some v" and "v \<noteq> []" and "plain v"
    and "\<forall>k'. get k' \<noteq> None \<longrightarrow> \<not> sublist v (ph_body k')"
  shows "redacted get (ReplaceAll r v (placeholder k)) s"
  using assms(1)
proof (induction rule: redacted.induct)
  case (redacted_text a)
  then show ?case using assms(2-4) by (rule redacted_ReplaceAll_text)
next
  case (redacted_key a j u r s)
  have no: "ReplaceAll (ph_body j) v (placeholder k) = ph_body j"
    by (rule ReplaceAll_id) (use assms(6) redacted_key(3) in \<open>auto simp: Contains_iff_sublist\<close>)
  have "ReplaceAll (a @ placeholder j @ r) v (placeholder k) =
      ReplaceAll a v (placeholder k) @ CHR ''<'' # ReplaceAll (ph_body j @ CHR ''>'' # r) v (placeholder k)"
    using ReplaceAll_across [of "CHR ''<''" v a] assms(4,5) by (simp add: plain_def)
  also have "\<dots> = ReplaceAll a v (placeholder k) @ placeholder j @ ReplaceAll r v (placeholder k)"
    using ReplaceAll_across [of "CHR ''>''" v "ph_body j"] assms(4,5) by (simp add: plain_def no)
  finally have e: "ReplaceAll (a @ placeholder j @ r) v (placeholder k) =
      ReplaceAll a v (placeholder k) @ placeholder j @ ReplaceAll r v (placeholder k)" .
  have "redacted get ([] @ placeholder j @ ReplaceAll r v (placeholder k)) ([] @ u @ s)"
    by (rule redacted.redacted_key) (use redacted_key in auto)
  from redacted_append [OF redacted_ReplaceAll_text [of a k get v, OF redacted_key(1) assms(2-4)] this]
  show ?case unfolding e by simp
qed


lemma redacted_redact_known:
  assumes "\<forall>(v, k) \<in> set entries. v \<noteq> [] \<and> plain v \<and> valid_key k \<and> get k = Some v \<and>
      (\<forall>k'. get k' \<noteq> None \<longrightarrow> \<not> sublist v (ph_body k'))"
    and "redacted get r s"
  shows "redacted get (redact_known entries r) s"
  using assms
proof (induction entries arbitrary: r)
  case (Cons e es)
  obtain v k where e: "e = (v, k)" by (cases e)
  from Cons.prems(1) have "v \<noteq> [] \<and> plain v \<and> valid_key k \<and> get k = Some v \<and>
      (\<forall>k'. get k' \<noteq> None \<longrightarrow> \<not> sublist v (ph_body k'))" by (simp add: e)
  then have "redacted get (ReplaceAll r v (placeholder k)) s"
    using redacted_ReplaceAll [OF Cons.prems(2), of k v] by blast
  with Cons.IH Cons.prems(1) show ?case
    unfolding redact_known_def by (simp add: e placeholderPrefix_def ph_body_def)
qed (simp add: redact_known_def)



section \<open>What counts as a placeholder\<close>

definition hash_ref :: "string \<Rightarrow> bool" where
  "hash_ref h \<longleftrightarrow> 8 \<le> length h \<and> length h \<le> 16 \<and> list_all (\<lambda>c. c \<in> set ''abcdef0123456789'') h"

lemma spans_unvaultedRE:
  "spans unvaultedRE i u t \<longleftrightarrow> (\<exists>h. hash_ref h \<and> u = ''<agent-vault:UNVAULTED:sha256:'' @ h @ ''>'')"
  unfolding unvaultedRE_def
  using spans_bracketed [of "rep_range 8 16 lower_hex" hash_ref "''<agent-vault:UNVAULTED:sha256:''" "CHR ''>''" i u t]
  by (simp add: hash_ref_def del: lit.simps)

text \<open>An expression whose matches all begin with an opening bracket and have no other one
  matches a text as a whole exactly if \<open>FindString\<close> returns the text.\<close>

lemma FindString_whole:
  assumes "\<And>i u t. spans r i u t \<longleftrightarrow> P u"
    and "\<And>u v. P u \<Longrightarrow> P v \<Longrightarrow> prefix u v \<Longrightarrow> u = v" and "s \<noteq> []"
  shows "FindString r s = s \<longleftrightarrow> P s"
proof
  assume f: "FindString r s = s"
  with assms(3) obtain p m c t where q: "find_from r 0 s = Some (p, m, c, t)" "m = s"
    by (auto simp: FindString_def split: option.splits)
  with find_from_Some [OF q(1)] assms(1) show "P s" by auto
next
  assume P: "P s"
  then have "spans r (0 + length ([] :: string)) s []" using assms(1) by simp
  then have "find_from r 0 s \<noteq> None" unfolding find_from_None by (metis append_Nil append_Nil2)
  then obtain p m c t where q: "find_from r 0 s = Some (p, m, c, t)" by (metis not_None_eq prod_cases4)
  have "p = []"
    using find_from_leftmost [OF q, of "[]"] \<open>spans r (0 + length ([] :: string)) s []\<close> by fastforce
  moreover from find_from_Some [OF q] assms(1) have "P m" "s = p @ m @ t" by auto
  ultimately have "m = s" using assms(2) P by (auto simp: prefix_def)
  with q show "FindString r s = s" by (simp add: FindString_def)
qed


lemma bracket_prefix:
  assumes "prefix (bracket a) (bracket b)" and "CHR ''>'' \<notin> set a" and "CHR ''>'' \<notin> set b"
  shows "a = b"
proof -
  from assms(1) obtain r where r: "b @ ''>'' = a @ CHR ''>'' # r" by (auto simp: prefix_def)
  have "IndexByte (b @ CHR ''>'' # []) CHR ''>'' = Some (length b)" by (rule IndexByte_append [OF assms(3)])
  moreover have "IndexByte (a @ CHR ''>'' # r) CHR ''>'' = Some (length a)" by (rule IndexByte_append [OF assms(2)])
  ultimately have "length a = length b" by (simp add: r)
  with r show ?thesis by simp
qed

lemma placeholder_whole: "s \<noteq> [] \<Longrightarrow> FindString placeholderRE s = s \<longleftrightarrow> (\<exists>k. valid_key k \<and> s = placeholder k)"
proof (rule FindString_whole)
  fix u v assume "\<exists>k. valid_key k \<and> u = placeholder k" "\<exists>k. valid_key k \<and> v = placeholder k" "prefix u v"
  then obtain j k where jk: "u = placeholder j" "v = placeholder k" "CHR ''>'' \<notin> set j" "CHR ''>'' \<notin> set k"
    using valid_key_no_gt by blast
  have "CHR ''>'' \<notin> set (ph_body j)" "CHR ''>'' \<notin> set (ph_body k)" using jk(3,4) by (simp_all add: ph_body_def)
  from bracket_prefix [OF _ this] \<open>prefix u v\<close> show "u = v" unfolding jk by simp
qed (rule spans_placeholderRE)

lemma hash_ref_no_gt: "hash_ref h \<Longrightarrow> CHR ''>'' \<notin> set h"
proof -
  have "CHR ''>'' \<notin> set ''abcdef0123456789''" by simp
  then show "hash_ref h \<Longrightarrow> CHR ''>'' \<notin> set h" unfolding hash_ref_def list_all_iff by blast
qed

lemma unvaulted_whole:
  "s \<noteq> [] \<Longrightarrow> FindString unvaultedRE s = s \<longleftrightarrow> (\<exists>h. hash_ref h \<and> s = ''<agent-vault:UNVAULTED:sha256:'' @ h @ ''>'')"
proof (rule FindString_whole)
  fix u v assume "\<exists>h. hash_ref h \<and> u = ''<agent-vault:UNVAULTED:sha256:'' @ h @ ''>''"
    "\<exists>h. hash_ref h \<and> v = ''<agent-vault:UNVAULTED:sha256:'' @ h @ ''>''" "prefix u v"
  then obtain j k where jk: "u = bracket (''agent-vault:UNVAULTED:sha256:'' @ j)"
    "v = bracket (''agent-vault:UNVAULTED:sha256:'' @ k)" "CHR ''>'' \<notin> set j" "CHR ''>'' \<notin> set k"
    using hash_ref_no_gt by (auto simp del: prefix_Cons)
  have "CHR ''>'' \<notin> set (''agent-vault:UNVAULTED:sha256:'' @ j)"
    "CHR ''>'' \<notin> set (''agent-vault:UNVAULTED:sha256:'' @ k)" using jk(3,4) by simp_all
  from bracket_prefix [OF _ this] \<open>prefix u v\<close> show "u = v" unfolding jk(1,2) by blast
qed (rule spans_unvaultedRE)

text \<open>C35: \<open>IsValidPlaceholder\<close> accepts exactly the two placeholder forms: a vault key that
  starts and ends with a lower-case letter or digit and has only those and hyphens between,
  or an unvaulted reference with 8 to 16 lower-case hexadecimal digits.\<close>

theorem valid_placeholder_iff:
  "IsValidPlaceholder s \<longleftrightarrow>
     (\<exists>k. valid_key k \<and> s = ''<agent-vault:'' @ k @ ''>'') \<or>
     (\<exists>h. hash_ref h \<and> s = ''<agent-vault:UNVAULTED:sha256:'' @ h @ ''>'')"
proof (cases "s = []")
  case False
  with placeholder_whole [OF False] unvaulted_whole [OF False] show ?thesis
    by (simp add: IsValidPlaceholder_def ph_body_def)
qed (simp add: IsValidPlaceholder_def)

section \<open>The entropy test\<close>

lemma count_list_sum: "(\<Sum>c \<in> set xs. count_list xs c) = length xs"
  using sum_count_set [of xs "set xs"] by simp

lemma log_prod:
  assumes "finite A" and "\<And>c. c \<in> A \<Longrightarrow> 0 < f c"
  shows "log 2 (\<Prod>c \<in> A. f c) = (\<Sum>c \<in> A. log 2 (f c :: real))"
  using assms
proof (induction A rule: finite_induct)
  case (insert a A)
  then have "0 < f a" "0 < (\<Prod>c \<in> A. f c)" by (auto intro: prod_pos)
  then have "log 2 (f a * (\<Prod>c \<in> A. f c)) = log 2 (f a) + log 2 (\<Prod>c \<in> A. f c)"
    by (simp add: log_mult)
  with insert show ?case by simp
qed simp

lemma entropy_sum:
  fixes k :: "'a \<Rightarrow> nat"
  assumes "finite A" and "\<forall>c \<in> A. 0 < k c" and "n = (\<Sum>c \<in> A. k c)" and "0 < n"
  shows "3 \<le> - (\<Sum>c \<in> A. (real (k c) / real n) * log 2 (real (k c) / real n)) \<longleftrightarrow>
    8 ^ n * (\<Prod>c \<in> A. k c ^ k c) \<le> n ^ n"
proof -
  have n: "real n = (\<Sum>c \<in> A. real (k c))" using assms(3) by simp
  have "(\<Sum>c \<in> A. (real (k c) / real n) * log 2 (real (k c) / real n)) =
      (\<Sum>c \<in> A. (real (k c) * log 2 (real (k c)) - real (k c) * log 2 (real n)) / real n)"
    using assms(2,4) by (intro sum.cong) (simp_all add: log_divide diff_divide_distrib right_diff_distrib)
  also have "\<dots> = ((\<Sum>c \<in> A. real (k c) * log 2 (real (k c))) - real n * log 2 (real n)) / real n"
    by (simp add: sum_divide_distrib [symmetric] sum_subtractf sum_distrib_right [symmetric] n)
  finally have e0: "(\<Sum>c \<in> A. (real (k c) / real n) * log 2 (real (k c) / real n)) =
      ((\<Sum>c \<in> A. real (k c) * log 2 (real (k c))) - real n * log 2 (real n)) / real n" .
  have neg: "- ((a - b) / c) = (b - a) / c" for a b c :: real
    by (simp add: minus_divide_left)
  have e: "- (\<Sum>c \<in> A. (real (k c) / real n) * log 2 (real (k c) / real n)) =
      (real n * log 2 (real n) - (\<Sum>c \<in> A. real (k c) * log 2 (real (k c)))) / real n"
    unfolding e0 by (rule neg)
  have l8: "log 2 8 = (3 :: real)" using log_pow_cancel [of 2 3] by simp
  have "3 \<le> - (\<Sum>c \<in> A. (real (k c) / real n) * log 2 (real (k c) / real n)) \<longleftrightarrow>
      3 * real n + (\<Sum>c \<in> A. real (k c) * log 2 (real (k c))) \<le> real n * log 2 (real n)"
    unfolding e using assms(4) by (simp add: pos_le_divide_eq le_diff_eq)
  also have "\<dots> \<longleftrightarrow> log 2 (8 ^ n * (\<Prod>c \<in> A. real (k c) ^ k c)) \<le> log 2 (real n ^ n)"
  proof -
    have "log 2 (\<Prod>c \<in> A. real (k c) ^ k c) = (\<Sum>c \<in> A. real (k c) * log 2 (real (k c)))"
      using assms(1,2) by (subst log_prod) (auto intro!: sum.cong simp: log_nat_power)
    moreover have "0 < (\<Prod>c \<in> A. real (k c) ^ k c)" using assms(2) by (intro prod_pos) auto
    ultimately show ?thesis using assms(4) by (simp add: log_mult log_nat_power l8 mult.commute)
  qed
  also have "\<dots> \<longleftrightarrow> 8 ^ n * (\<Prod>c \<in> A. real (k c) ^ k c) \<le> real n ^ n"
    using assms(2,4) by (intro log_le_cancel_iff) (auto intro!: mult_pos_pos prod_pos)
  also have "\<dots> \<longleftrightarrow> real (8 ^ n * (\<Prod>c \<in> A. k c ^ k c)) \<le> real (n ^ n)" by simp
  also have "\<dots> \<longleftrightarrow> 8 ^ n * (\<Prod>c \<in> A. k c ^ k c) \<le> n ^ n" by (rule of_nat_le_iff)
  finally show ?thesis .
qed

lemma runes_nonempty: "s \<noteq> [] \<Longrightarrow> runes s \<noteq> []"
  by (simp add: runes_def runes_from.simps [of "map of_char s"] split: prod.splits)

text \<open>The integer comparison used for the entropy threshold is exact: it decides whether
  the Shannon entropy of the runes of the token is at least 3 bits.\<close>

theorem entropy_test_exact:
  "entropyAtLeast3 s \<longleftrightarrow> 3 \<le> shannonEntropy s"
proof (cases "s = []")
  case False
  let ?rs = "runes s"
  have ne: "?rs \<noteq> []" by (rule runes_nonempty [OF False])
  have "3 \<le> - (\<Sum>c \<in> set ?rs. (real (count_list ?rs c) / real (length ?rs)) * log 2 (real (count_list ?rs c) / real (length ?rs)))
      \<longleftrightarrow> 8 ^ length ?rs * (\<Prod>c \<in> set ?rs. count_list ?rs c ^ count_list ?rs c) \<le> length ?rs ^ length ?rs"
    using ne by (intro entropy_sum) (auto simp: count_list_sum count_list_0_iff neq0_conv [symmetric])
  moreover have "prod_list (map (\<lambda>c. count_list ?rs c ^ count_list ?rs c) (remdups ?rs)) =
      (\<Prod>c \<in> set ?rs. count_list ?rs c ^ count_list ?rs c)"
    by (metis distinct_remdups prod.distinct_set_conv_list set_remdups)
  ultimately show ?thesis using False by (simp add: entropyAtLeast3_def shannonEntropy_def Let_def)
qed (simp add: entropyAtLeast3_def shannonEntropy_def)

end
