(* ===== verification/Strength.thy ===== *)
theory Strength
  imports Prelude "HOL-Library.Log_Nat"
begin

text \<open>
  The strength signal of a secret (\<open>internal/strength/strength.go\<close>): bits estimated from
  the character classes in use, rounded to multiples of 8 and capped. The floating point
  logarithm is the real logarithm.
\<close>

definition bitsCap :: int where
  "bitsCap = 256"

definition is_symbol :: "char \<Rightarrow> bool" where
  "is_symbol c \<longleftrightarrow> 32 \<le> (of_char c :: nat) \<and> (of_char c :: nat) \<le> 126 \<and> \<not> is_alnum c"

definition is_other :: "char \<Rightarrow> bool" where
  "is_other c \<longleftrightarrow> \<not> is_alnum c \<and> \<not> is_symbol c"

text \<open>The size of the union of the classes that occur, at least 2.\<close>

definition charset :: "string \<Rightarrow> nat" where
  "charset s =
     max 2 ((if list_ex is_lower s then 26 else 0) + (if list_ex is_upper s then 26 else 0)
       + (if list_ex is_digit s then 10 else 0) + (if list_ex is_symbol s then 33 else 0)
       + (if list_ex is_other s then 128 else 0))"

definition EstimateBits :: "string \<Rightarrow> int" where
  "EstimateBits s =
     (if s = '''' then 0
      else min bitsCap (round (real (length s) * log 2 (real (charset s)) / 8) * 8))"

definition Tier :: "int \<Rightarrow> string" where
  "Tier bits =
     (if bits < 28 then ''weak'' else if bits < 60 then ''fair''
      else if bits < 128 then ''strong'' else ''excellent'')"

section \<open>The estimate in integers\<close>

definition bits_of :: "string \<Rightarrow> int" where
  "bits_of s =
     (if s = '''' then 0
      else min bitsCap (8 * int ((floorlog 2 (charset s ^ length s) + 3) div 8)))"

lemma charset_ge_2: "2 \<le> charset s"
  by (simp add: charset_def)

lemma round_div8:
  fixes x :: real
  shows "round (x / 8) = (\<lfloor>x\<rfloor> + 4) div 8"
proof -
  have "round (x / 8) = \<lfloor>(x + 4) / 8\<rfloor>" by (simp add: round_def add_divide_distrib)
  also have "\<dots> = \<lfloor>x + 4\<rfloor> div 8" using floor_divide_real_eq_div [of 8 "x + 4"] by simp
  finally show ?thesis by simp
qed

lemma estimate_bits: "EstimateBits s = bits_of s"
proof (cases "s = ''''")
  case False
  have c: "0 < charset s ^ length s" "2 \<le> charset s" using charset_ge_2 [of s] by simp_all
  have "real (length s) * log 2 (real (charset s)) = log 2 (real (charset s ^ length s))"
    using c by (simp add: log_nat_power)
  moreover have "int (floorlog 2 (charset s ^ length s)) = \<lfloor>log 2 (real (charset s ^ length s))\<rfloor> + 1"
    using c by (simp add: floorlog_def)
  ultimately show ?thesis using False
    by (simp add: EstimateBits_def bits_of_def round_div8 zdiv_int algebra_simps)
qed (simp add: EstimateBits_def bits_of_def)

text \<open>The estimate is exact in integer arithmetic: the bits reported are the multiple of 8
  nearest to the logarithm of the number of strings of that length over the classes in
  use, capped at 256, and can be computed from the bit length of that number.\<close>

theorem estimate_exact: "EstimateBits s = bits_of s"
  by (rule estimate_bits)

lemma charset_append: "charset s \<le> charset (s @ t)"
  by (simp add: charset_def)

lemma EstimateBits_append: "EstimateBits s \<le> EstimateBits (s @ t)"
proof (cases "s = []")
  case False
  have "0 \<le> floorlog 2 (charset s ^ length s)" by simp
  have "charset s ^ length s \<le> charset (s @ t) ^ length s" by (simp add: charset_append power_mono)
  also have "\<dots> \<le> charset (s @ t) ^ length (s @ t)"
    using charset_ge_2 [of "s @ t"] by (intro power_increasing) simp_all
  finally have "floorlog 2 (charset s ^ length s) \<le> floorlog 2 (charset (s @ t) ^ length (s @ t))"
    by (rule floorlog_mono)
  then have "(floorlog 2 (charset s ^ length s) + 3) div 8
      \<le> (floorlog 2 (charset (s @ t) ^ length (s @ t)) + 3) div 8"
    by (intro div_le_mono) simp
  with False show ?thesis unfolding estimate_bits bits_of_def by (simp add: min.coboundedI2 min_le_iff_disj)
qed (simp add: estimate_bits bits_of_def bitsCap_def)

lemma EstimateBits_nonneg: "0 \<le> EstimateBits s"
  by (simp add: estimate_bits bits_of_def bitsCap_def)

text \<open>The estimate reveals no more than a rung of a fixed ladder: it is a multiple of 8 between 0
  and 256, extending a secret never lowers it, and its tier is the one of the rung: only
  secrets of at most 24 bits are weak, only those of 128 bits and more excellent.\<close>

theorem estimate_rungs:
  "EstimateBits s \<in> (\<lambda>k. 8 * k) ` {0..32} \<and> EstimateBits s \<le> EstimateBits (s @ t) \<and>
   (Tier (EstimateBits s) = ''weak'' \<longleftrightarrow> EstimateBits s \<le> 24) \<and>
   (Tier (EstimateBits s) = ''excellent'' \<longleftrightarrow> 128 \<le> EstimateBits s)"
proof -
  have m: "EstimateBits s \<in> (\<lambda>k. 8 * k) ` {0..32}"
    by (auto simp: estimate_bits bits_of_def bitsCap_def min_def intro: rev_image_eqI [of 32])
  moreover from m have "Tier (EstimateBits s) = ''weak'' \<longleftrightarrow> EstimateBits s \<le> 24"
    by (auto simp: Tier_def)
  ultimately show ?thesis by (auto simp: EstimateBits_append Tier_def)
qed

end
