(* ===== verification/Aclrules.thy ===== *)
theory Aclrules
  imports Go_Regex Go_Os "HOL-Library.Char_ord" "HOL-Library.List_Lexorder"
begin

text \<open>
  The execution allowlist of Alice (\<open>internal/aclrules/aclrules.go\<close>): shell quoting and
  canonicalisation of an invocation, the rule file parser, matching, loading, and the
  literal rules that the auto-bless prompt and the migration write.

  \<open>regexp.Compile\<close> is the parameter \<open>compile\<close>, from pattern text to expression; matching
  is \<open>MatchString\<close> of theory Go_Regex. The reading of the file itself (\<open>os.Open\<close>) gives
  a \<open>file_bytes\<close> value.
\<close>

section \<open>Canonical invocations\<close>

definition shellSafeChars :: string where
  "shellSafeChars =
     ''abcdefghijklmnopqrstuvwxyzABCDEFGHIJKLMNOPQRSTUVWXYZ0123456789_-./:=@,''"

definition isShellSafe :: "string \<Rightarrow> bool" where
  "isShellSafe s \<longleftrightarrow> s \<noteq> [] \<and> list_all (\<lambda>c. c \<in> set shellSafeChars) s"

definition shellescape :: "string \<Rightarrow> string" where
  "shellescape s =
     (if isShellSafe s then s else [SQ] @ ReplaceAll s [SQ] [SQ, BSL, SQ, SQ] @ [SQ])"

definition Canonicalize :: "string \<Rightarrow> string list \<Rightarrow> string" where
  "Canonicalize cmd args = shellescape cmd @ concat (map (\<lambda>a. '' '' @ shellescape a) args)"

section \<open>Rules\<close>

record Rule =
  Regex :: rx
  EnvAllow :: "string list"
  EnvAny :: bool
  Label :: string
  Scope :: "string list"
  LineNo :: nat
  Raw :: string

datatype rule_error =
    TooManyFields nat nat
  | InvalidRegex nat string
  | EmptyEnvName nat
  | InvalidEnvName nat string
  | LabelWithoutHash nat string
  | EmptySurface nat
  | UnknownSurface nat string
  | ScanTokenTooLong

definition knownSurfaces :: "string list" where
  "knownSurfaces = [''cli'', ''mcp'']"

definition IsKnownSurface :: "string \<Rightarrow> bool" where
  "IsKnownSurface s \<longleftrightarrow> s \<in> set knownSurfaces"

definition AppliesTo :: "Rule \<Rightarrow> string \<Rightarrow> bool" where
  "AppliesTo r surface \<longleftrightarrow> surface \<in> set (Scope r)"

definition FilterBySurface :: "Rule list \<Rightarrow> string \<Rightarrow> Rule list" where
  "FilterBySurface rules surface = filter (\<lambda>r. AppliesTo r surface) rules"

text \<open>\<open>envNameRE\<close> of this package and \<open>envKeyRE\<close> of \<open>cmd/alice\<close>:
  \<open>^[A-Za-z_][A-Za-z0-9_]*$\<close>.\<close>

definition envNameRE :: rx where
  "envNameRE =
     Sq Bol (Sq (Cls (\<lambda>c. is_letter c \<or> c = CHR ''_'')) (Sq (Star (Cls (\<lambda>c. is_alnum c \<or> c = CHR ''_''))) Eol))"

fun surfaces_of :: "nat \<Rightarrow> string list \<Rightarrow> rule_error + string list" where
  "surfaces_of n [] = Inr []"
| "surfaces_of n (p # ps) =
     (let name = TrimSpace p in
      if name = [] then Inl (EmptySurface n)
      else if \<not> IsKnownSurface name then Inl (UnknownSurface n name)
      else (case surfaces_of n ps of Inl e \<Rightarrow> Inl e | Inr out \<Rightarrow> Inr (name # out)))"

definition parseScopeColumn :: "string \<Rightarrow> nat \<Rightarrow> rule_error + string list" where
  "parseScopeColumn col0 n =
     (let col = TrimSpace col0 in
      if col = [] then Inr [''cli''] else surfaces_of n (Split col CHR '',''))"

fun env_names_of :: "nat \<Rightarrow> string list \<Rightarrow> rule_error + string list" where
  "env_names_of n [] = Inr []"
| "env_names_of n (p # ps) =
     (let name = TrimSpace p in
      if name = [] then Inl (EmptyEnvName n)
      else if \<not> MatchString envNameRE name then Inl (InvalidEnvName n name)
      else (case env_names_of n ps of Inl e \<Rightarrow> Inl e | Inr out \<Rightarrow> Inr (name # out)))"

text \<open>The env column: the names and the \<open>*\<close> flag.\<close>

definition parseEnvColumn :: "string \<Rightarrow> nat \<Rightarrow> rule_error + (string list \<times> bool)" where
  "parseEnvColumn col0 n =
     (let col = TrimSpace col0 in
      if col = [] then Inr ([], False)
      else if col = ''*'' then Inr ([], True)
      else (case env_names_of n (Split col CHR '','') of Inl e \<Rightarrow> Inl e | Inr out \<Rightarrow> Inr (out, False)))"

definition parseLabelColumn :: "string \<Rightarrow> nat \<Rightarrow> rule_error + string" where
  "parseLabelColumn col n =
     (if col = [] then Inr []
      else if \<not> HasPrefix col ''#'' then Inl (LabelWithoutHash n col)
      else Inr (TrimSpace (TrimPrefix col ''#'')))"

text \<open>\<open>regexp.Compile\<close>: \<open>None\<close> for a pattern it rejects.\<close>

type_synonym compiler = "string \<Rightarrow> rx option"

definition field_at :: "string list \<Rightarrow> nat \<Rightarrow> string" where
  "field_at flds i = (if i < length flds then flds ! i else [])"

definition parseLine :: "compiler \<Rightarrow> string \<Rightarrow> nat \<Rightarrow> rule_error + Rule" where
  "parseLine compile line n =
     (let flds = Split line TAB in
      if 4 < length flds then Inl (TooManyFields n (length flds))
      else
        (case compile (''^(?:'' @ hd flds @ '')$'') of
           None \<Rightarrow> Inl (InvalidRegex n (hd flds))
         | Some rx \<Rightarrow>
             (case parseEnvColumn (field_at flds 1) n of
                Inl e \<Rightarrow> Inl e
              | Inr (envAllow, envAny) \<Rightarrow>
                  (case parseLabelColumn (field_at flds 2) n of
                     Inl e \<Rightarrow> Inl e
                   | Inr label \<Rightarrow>
                       (case parseScopeColumn (field_at flds 3) n of
                          Inl e \<Rightarrow> Inl e
                        | Inr scope \<Rightarrow>
                            Inr \<lparr>Regex = rx, EnvAllow = envAllow, EnvAny = envAny, Label = label,
                               Scope = scope, LineNo = n, Raw = line\<rparr>)))))"

text \<open>\<open>bufio.Scanner\<close> with lines of at most 4 KB: a carriage return before the line feed is
  dropped, and a buffer without a line feed that fills up ends the scan with an error.\<close>

definition scanBufSize :: nat where
  "scanBufSize = 4 * 1024"

definition dropCR :: "string \<Rightarrow> string" where
  "dropCR s = (if s \<noteq> [] \<and> last s = CR then butlast s else s)"

function scan_lines :: "string \<Rightarrow> string list \<times> bool" where
  "scan_lines s =
     (if s = [] then ([], False)
      else
        (case IndexByte (take scanBufSize s) LF of
           Some i \<Rightarrow> (case scan_lines (drop (Suc i) s) of (ls, e) \<Rightarrow> (dropCR (take i s) # ls, e))
         | None \<Rightarrow> if scanBufSize \<le> length s then ([], True) else ([dropCR s], False)))"
  by pat_completeness auto
termination
  by (relation "measure length") auto

declare scan_lines.simps [simp del]

text \<open>The rules and errors of the lines from line number \<open>n\<close> on.\<close>

fun parse_lines :: "compiler \<Rightarrow> nat \<Rightarrow> string list \<Rightarrow> Rule list \<times> rule_error list" where
  "parse_lines compile n [] = ([], [])"
| "parse_lines compile n (line # rest) =
     (case parse_lines compile (Suc n) rest of
        (rules, errs) \<Rightarrow>
          (let trimmed = TrimSpace line in
           if trimmed = [] \<or> HasPrefix trimmed ''#'' then (rules, errs)
           else (case parseLine compile line n of
                   Inl e \<Rightarrow> (rules, e # errs)
                 | Inr rule \<Rightarrow> (rule # rules, errs))))"

definition Parse :: "compiler \<Rightarrow> string \<Rightarrow> Rule list \<times> rule_error list" where
  "Parse compile s =
     (case scan_lines s of
        (lines, tooLong) \<Rightarrow>
          (case parse_lines compile 1 lines of
             (rules, errs) \<Rightarrow> (rules, if tooLong then errs @ [ScanTokenTooLong] else errs)))"

definition envAllowed :: "Rule \<Rightarrow> string list \<Rightarrow> bool" where
  "envAllowed r envKeys =
     (if EnvAny r then True
      else if envKeys = [] then True
      else if EnvAllow r = [] then False
      else list_all (\<lambda>k. k \<in> set (EnvAllow r)) envKeys)"

definition Matches :: "Rule \<Rightarrow> string \<Rightarrow> string list \<Rightarrow> bool" where
  "Matches r matchStr envKeys = (if \<not> MatchString (Regex r) matchStr then False else envAllowed r envKeys)"

definition isTrivialMatchEverything :: "rx \<Rightarrow> bool" where
  "isTrivialMatchEverything rx \<longleftrightarrow>
     MatchString rx '''' \<and> MatchString rx ''/'' \<and> MatchString rx ''../../etc/passwd''"

datatype load_error =
    ErrRulesMissing
  | OpenFailed
  | ParseFailed "rule_error list"
  | MatchesEverything nat string

definition LoadFile :: "compiler \<Rightarrow> file_bytes \<Rightarrow> load_error + Rule list" where
  "LoadFile compile f =
     (case f of
        Missing \<Rightarrow> Inl ErrRulesMissing
      | Unopenable \<Rightarrow> Inl OpenFailed
      | Content s \<Rightarrow>
          (case Parse compile s of
             (rules, errs) \<Rightarrow>
               if errs \<noteq> [] then Inl (ParseFailed errs)
               else (case find (\<lambda>r. isTrivialMatchEverything (Regex r)) rules of
                       Some r \<Rightarrow> Inl (MatchesEverything (LineNo r) (Raw r))
                     | None \<Rightarrow> Inr rules)))"

section \<open>Literal rules\<close>

text \<open>\<open>regexp.QuoteMeta\<close> escapes the ASCII punctuation that is special in an expression.\<close>

definition metachars :: string where
  "metachars = [BSL] @ ''.+*?()|[]{}^$''"

definition QuoteMeta :: "string \<Rightarrow> string" where
  "QuoteMeta s = concat (map (\<lambda>c. if c \<in> set metachars then [BSL, c] else [c]) s)"

definition quoteBody :: "string \<Rightarrow> string" where
  "quoteBody match =
     ReplaceAll (ReplaceAll (ReplaceAll (QuoteMeta match) [TAB] [BSL, CHR ''t''])
       [LF] [BSL, CHR ''n'']) [CR] [BSL, CHR ''r'']"

definition LiteralRule :: "string \<Rightarrow> string list \<Rightarrow> string list \<Rightarrow> string \<Rightarrow> string" where
  "LiteralRule cmd args envKeys label =
     (let rxBody = quoteBody (Canonicalize cmd args);
          envSorted = sort envKeys
      in ''^'' @ rxBody @ ''$''
         @ (if 0 < length envSorted \<or> label \<noteq> [] then [TAB] @ Join envSorted '','' else [])
         @ (if label \<noteq> [] then [TAB] @ ''# '' @ label else []))"


section \<open>Reading a canonical invocation back\<close>

text \<open>The rest of a single-quoted word, after its opening quote; a shell reads it the same
  way. The result is the word and the text after it.\<close>

fun read_quoted :: "string \<Rightarrow> (string \<times> string) option" where
  "read_quoted [] = None"
| "read_quoted (c # s) =
     (if c \<noteq> SQ then map_option (apfst ((#) c)) (read_quoted s)
      else (case s of
              a # b # d # t \<Rightarrow>
                if a = BSL \<and> b = SQ \<and> d = SQ then map_option (apfst ((#) SQ)) (read_quoted t)
                else Some ([], s)
            | _ \<Rightarrow> Some ([], s)))"

definition read_word :: "string \<Rightarrow> (string \<times> string) option" where
  "read_word s =
     (if s \<noteq> [] \<and> hd s = SQ then read_quoted (tl s)
      else Some (takeWhile (\<lambda>c. c \<in> set shellSafeChars) s, dropWhile (\<lambda>c. c \<in> set shellSafeChars) s))"

definition quote_char :: "char \<Rightarrow> string" where
  "quote_char c = (if c = SQ then [SQ, BSL, SQ, SQ] else [c])"

lemma shellescape_quoted:
  "\<not> isShellSafe s \<Longrightarrow> shellescape s = SQ # concat (map quote_char s) @ [SQ]"
  by (simp add: shellescape_def ReplaceAll_char quote_char_def [abs_def])

text \<open>What follows a word: the end, or a blank.\<close>

definition word_end :: "string \<Rightarrow> bool" where
  "word_end r \<longleftrightarrow> r = [] \<or> hd r = CHR '' ''"

lemma read_quoted_word:
  "word_end r \<Longrightarrow> read_quoted (concat (map quote_char s) @ SQ # r) = Some (s, r)"
proof (induction s)
  case Nil
  then show ?case by (cases r) (auto simp: word_end_def split: list.splits)
qed (simp add: quote_char_def)

lemma read_shellescape:
  assumes "word_end r"
  shows "read_word (shellescape s @ r) = Some (s, r)"
proof (cases "isShellSafe s")
  case True
  then have s: "s \<noteq> []" "list_all (\<lambda>c. c \<in> set shellSafeChars) s" by (auto simp: isShellSafe_def)
  have "hd s \<noteq> SQ" using s by (cases s) (auto simp: shellSafeChars_def)
  moreover have "\<not> (r \<noteq> [] \<and> hd r \<in> set shellSafeChars)"
    using assms by (auto simp: word_end_def shellSafeChars_def)
  then have "dropWhile (\<lambda>c. c \<in> set shellSafeChars) r = r \<and> takeWhile (\<lambda>c. c \<in> set shellSafeChars) r = []"
    by (cases r) auto
  ultimately show ?thesis using True s
    by (simp add: read_word_def shellescape_def list_all_iff)
next
  case False
  then show ?thesis using assms by (simp add: shellescape_quoted read_word_def read_quoted_word)
qed

lemma word_end_args: "word_end (concat (map (\<lambda>a. '' '' @ shellescape a) args))"
  by (cases args) (auto simp: word_end_def)

lemma args_inj:
  "concat (map (\<lambda>a. '' '' @ shellescape a) xs) = concat (map (\<lambda>a. '' '' @ shellescape a) ys) \<Longrightarrow> xs = ys"
proof (induction xs arbitrary: ys)
  case Nil
  then show ?case by (cases ys) auto
next
  case (Cons x xs)
  then obtain y ys' where ys: "ys = y # ys'" by (cases ys) auto
  with Cons.prems have "read_word (shellescape x @ concat (map (\<lambda>a. '' '' @ shellescape a) xs)) =
      read_word (shellescape y @ concat (map (\<lambda>a. '' '' @ shellescape a) ys'))" by simp
  then have "x = y \<and> concat (map (\<lambda>a. '' '' @ shellescape a) xs) = concat (map (\<lambda>a. '' '' @ shellescape a) ys')"
    by (simp add: read_shellescape word_end_args del: append.simps)
  with Cons.IH [of ys'] ys show ?case by simp
qed

lemma Canonicalize_inj: "Canonicalize c as = Canonicalize d bs \<Longrightarrow> c = d \<and> as = bs"
proof -
  assume e: "Canonicalize c as = Canonicalize d bs"
  then have "read_word (Canonicalize c as) = read_word (Canonicalize d bs)" by simp
  then have "c = d \<and> concat (map (\<lambda>a. '' '' @ shellescape a) as) = concat (map (\<lambda>a. '' '' @ shellescape a) bs)"
    unfolding Canonicalize_def by (simp add: read_shellescape word_end_args del: append.simps)
  with args_inj [of as bs] show ?thesis by simp
qed

lemma shellescape_nonempty: "shellescape s \<noteq> []"
  by (simp add: shellescape_def isShellSafe_def)

lemma Canonicalize_nonempty: "Canonicalize c as \<noteq> []"
  by (simp add: Canonicalize_def shellescape_nonempty)

section \<open>Quoting\<close>

definition quote_rx :: "char \<Rightarrow> string" where
  "quote_rx c =
     (if c \<in> set metachars then [BSL, c] else if c = TAB then [BSL, CHR ''t'']
      else if c = LF then [BSL, CHR ''n''] else if c = CR then [BSL, CHR ''r''] else [c])"

lemma quoteBody_map: "quoteBody s = concat (map quote_rx s)"
proof -
  have "quoteBody s = concat (map (\<lambda>x. concat (map (\<lambda>y. concat (map (\<lambda>z. if z = CR then [BSL, CHR ''r''] else [z])
      (if y = LF then [BSL, CHR ''n''] else [y]))) (concat (map (\<lambda>w. if w = TAB then [BSL, CHR ''t''] else [w])
      (if x \<in> set metachars then [BSL, x] else [x]))))) s)"
    by (simp add: quoteBody_def QuoteMeta_def ReplaceAll_char concat_map_concat)
  moreover have "concat (map (\<lambda>y. concat (map (\<lambda>z. if z = CR then [BSL, CHR ''r''] else [z])
      (if y = LF then [BSL, CHR ''n''] else [y]))) (concat (map (\<lambda>w. if w = TAB then [BSL, CHR ''t''] else [w])
      (if x \<in> set metachars then [BSL, x] else [x])))) = quote_rx x" for x
    by (auto simp: quote_rx_def metachars_def)
  ultimately show ?thesis by simp
qed

lemma quoteBody_clean: "TAB \<notin> set (quoteBody s)" "LF \<notin> set (quoteBody s)" "CR \<notin> set (quoteBody s)"
proof -
  have "TAB \<notin> set (quote_rx c) \<and> LF \<notin> set (quote_rx c) \<and> CR \<notin> set (quote_rx c)" for c
    by (simp add: quote_rx_def metachars_def)
  then show "TAB \<notin> set (quoteBody s)" "LF \<notin> set (quoteBody s)" "CR \<notin> set (quoteBody s)"
    by (auto simp: quoteBody_map)
qed

text \<open>The documented behaviour of \<open>Compile\<close> on a quoted ASCII text between anchors: the
  expression matches that text and no other.\<close>

definition compiles_quoted :: "compiler \<Rightarrow> bool" where
  "compiles_quoted compile \<longleftrightarrow>
     (\<forall>s. is_ascii s \<longrightarrow>
        (\<exists>rx. compile (''^(?:'' @ ''^'' @ quoteBody s @ ''$'' @ '')$'') = Some rx \<and>
           (\<forall>t. MatchString rx t \<longleftrightarrow> t = s)))"

text \<open>A compiler for exactly such patterns.\<close>

fun unquote_rx :: "string \<Rightarrow> string option" where
  "unquote_rx [] = Some []"
| "unquote_rx (c # s) =
     (if c = BSL then
        (case s of
           [] \<Rightarrow> None
         | d # t \<Rightarrow> map_option ((#) (if d = CHR ''t'' then TAB else if d = CHR ''n'' then LF
                     else if d = CHR ''r'' then CR else d)) (unquote_rx t))
      else if c \<in> set metachars then None
      else map_option ((#) c) (unquote_rx s))"

definition literal_compile :: compiler where
  "literal_compile p =
     (if HasPrefix p ''^(?:^'' \<and> HasSuffix p ''$)$'' \<and> 8 \<le> length p then
        map_option (\<lambda>s. anchored (lit s)) (unquote_rx (take (length p - 8) (drop 5 p)))
      else None)"

lemma unquote_quoted: "unquote_rx (concat (map quote_rx s)) = Some s"
proof (induction s)
  case (Cons c s)
  then show ?case
    by (auto simp: quote_rx_def metachars_def)
qed simp

lemma literal_compile_ok: "compiles_quoted literal_compile"
proof -
  have "literal_compile (''^(?:'' @ ''^'' @ quoteBody s @ ''$'' @ '')$'') = Some (anchored (lit s))" for s
    by (simp add: literal_compile_def HasPrefix_def HasSuffix_def quoteBody_map unquote_quoted suffix_def)
  then show ?thesis by (auto simp: compiles_quoted_def MatchString_anchored)
qed


section \<open>Reading a literal rule back\<close>

text \<open>An environment variable name, as the regular expression accepts it.\<close>

definition env_name :: "string \<Rightarrow> bool" where
  "env_name s \<longleftrightarrow> s \<noteq> [] \<and> \<not> is_digit (hd s) \<and> list_all (\<lambda>c. is_alnum c \<or> c = CHR ''_'') s"

lemma envNameRE_iff: "MatchString envNameRE s \<longleftrightarrow> env_name s"
proof -
  have "MatchString envNameRE s \<longleftrightarrow>
      (\<exists>a u. s = a # u \<and> (is_letter a \<or> a = CHR ''_'') \<and> list_all (\<lambda>c. is_alnum c \<or> c = CHR ''_'') u)"
    by (auto simp: MatchString_iff envNameRE_def)
  also have "\<dots> \<longleftrightarrow> env_name s"
    by (cases s) (auto simp: env_name_def byte_class_defs)
  finally show ?thesis .
qed

lemma env_char_graph: "is_alnum c \<or> c = CHR ''_'' \<Longrightarrow> graph c \<and> c \<noteq> CHR '','' \<and> c \<noteq> CHR ''*'' \<and> c \<noteq> TAB \<and> c \<noteq> LF \<and> c \<noteq> CR"
  by (auto simp: byte_class_defs graph_def)

lemma env_name_graph: "env_name s \<Longrightarrow> list_all graph s"
  unfolding env_name_def list_all_iff using env_char_graph by blast

lemma env_name_no: "env_name s \<Longrightarrow> CHR '','' \<notin> set s \<and> CHR ''*'' \<notin> set s \<and> TAB \<notin> set s \<and> LF \<notin> set s \<and> CR \<notin> set s"
  unfolding env_name_def list_all_iff using env_char_graph by blast

lemma env_names_of_ok: "\<forall>e \<in> set es. env_name e \<Longrightarrow> env_names_of n es = Inr es"
proof (induction es)
  case (Cons e es)
  then have "TrimSpace e = e" "e \<noteq> []"
    using env_name_graph [of e] by (simp_all add: TrimSpace_all_graph env_name_def)
  with Cons show ?case by (simp add: envNameRE_iff)
qed simp

lemma Join_set: "set (Join es sep) \<subseteq> \<Union> (set ` set es) \<union> set sep"
proof (induction es)
  case (Cons e es)
  then show ?case by (cases es) (auto simp: Join_Cons)
qed simp

lemma env_csv_char:
  assumes "\<forall>e \<in> set es. env_name e" and "c \<in> set (Join es '','')"
  shows "graph c \<and> c \<noteq> CHR ''*'' \<and> c \<noteq> TAB \<and> c \<noteq> LF \<and> c \<noteq> CR"
proof -
  from Join_set assms(2) consider e where "e \<in> set es" "c \<in> set e" | "c = CHR '',''" by fastforce
  then show ?thesis
  proof cases
    case 1
    with assms(1) have "is_alnum c \<or> c = CHR ''_''" by (auto simp: env_name_def list_all_iff)
    then show ?thesis using env_char_graph by blast
  qed (simp add: graph_def)
qed

lemma env_csv_graph: "\<forall>e \<in> set es. env_name e \<Longrightarrow> list_all graph (Join es '','')"
  unfolding list_all_iff using env_csv_char by blast

lemma env_csv_no:
  assumes "\<forall>e \<in> set es. env_name e"
  shows "TAB \<notin> set (Join es '','')" "LF \<notin> set (Join es '','')" "CR \<notin> set (Join es '','')"
    "Join es '','' \<noteq> ''*''" "es \<noteq> [] \<Longrightarrow> Join es '','' \<noteq> []"
proof -
  show "TAB \<notin> set (Join es '','')" "LF \<notin> set (Join es '','')" "CR \<notin> set (Join es '','')"
    using env_csv_char [OF assms] by blast+
  show "Join es '','' \<noteq> ''*''" using env_csv_char [OF assms, of "CHR ''*''"] by auto
  show "es \<noteq> [] \<Longrightarrow> Join es '','' \<noteq> []"
    using assms by (cases es; cases "tl es") (auto simp: Join_Cons env_name_def)
qed

lemma parseEnvColumn_csv:
  assumes "\<forall>e \<in> set es. env_name e"
  shows "parseEnvColumn (Join es '','') n = Inr (es, False)"
proof (cases "es = []")
  case False
  have "TrimSpace (Join es '','') = Join es '',''"
    by (rule TrimSpace_all_graph [OF env_csv_graph [OF assms]])
  moreover have "Split (Join es '','') CHR '','' = es"
    using False assms env_name_no by (intro Split_Join) auto
  ultimately show ?thesis
    using env_csv_no(4,5) [OF assms] False env_names_of_ok [OF assms] by (simp add: parseEnvColumn_def)
qed (simp add: parseEnvColumn_def)

lemma parseLabelColumn_label: "parseLabelColumn (''# '' @ label) n = Inr (TrimSpace label)"
  by (simp add: parseLabelColumn_def HasPrefix_def TrimPrefix_def)

lemma sorted_names: "\<forall>e \<in> set es. P e \<Longrightarrow> \<forall>e \<in> set (sort es). P e"
  by simp

text \<open>The columns of a literal rule.\<close>

lemma LiteralRule_fields:
  assumes "\<forall>e \<in> set es. env_name e" and "TAB \<notin> set label"
  shows "Split (LiteralRule cmd args es label) TAB =
    (let q = ''^'' @ quoteBody (Canonicalize cmd args) @ ''$'' in
     if es = [] \<and> label = [] then [q]
     else if label = [] then [q, Join (sort es) '','']
     else [q, Join (sort es) '','', ''# '' @ label])"
proof -
  let ?q = "''^'' @ quoteBody (Canonicalize cmd args) @ ''$''"
  have q: "TAB \<notin> set ?q" using quoteBody_clean(1) by simp
  have e: "TAB \<notin> set (Join (sort es) '','')" by (rule env_csv_no(1)) (use assms(1) in simp)
  have s: "Split (?q @ TAB # Join (sort es) '','') TAB = [?q, Join (sort es) '','']"
    using Split_append_sep [OF q] Split_id [OF e] by simp
  have l: "Split (?q @ TAB # Join (sort es) '','' @ TAB # ''# '' @ label) TAB = [?q, Join (sort es) '','', ''# '' @ label]"
    using Split_append_sep [OF q] Split_append_sep [OF e] Split_id [of TAB "''# '' @ label"] assms(2) by simp
  have n: "sort es = [] \<longleftrightarrow> es = []" by (metis length_0_conv length_sort)
  show ?thesis
    using Split_id [OF q] s l n by (simp add: LiteralRule_def Let_def)
qed

lemma parseLine_LiteralRule:
  assumes "compiles_quoted compile" and "is_ascii (Canonicalize cmd args)"
    and "\<forall>e \<in> set es. env_name e" and "TAB \<notin> set label"
  obtains rx where "parseLine compile (LiteralRule cmd args es label) n =
      Inr \<lparr>Regex = rx, EnvAllow = sort es, EnvAny = False, Label = TrimSpace label,
           Scope = [''cli''], LineNo = n, Raw = LiteralRule cmd args es label\<rparr>"
    and "\<And>t. MatchString rx t \<longleftrightarrow> t = Canonicalize cmd args"
proof -
  let ?q = "''^'' @ quoteBody (Canonicalize cmd args) @ ''$''"
  obtain rx where rx: "compile (''^(?:'' @ ?q @ '')$'') = Some rx"
    "\<And>t. MatchString rx t \<longleftrightarrow> t = Canonicalize cmd args"
    using assms(1,2) unfolding compiles_quoted_def by (metis append.assoc)
  have e: "parseEnvColumn (Join (sort es) '','') n = Inr (sort es, False)"
    by (rule parseEnvColumn_csv) (use assms(3) in simp)
  have e0: "parseEnvColumn [] n = Inr ([], False)" by (simp add: parseEnvColumn_def)
  have s0: "parseScopeColumn [] n = Inr [''cli'']" by (simp add: parseScopeColumn_def)
  have l0: "parseLabelColumn [] n = Inr []" by (simp add: parseLabelColumn_def)
  have "parseLine compile (LiteralRule cmd args es label) n =
      Inr \<lparr>Regex = rx, EnvAllow = sort es, EnvAny = False, Label = TrimSpace label,
           Scope = [''cli''], LineNo = n, Raw = LiteralRule cmd args es label\<rparr>"
    using rx(1) e e0 s0 l0 parseLabelColumn_label [of label n]
    by (auto simp: parseLine_def LiteralRule_fields [OF assms(3,4)] Let_def field_at_def)
  with rx(2) show thesis using that by blast
qed


lemma literal_rule_matches:
  assumes "\<And>t. MatchString (Regex r) t \<longleftrightarrow> t = Canonicalize cmd args"
    and "EnvAllow r = sort es" and "\<not> EnvAny r"
  shows "Matches r (Canonicalize cmd' args') ks \<longleftrightarrow> cmd' = cmd \<and> args' = args \<and> set ks \<subseteq> set es"
proof -
  have "envAllowed r ks \<longleftrightarrow> set ks \<subseteq> set es"
  proof (cases "es = []")
    case True
    with assms(2,3) show ?thesis by (auto simp: envAllowed_def)
  next
    case False
    then have "sort es \<noteq> []" by (metis length_0_conv length_sort)
    with assms(2,3) show ?thesis by (auto simp: envAllowed_def list_all_iff)
  qed
  with assms(1) Canonicalize_inj show ?thesis by (auto simp: Matches_def)
qed

lemma literal_not_trivial: "(\<And>t. MatchString rx t \<longleftrightarrow> t = Canonicalize cmd args) \<Longrightarrow> \<not> isTrivialMatchEverything rx"
  using Canonicalize_nonempty by (simp add: isTrivialMatchEverything_def)

section \<open>Appending a line to a rules file\<close>

lemma IndexByte_take:
  "IndexByte s c = Some i \<Longrightarrow> i < n \<Longrightarrow> IndexByte (take n s) c = Some i"
proof (induction s arbitrary: i n)
  case (Cons x xs)
  then show ?case by (cases n; cases i) (auto split: if_splits)
qed simp

lemma IndexByte_take_eq:
  "IndexByte (take n s) c = Some i \<Longrightarrow> IndexByte (take n (s @ t)) c = Some i"
proof (induction s arbitrary: i n)
  case (Cons x xs)
  then show ?case by (cases n; cases i) (auto split: if_splits)
qed simp

text \<open>A file that is empty or ends with a line feed: what is appended is scanned on its own.\<close>

definition ends_line :: "string \<Rightarrow> bool" where
  "ends_line s \<longleftrightarrow> s = [] \<or> last s = LF"

lemma ends_line_drop: "ends_line s \<Longrightarrow> ends_line (drop n s)"
  by (cases "n < length s") (auto simp: ends_line_def)

lemma scan_lines_append:
  assumes "ends_line s" and "\<not> snd (scan_lines s)"
  shows "scan_lines (s @ t) = (fst (scan_lines s) @ fst (scan_lines t), snd (scan_lines t))"
  using assms
proof (induction s rule: scan_lines.induct)
  case (1 s)
  show ?case
  proof (cases "s = []")
    case True
    then show ?thesis by (simp add: scan_lines.simps [of "[]"])
  next
    case False
    show ?thesis
    proof (cases "IndexByte (take scanBufSize s) LF")
      case None
      with 1(3) False have l: "length s < scanBufSize"
        by (subst (asm) scan_lines.simps) (auto split: if_splits)
      with None have "LF \<notin> set s" by (simp add: IndexByte_None)
      moreover have "last s = LF" using 1(2) False by (simp add: ends_line_def)
      ultimately show ?thesis using False by (metis last_in_set)
    next
      case (Some i)
      have n: "\<not> snd (scan_lines (drop (Suc i) s))"
        using 1(3) unfolding scan_lines.simps [of s] using False Some by (simp split: prod.splits)
      have i: "i < length s" using IndexByte_Some [OF Some] by simp
      have IH: "scan_lines (drop (Suc i) s @ t) =
          (fst (scan_lines (drop (Suc i) s)) @ fst (scan_lines t), snd (scan_lines t))"
        by (rule "1.IH" [OF False Some ends_line_drop [OF 1(2)] n])
      have "scan_lines (s @ t) = (dropCR (take i s) # fst (scan_lines (drop (Suc i) s @ t)), snd (scan_lines (drop (Suc i) s @ t)))"
        using False IndexByte_take_eq [OF Some, of t] i
        by (subst scan_lines.simps) (simp split: prod.splits)
      moreover have "fst (scan_lines s) = dropCR (take i s) # fst (scan_lines (drop (Suc i) s))"
        using False Some by (subst scan_lines.simps) (simp split: prod.splits)
      ultimately show ?thesis by (simp add: IH)
    qed
  qed
qed

lemma scan_one_line:
  assumes "LF \<notin> set line" and "length line < scanBufSize"
  shows "scan_lines (line @ [LF]) = ([dropCR line], False)"
proof -
  have "IndexByte (line @ LF # []) LF = Some (length line)" by (rule IndexByte_append [OF assms(1)])
  then have "IndexByte (take scanBufSize (line @ [LF])) LF = Some (length line)"
    by (intro IndexByte_take [OF _ assms(2)]) simp
  then show ?thesis by (subst scan_lines.simps) (simp add: scan_lines.simps [of "[]"])
qed

lemma parse_lines_append:
  "parse_lines compile n (xs @ ys) =
    (fst (parse_lines compile n xs) @ fst (parse_lines compile (n + length xs) ys),
     snd (parse_lines compile n xs) @ snd (parse_lines compile (n + length xs) ys))"
proof (induction xs arbitrary: n)
  case (Cons x xs)
  then show ?case by (simp add: Let_def split: prod.splits sum.splits)
qed (simp split: prod.splits)

definition line_count :: "string \<Rightarrow> nat" where
  "line_count s = length (fst (scan_lines s))"

lemma LoadFile_Inr:
  "LoadFile compile (Content s) = Inr rules \<longleftrightarrow>
   \<not> snd (scan_lines s) \<and> parse_lines compile 1 (fst (scan_lines s)) = (rules, []) \<and>
   (\<forall>r \<in> set rules. \<not> isTrivialMatchEverything (Regex r))"
  by (auto simp: LoadFile_def Parse_def find_None_iff split: prod.splits option.splits if_splits dest!: find_SomeD)

lemma LoadFile_append_line:
  assumes "LoadFile compile (Content s) = Inr rules" and "ends_line s"
    and "LF \<notin> set line" and "CR \<notin> set line" and "length line < scanBufSize" and "graph (hd line)"
    and "line \<noteq> []" and "hd line \<noteq> CHR ''#''"
    and "parseLine compile line (Suc (line_count s)) = Inr r" and "\<not> isTrivialMatchEverything (Regex r)"
  shows "LoadFile compile (Content (s @ line @ [LF])) = Inr (rules @ [r])"
proof -
  have a: "\<not> snd (scan_lines s)" "parse_lines compile 1 (fst (scan_lines s)) = (rules, [])"
    "\<forall>r \<in> set rules. \<not> isTrivialMatchEverything (Regex r)"
    using assms(1) by (auto simp: LoadFile_Inr)
  have d: "dropCR line = line"
    using assms(4,7) by (auto simp: dropCR_def dest: last_in_set)
  obtain c w where line: "line = c # w" using assms(7) by (cases line) auto
  have "\<exists>t. TrimSpace line = c # t"
    unfolding line using assms(6) by (intro TrimSpace_graph_hd) (simp add: line)
  then have t: "TrimSpace line \<noteq> []" "\<not> HasPrefix (TrimSpace line) ''#''"
    using assms(8) by (auto simp: HasPrefix_def line)
  have "parse_lines compile (1 + line_count s) [line] = ([r], [])"
    using t assms(9) by simp
  then show ?thesis
    using a assms(10)
    by (simp add: LoadFile_Inr scan_lines_append [OF assms(2) a(1)] scan_one_line [OF assms(3,5)] d
        parse_lines_append line_count_def)
qed

lemma LiteralRule_line:
  assumes "\<forall>e \<in> set es. env_name e" and "LF \<notin> set label" and "CR \<notin> set label"
  shows "LiteralRule cmd args es label \<noteq> []" "hd (LiteralRule cmd args es label) = CHR ''^''"
    "LF \<notin> set (LiteralRule cmd args es label)" "CR \<notin> set (LiteralRule cmd args es label)"
proof -
  have e: "\<forall>e \<in> set (sort es). env_name e" using assms(1) by simp
  show "LiteralRule cmd args es label \<noteq> []" "hd (LiteralRule cmd args es label) = CHR ''^''"
    by (simp_all add: LiteralRule_def Let_def)
  show "LF \<notin> set (LiteralRule cmd args es label)" "CR \<notin> set (LiteralRule cmd args es label)"
    using env_csv_no(2,3) [OF e] assms(2,3) quoteBody_clean by (auto simp: LiteralRule_def Let_def)
qed

text \<open>A file of comments.\<close>

definition comment_line :: "string \<Rightarrow> bool" where
  "comment_line l \<longleftrightarrow> (l = [] \<or> hd l = CHR ''#'') \<and> LF \<notin> set l \<and> CR \<notin> set l \<and> length l < scanBufSize"

lemma comment_line_skipped: "comment_line l \<Longrightarrow> TrimSpace l = [] \<or> HasPrefix (TrimSpace l) ''#''"
proof (cases l)
  case (Cons c w)
  assume "comment_line l"
  with Cons have c: "c = CHR ''#''" by (simp add: comment_line_def)
  have "graph CHR ''#''" by (simp add: graph_def)
  from TrimSpace_graph_hd [OF this, of w] show ?thesis by (auto simp: Cons c HasPrefix_def)
qed simp

lemma comment_lines_load:
  assumes "\<forall>l \<in> set ls. comment_line l"
  shows "scan_lines (concat (map (\<lambda>l. l @ [LF]) ls)) = (ls, False) \<and> parse_lines compile n ls = ([], [])"
  using assms
proof (induction ls arbitrary: n)
  case Nil
  show ?case by (simp add: scan_lines.simps [of "[]"])
next
  case (Cons l ls)
  then have l: "comment_line l" and IH: "scan_lines (concat (map (\<lambda>l. l @ [LF]) ls)) = (ls, False)"
    "parse_lines compile (Suc n) ls = ([], [])" by simp_all
  have d: "dropCR l = l" using l by (auto simp: dropCR_def comment_line_def dest: last_in_set)
  have "scan_lines (l @ [LF]) = ([l], False)"
    using scan_one_line [of l] l d by (simp add: comment_line_def)
  then have "scan_lines ((l @ [LF]) @ concat (map (\<lambda>l. l @ [LF]) ls)) = (l # ls, False)"
    using IH(1) by (subst scan_lines_append) (simp_all add: ends_line_def)
  with IH(2) comment_line_skipped [OF l] show ?case by (auto simp: Let_def)
qed

lemma ends_lines: "ends_line (concat (map (\<lambda>l. l @ [LF]) ls))"
  by (induction ls) (auto simp: ends_line_def)

lemma empty_loads: "LoadFile compile (Content []) = Inr []"
  by (simp add: LoadFile_Inr scan_lines.simps [of "[]"])

section \<open>Surfaces\<close>

text \<open>The first rule of a list that matches an invocation, as Alice looks it up.\<close>

definition first_match :: "Rule list \<Rightarrow> string \<Rightarrow> string list \<Rightarrow> Rule option" where
  "first_match rules matchStr envKeys = find (\<lambda>r. Matches r matchStr envKeys) rules"

lemma surfaces_of_known: "surfaces_of n ps = Inr out \<Longrightarrow> set out \<subseteq> set knownSurfaces"
  by (induction ps arbitrary: out) (auto simp: Let_def IsKnownSurface_def split: if_splits sum.splits)

lemma parseLine_cases:
  assumes "parseLine compile line n = Inr r"
  shows "Raw r = line" "LineNo r = n"
    "compile (''^(?:'' @ hd (Split line TAB) @ '')$'') = Some (Regex r)"
    "parseScopeColumn (field_at (Split line TAB) 3) n = Inr (Scope r)"
    "length (Split line TAB) \<le> 4"
    "parseEnvColumn (field_at (Split line TAB) 1) n = Inr (EnvAllow r, EnvAny r)"
    "parseLabelColumn (field_at (Split line TAB) 2) n = Inr (Label r)"
  using assms by (auto simp: parseLine_def Let_def split: if_splits option.splits sum.splits prod.splits)

lemma parseLine_scope:
  assumes "parseLine compile line n = Inr r"
  shows "set (Scope r) \<subseteq> {''cli'', ''mcp''}" and "''mcp'' \<in> set (Scope r) \<Longrightarrow> length (Split line TAB) = 4"
proof -
  note c = parseLine_cases(4,5) [OF assms]
  have k: "set out \<subseteq> {''cli'', ''mcp''}" if "surfaces_of n ps = Inr out" for ps out
    using surfaces_of_known [OF that] by (simp add: knownSurfaces_def)
  show "set (Scope r) \<subseteq> {''cli'', ''mcp''}"
  proof (cases "TrimSpace (field_at (Split line TAB) 3) = []")
    case True
    with c(1) have "Scope r = [''cli'']" by (simp add: parseScopeColumn_def)
    then show ?thesis by simp
  next
    case False
    with c(1) show ?thesis by (intro k) (simp add: parseScopeColumn_def Let_def)
  qed
  assume m: "''mcp'' \<in> set (Scope r)"
  show "length (Split line TAB) = 4"
  proof (rule ccontr)
    assume "length (Split line TAB) \<noteq> 4"
    with c(2) have "field_at (Split line TAB) 3 = []" by (simp add: field_at_def)
    with c(1) have "Scope r = [''cli'']" by (simp add: parseScopeColumn_def)
    with m show False by simp
  qed
qed

lemma parse_lines_rules:
  assumes "r \<in> set (fst (parse_lines compile n lines))"
  shows "\<exists>i < length lines. parseLine compile (lines ! i) (n + i) = Inr r"
  using assms
proof (induction lines arbitrary: n)
  case (Cons l ls)
  from Cons.prems consider "parseLine compile l n = Inr r" | "r \<in> set (fst (parse_lines compile (Suc n) ls))"
    by (auto simp: Let_def split: prod.splits sum.splits if_splits)
  then show ?case
  proof cases
    case 1
    then show ?thesis by (intro exI [of _ 0]) simp
  next
    case 2
    from Cons.IH [OF this] obtain i where "i < length ls" "parseLine compile (ls ! i) (Suc n + i) = Inr r" by blast
    then show ?thesis by (intro exI [of _ "Suc i"]) simp
  qed
qed simp

text \<open>A line that is read as a comment, and a rule that is as its type promises.\<close>

definition skipped :: "string \<Rightarrow> bool" where
  "skipped l \<longleftrightarrow> TrimSpace l = [] \<or> HasPrefix (TrimSpace l) ''#''"

definition wf_rule :: "compiler \<Rightarrow> Rule \<Rightarrow> bool" where
  "wf_rule compile r \<longleftrightarrow>
     compile (''^(?:'' @ hd (Split (Raw r) TAB) @ '')$'') = Some (Regex r) \<and> \<not> isTrivialMatchEverything (Regex r) \<and>
     (\<forall>e \<in> set (EnvAllow r). env_name e) \<and> (EnvAny r \<longrightarrow> EnvAllow r = []) \<and>
     Scope r \<noteq> [] \<and> (\<forall>f \<in> set (Scope r). IsKnownSurface f)"

lemma surfaces_of_length: "surfaces_of n ps = Inr out \<Longrightarrow> length out = length ps"
  by (induction ps arbitrary: out) (auto simp: Let_def split: if_splits sum.splits)

lemma parseScopeColumn_wf:
  assumes "parseScopeColumn col n = Inr out"
  shows "out \<noteq> [] \<and> (\<forall>f \<in> set out. IsKnownSurface f)"
proof (cases "TrimSpace col = []")
  case True
  with assms have "out = [''cli'']" by (simp add: parseScopeColumn_def)
  then show ?thesis by (simp add: IsKnownSurface_def knownSurfaces_def)
next
  case False
  with assms have o: "surfaces_of n (Split (TrimSpace col) CHR '','') = Inr out" by (simp add: parseScopeColumn_def Let_def)
  from surfaces_of_length [OF o] Split_nonempty [of "TrimSpace col" "CHR '',''"] surfaces_of_known [OF o]
  show ?thesis by (auto simp: IsKnownSurface_def)
qed

lemma env_names_of_names: "env_names_of n ps = Inr out \<Longrightarrow> \<forall>e \<in> set out. env_name e"
  by (induction ps arbitrary: out) (auto simp: Let_def envNameRE_iff split: if_splits sum.splits)

lemma parseEnvColumn_wf:
  "parseEnvColumn col n = Inr (out, any) \<Longrightarrow> (\<forall>e \<in> set out. env_name e) \<and> (any \<longrightarrow> out = [])"
  by (auto simp: parseEnvColumn_def Let_def dest: env_names_of_names split: if_splits sum.splits)

lemma parseLine_wf:
  assumes "parseLine compile line n = Inr r" and "\<not> isTrivialMatchEverything (Regex r)"
  shows "wf_rule compile r"
  using parseLine_cases [OF assms(1)] parseScopeColumn_wf parseEnvColumn_wf assms(2) unfolding wf_rule_def by blast

lemma parse_lines_complete:
  "parse_lines compile n ls = (rules, []) \<Longrightarrow>
     map (\<lambda>r. (LineNo r, Raw r)) rules = filter (\<lambda>(i, l). \<not> skipped l) (enumerate n ls)"
proof (induction ls arbitrary: n rules)
  case (Cons l ls)
  obtain rs errs where r: "parse_lines compile (Suc n) ls = (rs, errs)" by (metis surj_pair)
  show ?case
  proof (cases "skipped l")
    case True
    with Cons r show ?thesis by (auto simp: skipped_def)
  next
    case False
    with Cons.prems r obtain x where x: "parseLine compile l n = Inr x" "rules = x # rs" "errs = []"
      by (auto simp: skipped_def Let_def split: sum.splits)
    with parseLine_cases(1,2) [OF x(1)] False Cons.IH [of "Suc n" rs] r show ?thesis by simp
  qed
qed simp

text \<open>A file of one rule for agents.\<close>

definition one_rule :: string where
  "one_rule = ''^x$'' @ [TAB, TAB, TAB] @ ''mcp'' @ [LF]"

lemma one_rule_loads:
  obtains r where "LoadFile literal_compile (Content one_rule) = Inr [r]" and "r \<in> set (FilterBySurface [r] ''mcp'')"
    and "Raw r = butlast one_rule" and "LineNo r = 1"
proof -
  let ?r = "\<lparr>Regex = anchored (lit ''x''), EnvAllow = [], EnvAny = False, Label = [], Scope = [''mcp''],
      LineNo = 1, Raw = ''^x$'' @ [TAB, TAB, TAB] @ ''mcp''\<rparr>"
  have t: "TrimSpace ''mcp'' = ''mcp''" "\<exists>w. TrimSpace (''^x$'' @ [TAB, TAB, TAB] @ ''mcp'') = CHR ''^'' # w"
    by (auto intro!: TrimSpace_all_graph TrimSpace_graph_hd simp: graph_def)
  have c: "literal_compile ''^(?:^x$)$'' = Some (anchored (lit ''x''))"
    by (simp add: literal_compile_def HasPrefix_def HasSuffix_def suffix_def metachars_def)
  have p: "parseLine literal_compile (''^x$'' @ [TAB, TAB, TAB] @ ''mcp'') 1 = Inr ?r"
    by (simp add: parseLine_def Let_def field_at_def parseEnvColumn_def parseLabelColumn_def
        parseScopeColumn_def t(1) IsKnownSurface_def knownSurfaces_def c)
  have sc: "scan_lines one_rule = ([''^x$'' @ [TAB, TAB, TAB] @ ''mcp''], False)"
    using scan_one_line [of "''^x$'' @ [TAB, TAB, TAB] @ ''mcp''"] by (simp add: scanBufSize_def dropCR_def one_rule_def)
  have "parse_lines literal_compile 1 (fst (scan_lines one_rule)) = ([?r], [])"
    unfolding sc fst_conv using t(2) p by (auto simp: HasPrefix_def)
  then have "LoadFile literal_compile (Content one_rule) = Inr [?r]"
    unfolding LoadFile_Inr sc by (simp add: isTrivialMatchEverything_def MatchString_anchored)
  then show thesis by (rule that) (simp_all add: FilterBySurface_def AppliesTo_def one_rule_def)
qed

section \<open>Properties\<close>

text \<open>C34: The string that rules are matched against determines the invocation: two
  invocations with the same canonical form have the same command and the same arguments,
  whatever bytes they contain.\<close>

theorem canonical_form_is_unambiguous:
  "Canonicalize cmd args = Canonicalize cmd' args' \<longleftrightarrow> cmd = cmd' \<and> args = args'"
  using Canonicalize_inj by auto



text \<open>C32: Agents see only what the operator tagged for them: every rule that survives the
  filter for the \<open>mcp\<close> surface comes from a line with a fourth column, and literal rules,
  which have none, are invisible there.\<close>

theorem mcp_rules_are_explicit:
  assumes "LoadFile compile (Content s) = Inr rules"
    and "r \<in> set (FilterBySurface rules ''mcp'')"
  shows "length (Split (Raw r) TAB) = 4 \<and> Raw r \<in> set (fst (scan_lines s)) \<and>
    \<not> isTrivialMatchEverything (Regex r)"
proof -
  from assms(1) have p: "parse_lines compile 1 (fst (scan_lines s)) = (rules, [])"
    "\<forall>r \<in> set rules. \<not> isTrivialMatchEverything (Regex r)" by (auto simp: LoadFile_Inr)
  from assms(2) have r: "r \<in> set rules" "''mcp'' \<in> set (Scope r)"
    by (auto simp: FilterBySurface_def AppliesTo_def)
  with p parse_lines_rules [of r compile 1 "fst (scan_lines s)"] obtain i where
    i: "i < length (fst (scan_lines s))" "parseLine compile (fst (scan_lines s) ! i) (1 + i) = Inr r" by auto
  from parseLine_scope(2) [OF i(2) r(2)] parseLine_cases(1) [OF i(2)] i(1) p(2) r(1) show ?thesis by auto
qed

theorem mcp_rules_are_explicit_witness:
  "\<exists>r rules. LoadFile literal_compile (Content one_rule) = Inr rules \<and>
     r \<in> set (FilterBySurface rules ''mcp'') \<and> length (Split (Raw r) TAB) = 4"
proof -
  obtain r where "LoadFile literal_compile (Content one_rule) = Inr [r]" "r \<in> set (FilterBySurface [r] ''mcp'')"
    by (rule one_rule_loads)
  with mcp_rules_are_explicit show ?thesis by blast
qed

text \<open>C14: A rules file that loads is loaded in full and in order, and every rule of it is well-formed:
  each line that is neither blank nor a comment has become one rule, with its number and its
  text; its pattern is the compiled first column, anchored, and not one that matches
  everything, its environment names are identifiers, and it has at least one surface, all of
  them known.\<close>

theorem loaded_rules_well_formed:
  assumes "LoadFile compile (Content s) = Inr rules"
  shows "(\<forall>r \<in> set rules. wf_rule compile r) \<and> \<not> snd (scan_lines s) \<and>
    map (\<lambda>r. (LineNo r, Raw r)) rules = filter (\<lambda>(n, l). \<not> skipped l) (enumerate 1 (fst (scan_lines s)))"
proof -
  from assms have p: "parse_lines compile 1 (fst (scan_lines s)) = (rules, [])" "\<not> snd (scan_lines s)"
    "\<forall>r \<in> set rules. \<not> isTrivialMatchEverything (Regex r)" by (auto simp: LoadFile_Inr)
  have "wf_rule compile r" if "r \<in> set rules" for r
    using parse_lines_rules [of r compile 1 "fst (scan_lines s)"] p(1,3) that parseLine_wf by auto
  with p(2) parse_lines_complete [OF p(1)] show ?thesis by blast
qed

theorem loaded_rules_well_formed_witness:
  "\<exists>r. LoadFile literal_compile (Content one_rule) = Inr [r] \<and> wf_rule literal_compile r \<and> LineNo r = 1"
proof -
  obtain r where "LoadFile literal_compile (Content one_rule) = Inr [r]" "LineNo r = 1" by (rule one_rule_loads)
  with loaded_rules_well_formed show ?thesis by fastforce
qed

end
