(* ===== verification/Pwgen.thy ===== *)
theory Pwgen
  imports Crypto
begin

text \<open>
  The password generator (\<open>internal/pwgen/pwgen.go\<close>). The system's random source is a
  function \<open>rnd\<close> from the number of the draw to the value drawn: \<open>rnd i n\<close> is the result of
  the \<open>i\<close>-th draw, of an index below \<open>n\<close>; a generator returns the number of the next draw
  with its result. The embedded word list is the parameter \<open>words\<close>. A draw that fails
  panics in the code and is not modelled.
\<close>

type_synonym source = "nat \<Rightarrow> nat \<Rightarrow> nat"

definition fair :: "source \<Rightarrow> bool" where
  "fair rnd \<longleftrightarrow> (\<forall>i n. 0 < n \<longrightarrow> rnd i n < n)"

datatype Style = Apple | Full | Passphrase | PIN | AES256 | UnknownStyle string

definition style_of :: "string \<Rightarrow> Style" where
  "style_of s =
     (if s = ''apple'' then Apple else if s = ''full'' then Full
      else if s = ''passphrase'' then Passphrase else if s = ''pin'' then PIN
      else if s = ''aes256'' then AES256 else UnknownStyle s)"

definition lower :: string where "lower = ''abcdefghijklmnopqrstuvwxyz''"
definition upper :: string where "upper = ''ABCDEFGHIJKLMNOPQRSTUVWXYZ''"
definition digits :: string where "digits = ''0123456789''"
definition symbols :: string where "symbols = ''!#$%&*+-=?@^_~''"
definition alnum :: string where "alnum = lower @ upper @ digits"

record bound =
  b_def :: int
  b_min :: int
  b_max :: int

fun bounds :: "Style \<Rightarrow> bound option" where
  "bounds Apple = Some \<lparr>b_def = 3, b_min = 1, b_max = 8\<rparr>"
| "bounds Full = Some \<lparr>b_def = 20, b_min = 8, b_max = 100\<rparr>"
| "bounds Passphrase = Some \<lparr>b_def = 5, b_min = 3, b_max = 12\<rparr>"
| "bounds PIN = Some \<lparr>b_def = 6, b_min = 4, b_max = 32\<rparr>"
| "bounds AES256 = Some \<lparr>b_def = 32, b_min = 32, b_max = 32\<rparr>"
| "bounds (UnknownStyle s) = None"

text \<open>The word list as the file gives it.\<close>

definition loadWords :: "string \<Rightarrow> string list" where
  "loadWords raw =
     filter (\<lambda>l. l \<noteq> [] \<and> \<not> HasPrefix l ''#'') (map TrimSpace (Split raw LF))"

section \<open>The generators\<close>

definition draw :: "source \<Rightarrow> nat \<Rightarrow> string \<Rightarrow> nat \<Rightarrow> string" where
  "draw rnd i pool n = map (\<lambda>j. pool ! rnd (i + j) (length pool)) [0..<n]"

definition covers :: "string \<Rightarrow> string list \<Rightarrow> bool" where
  "covers b classes \<longleftrightarrow> list_all (\<lambda>cls. list_ex (\<lambda>c. c \<in> set cls) b) classes"

text \<open>Rejection sampling: no bound on the number of rounds.\<close>

partial_function (option) fill ::
  "source \<Rightarrow> nat \<Rightarrow> string \<Rightarrow> nat \<Rightarrow> string list \<Rightarrow> (string \<times> nat) option" where
  "fill rnd i pool n classes =
     (let out = draw rnd i pool n in
      if covers out classes then Some (out, i + n) else fill rnd (i + n) pool n classes)"

declare fill.simps [code]

fun groups_of :: "nat \<Rightarrow> string \<Rightarrow> string list" where
  "groups_of 0 raw = []"
| "groups_of (Suc g) raw = take 6 raw # groups_of g (drop 6 raw)"

definition apple :: "source \<Rightarrow> nat \<Rightarrow> nat \<Rightarrow> (string \<times> nat) option" where
  "apple rnd i g =
     (case fill rnd i alnum (g * 6) [lower, upper, digits] of
        None \<Rightarrow> None
      | Some (raw, i') \<Rightarrow> Some (Join (groups_of g raw) ''-'', i'))"

definition full :: "source \<Rightarrow> nat \<Rightarrow> nat \<Rightarrow> (string \<times> nat) option" where
  "full rnd i n = fill rnd i (lower @ upper @ digits @ symbols) n [lower, upper, digits, symbols]"

definition pin :: "source \<Rightarrow> nat \<Rightarrow> nat \<Rightarrow> string \<times> nat" where
  "pin rnd i n = (draw rnd i digits n, i + n)"

definition upper_first :: "string \<Rightarrow> string" where
  "upper_first w =
     (case w of [] \<Rightarrow> [] | c # cs \<Rightarrow> (if is_lower c then char_of ((of_char c :: nat) - 32) else c) # cs)"

definition two_digits :: "nat \<Rightarrow> string" where
  "two_digits n = (if n < 10 then ''0'' else '''') @ nat_digits n"

definition passphrase :: "string list \<Rightarrow> source \<Rightarrow> nat \<Rightarrow> nat \<Rightarrow> string \<times> nat" where
  "passphrase words rnd i n =
     (let parts = map (\<lambda>j. words ! rnd (i + j) (length words)) [0..<n];
          c = rnd (i + n) n;
          parts' = parts[c := upper_first (parts ! c)]
      in (Join parts' ''-'' @ ''-'' @ two_digits (rnd (i + n + 1) 100), i + n + 2))"

definition aes256 :: "source \<Rightarrow> nat \<Rightarrow> nat \<Rightarrow> string \<times> nat" where
  "aes256 rnd i n = (Base64Encode b64_url (map (\<lambda>j. char_of (rnd (i + j) 256)) [0..<n]), i + n)"

datatype gen_error = NoSuchStyle string | BadSize Style int

text \<open>The outer \<open>option\<close> is \<open>None\<close> when sampling does not end.\<close>

definition Generate ::
  "string list \<Rightarrow> source \<Rightarrow> nat \<Rightarrow> Style \<Rightarrow> int \<Rightarrow> (gen_error + (string \<times> nat)) option" where
  "Generate words rnd i s size0 =
     (case bounds s of
        None \<Rightarrow> Some (Inl (NoSuchStyle (case s of UnknownStyle n \<Rightarrow> n | _ \<Rightarrow> '''')))
      | Some b \<Rightarrow>
          (let sz = (if size0 = 0 then b_def b else size0) in
           if sz < b_min b \<or> b_max b < sz then Some (Inl (BadSize s sz))
           else
             (case s of
                Apple \<Rightarrow> map_option Inr (apple rnd i (nat sz))
              | Full \<Rightarrow> map_option Inr (full rnd i (nat sz))
              | Passphrase \<Rightarrow> Some (Inr (passphrase words rnd i (nat sz)))
              | PIN \<Rightarrow> Some (Inr (pin rnd i (nat sz)))
              | AES256 \<Rightarrow> Some (Inr (aes256 rnd i (nat sz)))
              | UnknownStyle n \<Rightarrow> Some (Inl (NoSuchStyle n)))))"

section \<open>Sampling\<close>

lemma draw_pool: "fair rnd \<Longrightarrow> pool \<noteq> [] \<Longrightarrow> set (draw rnd i pool n) \<subseteq> set pool"
  by (auto simp: draw_def fair_def)

lemma length_draw [simp]: "length (draw rnd i pool n) = n"
  by (simp add: draw_def)

text \<open>What \<open>fill\<close> returns is the first block that covers the classes.\<close>

lemma fill_returns:
  "covers (draw rnd (i + k * n) pool n) classes \<Longrightarrow>
   \<exists>k' \<le> k. covers (draw rnd (i + k' * n) pool n) classes \<and>
     fill rnd i pool n classes = Some (draw rnd (i + k' * n) pool n, i + k' * n + n)"
proof (induction k arbitrary: i)
  case 0
  then show ?case by (intro exI [of _ 0]) (simp add: fill.simps [of rnd i] Let_def)
next
  case (Suc k)
  show ?case
  proof (cases "covers (draw rnd i pool n) classes")
    case True
    then show ?thesis by (intro exI [of _ 0]) (simp add: fill.simps [of rnd i] Let_def)
  next
    case False
    from Suc.prems have "covers (draw rnd ((i + n) + k * n) pool n) classes" by (simp add: algebra_simps)
    from Suc.IH [OF this] obtain k' where "k' \<le> k" "covers (draw rnd (i + n + k' * n) pool n) classes"
      "fill rnd (i + n) pool n classes = Some (draw rnd (i + n + k' * n) pool n, i + n + k' * n + n)" by blast
    with False show ?thesis
      by (intro exI [of _ "Suc k'"]) (simp add: fill.simps [of rnd i] Let_def algebra_simps)
  qed
qed

lemma fill_sound:
  assumes "fill rnd i pool n classes = Some r"
  shows "\<exists>k. fst r = draw rnd (i + k * n) pool n \<and> covers (fst r) classes"
proof (rule fill.raw_induct [where
      P = "\<lambda>rnd i pool n classes r. \<exists>k. fst r = draw rnd (i + k * n) pool n \<and> covers (fst r) classes", OF _ assms])
  fix fl :: "source \<Rightarrow> nat \<Rightarrow> string \<Rightarrow> nat \<Rightarrow> string list \<Rightarrow> (string \<times> nat) option"
    and rnd :: source and i pool n classes r
  assume IH: "\<And>rnd i pool n classes r. fl rnd i pool n classes = Some r \<Longrightarrow>
      \<exists>k. fst r = draw rnd (i + k * n) pool n \<and> covers (fst r) classes"
    and s: "(let out = draw rnd i pool n in if covers out classes then Some (out, i + n)
      else fl rnd (i + n) pool n classes) = Some r"
  show "\<exists>k. fst r = draw rnd (i + k * n) pool n \<and> covers (fst r) classes"
  proof (cases "covers (draw rnd i pool n) classes")
    case True
    with s show ?thesis by (intro exI [of _ 0]) (auto simp: Let_def)
  next
    case False
    with s IH [of rnd "i + n" pool n classes r] obtain k where
      "fst r = draw rnd (i + n + k * n) pool n" "covers (fst r) classes" by (auto simp: Let_def)
    then show ?thesis by (intro exI [of _ "Suc k"]) (simp add: algebra_simps)
  qed
qed

lemma fill_None_iff: "fill rnd i pool n classes = None \<longleftrightarrow> (\<forall>k. \<not> covers (draw rnd (i + k * n) pool n) classes)"
proof
  assume "fill rnd i pool n classes = None"
  then show "\<forall>k. \<not> covers (draw rnd (i + k * n) pool n) classes" using fill_returns by fastforce
next
  assume n: "\<forall>k. \<not> covers (draw rnd (i + k * n) pool n) classes"
  show "fill rnd i pool n classes = None"
  proof (cases "fill rnd i pool n classes")
    case (Some r)
    from fill_sound [OF this] n show ?thesis by auto
  qed
qed

section \<open>Shapes\<close>

lemma groups_join_length: "length raw = Suc g * 6 \<Longrightarrow> length (Join (groups_of (Suc g) raw) ''-'') = Suc g * 7 - 1"
proof (induction g arbitrary: raw)
  case (Suc g)
  have "length (drop 6 raw) = Suc g * 6" using Suc.prems by simp
  from Suc.IH [OF this] have IH: "length (Join (groups_of (Suc g) (drop 6 raw)) ''-'') = Suc g * 7 - 1" .
  have "Join (groups_of (Suc (Suc g)) raw) ''-'' = take 6 raw @ ''-'' @ Join (groups_of (Suc g) (drop 6 raw)) ''-''"
    by (subst groups_of.simps(2), rule Join_Cons) simp
  with IH Suc.prems show ?case by (simp del: groups_of.simps)
qed simp

lemma groups_join_set: "length raw = g * 6 \<Longrightarrow> set (Join (groups_of g raw) ''-'') \<union> {CHR ''-''} = set raw \<union> {CHR ''-''}"
proof (induction g arbitrary: raw)
  case (Suc g)
  have "set raw = set (take 6 raw) \<union> set (drop 6 raw)" by (metis append_take_drop_id set_append)
  moreover from Suc have "set (Join (groups_of g (drop 6 raw)) ''-'') \<union> {CHR ''-''} = set (drop 6 raw) \<union> {CHR ''-''}"
    by simp
  ultimately show ?case using Suc.prems by (cases g) auto
qed simp

lemma base64_set: "length al = 64 \<Longrightarrow> set (Base64Encode al bs) \<subseteq> insert CHR ''='' (set al)"
  by (induction al bs rule: Base64Encode.induct) auto

lemma pools:
  "set alnum = {c. is_alnum c}" "is_lower c \<longleftrightarrow> c \<in> set lower" "is_upper c \<longleftrightarrow> c \<in> set upper"
  "is_digit c \<longleftrightarrow> c \<in> set digits"
  by (auto simp: alnum_def lower_def upper_def digits_def byte_class_defs)

lemma covers_iff: "covers b classes \<longleftrightarrow> (\<forall>cls \<in> set classes. set b \<inter> set cls \<noteq> {})"
  by (auto simp: covers_def list_all_iff list_ex_iff)

text \<open>What a password of each style looks like.\<close>

fun in_style :: "Style \<Rightarrow> nat \<Rightarrow> string \<Rightarrow> bool" where
  "in_style Apple n p \<longleftrightarrow>
     length p = 7 * n - 1 \<and> list_all (\<lambda>c. is_alnum c \<or> c = CHR ''-'') p \<and> covers p [lower, upper, digits]"
| "in_style Full n p \<longleftrightarrow> length p = n \<and> covers p [lower, upper, digits, symbols] \<and>
     list_all (\<lambda>c. c \<in> set (lower @ upper @ digits @ symbols)) p"
| "in_style Passphrase n p \<longleftrightarrow> (\<exists>ws d. length ws = n \<and> p = Join ws ''-'' @ ''-'' @ d \<and> length d = 2 \<and> list_all is_digit d)"
| "in_style PIN n p \<longleftrightarrow> length p = n \<and> list_all is_digit p"
| "in_style AES256 n p \<longleftrightarrow> length p = 44 \<and> list_all (\<lambda>c. is_alnum c \<or> c \<in> set ''-_='') p"
| "in_style (UnknownStyle s) n p \<longleftrightarrow> False"

definition size_of :: "Style \<Rightarrow> int \<Rightarrow> nat" where
  "size_of s sz = nat (if sz = 0 then b_def (the (bounds s)) else sz)"

lemma covers_without:
  assumes "covers raw classes" and "set p \<union> {c} = set raw \<union> {c}" and "\<forall>cls \<in> set classes. c \<notin> set cls"
  shows "covers p classes"
  unfolding covers_iff
proof
  fix cls
  assume cls: "cls \<in> set classes"
  with assms(1) obtain x where "x \<in> set raw" "x \<in> set cls" by (auto simp: covers_iff)
  with assms(2,3) cls show "set p \<inter> set cls \<noteq> {}" by blast
qed

lemma pools_nonempty [simp]: "alnum \<noteq> []" "lower \<noteq> []" "digits \<noteq> []"
  by (simp_all add: alnum_def lower_def digits_def)

lemma apple_style:
  assumes "apple rnd i g = Some (p, j)" and "0 < g" and "fair rnd"
  shows "in_style Apple g p"
proof -
  from assms(1) obtain raw i' where f: "fill rnd i alnum (g * 6) [lower, upper, digits] = Some (raw, i')"
    and p: "p = Join (groups_of g raw) ''-''" by (auto simp: apple_def split: option.splits prod.splits)
  from fill_sound [OF f] obtain k where raw: "raw = draw rnd k alnum (g * 6)" "covers raw [lower, upper, digits]" by auto
  obtain g' where g: "g = Suc g'" using assms(2) by (cases g) auto
  have l: "length raw = g * 6" using raw(1) by simp
  have "set raw \<subseteq> {c. is_alnum c}"
    using draw_pool [OF assms(3), of alnum k "g * 6"] by (auto simp: raw(1) pools(1))
  moreover have s: "set p \<union> {CHR ''-''} = set raw \<union> {CHR ''-''}" unfolding p by (rule groups_join_set [OF l])
  ultimately have "list_all (\<lambda>c. is_alnum c \<or> c = CHR ''-'') p" by (auto simp: list_all_iff)
  moreover have "covers p [lower, upper, digits]"
  proof -
    have "CHR ''-'' \<notin> set lower" "CHR ''-'' \<notin> set upper" "CHR ''-'' \<notin> set digits" by code_simp+
    then have "\<forall>cls \<in> set [lower, upper, digits]. CHR ''-'' \<notin> set cls" by simp
    from covers_without [OF raw(2) s this] show ?thesis .
  qed
  moreover have "length p = 7 * g - 1"
    using groups_join_length [of raw g'] l unfolding p g by simp
  ultimately show ?thesis by simp
qed

lemma two_digits_shape: "n < 100 \<Longrightarrow> length (two_digits n) = 2 \<and> list_all is_digit (two_digits n)"
proof -
  assume n: "n < 100"
  have d: "is_digit CHR ''0''" by code_simp
  show ?thesis
  proof (cases "n < 10")
    case True
    then have "two_digits n = CHR ''0'' # [digit_char n]" by (simp add: two_digits_def nat_digits.simps [of n])
    with nat_digits_digits [of n] True d show ?thesis by (simp add: nat_digits.simps [of n])
  next
    case False
    with n have "nat_digits n = [digit_char (n div 10), digit_char (n mod 10)]"
      by (subst nat_digits.simps) (simp add: nat_digits.simps [of "n div 10"])
    with nat_digits_digits [of n] False show ?thesis by (simp add: two_digits_def)
  qed
qed

section \<open>Properties\<close>

text \<open>What each generator makes has its style.\<close>

lemma full_style:
  assumes "fair rnd" and "full rnd i n = Some (p, j)"
  shows "in_style Full n p"
proof -
  from fill_sound [OF assms(2) [unfolded full_def]] obtain k where
    k: "p = draw rnd k (lower @ upper @ digits @ symbols) n" "covers p [lower, upper, digits, symbols]" by auto
  have "set p \<subseteq> set (lower @ upper @ digits @ symbols)"
    unfolding k(1) by (rule draw_pool [OF assms(1)]) simp
  with k show ?thesis by (simp add: list_all_iff subset_eq)
qed

lemma passphrase_style:
  assumes "fair rnd" and "passphrase words rnd i n = (p, j)"
  shows "in_style Passphrase n p"
proof -
  from assms(2) obtain ws m where "p = Join ws ''-'' @ ''-'' @ two_digits (rnd m 100)" "length ws = n"
    by (auto simp: passphrase_def Let_def)
  moreover have "rnd m 100 < 100" using assms(1) by (simp add: fair_def)
  ultimately show ?thesis using two_digits_shape by auto
qed

lemma pin_style:
  assumes "fair rnd" and "pin rnd i n = (p, j)"
  shows "in_style PIN n p"
proof -
  from assms(2) have "p = draw rnd i digits n" by (simp add: pin_def)
  with draw_pool [OF assms(1), of digits i n] show ?thesis by (auto simp: list_all_iff pools(4))
qed

lemma aes256_style:
  assumes "aes256 rnd i 32 = (p, j)"
  shows "in_style AES256 n p"
proof -
  from assms have p: "p = Base64Encode b64_url (map (\<lambda>j. char_of (rnd (i + j) 256)) [0..<32])"
    by (simp add: aes256_def)
  have "length p = 44" unfolding p length_Base64Encode by simp
  moreover have "list_all (\<lambda>c. is_alnum c \<or> c \<in> set ''-_='') (CHR ''='' # b64_url)" by code_simp
  then have "list_all (\<lambda>c. is_alnum c \<or> c \<in> set ''-_='') p"
    using base64_set [of b64_url "map (\<lambda>j. char_of (rnd (i + j) 256)) [0..<32]"] b64_url_alphabet
    unfolding p list_all_iff by (auto simp: b64_alphabet_def)
  ultimately show ?thesis by simp
qed



text \<open>The pool, the number of draws and the classes of the styles that are sampled.\<close>

fun sampled :: "Style \<Rightarrow> nat \<Rightarrow> (string \<times> nat \<times> string list) option" where
  "sampled Apple n = Some (alnum, n * 6, [lower, upper, digits])"
| "sampled Full n = Some (lower @ upper @ digits @ symbols, n, [lower, upper, digits, symbols])"
| "sampled _ n = None"

definition size_allowed :: "Style \<Rightarrow> int \<Rightarrow> bool" where
  "size_allowed s sz \<longleftrightarrow>
     (\<exists>b. bounds s = Some b \<and> b_min b \<le> (if sz = 0 then b_def b else sz) \<and> (if sz = 0 then b_def b else sz) \<le> b_max b)"

lemma Generate_None:
  assumes "bounds s = Some b" and "b_min b \<le> (if sz = 0 then b_def b else sz)"
    and "(if sz = 0 then b_def b else sz) \<le> b_max b"
  shows "Generate words rnd i s sz = None \<longleftrightarrow>
    (\<exists>pool m classes. sampled s (size_of s sz) = Some (pool, m, classes) \<and> fill rnd i pool m classes = None)"
proof -
  let ?z = "if sz = 0 then b_def b else sz"
  have n: "size_of s sz = nat ?z" using assms(1) by (simp add: size_of_def)
  have "Generate words rnd i s sz =
      (case s of Apple \<Rightarrow> map_option Inr (apple rnd i (nat ?z))
       | Full \<Rightarrow> map_option Inr (full rnd i (nat ?z))
       | Passphrase \<Rightarrow> Some (Inr (passphrase words rnd i (nat ?z)))
       | PIN \<Rightarrow> Some (Inr (pin rnd i (nat ?z)))
       | AES256 \<Rightarrow> Some (Inr (aes256 rnd i (nat ?z)))
       | UnknownStyle n \<Rightarrow> Some (Inl (NoSuchStyle n)))"
    unfolding Generate_def assms(1) option.case Let_def by (rule if_not_P) (use assms(2,3) in linarith)
  then show ?thesis unfolding n
    by (cases s) (simp_all add: apple_def full_def split: option.splits)
qed



end
