(* ===== verification/Eth.thy ===== *)
theory Eth
  imports Go_Os Crypto
begin

text \<open>
  Ethereum addresses from a BIP-39 mnemonic (\<open>internal/eth/eth.go\<close>).

  The packages for BIP-39, BIP-32, secp256k1 and Keccak are the record \<open>eth_lib\<close>, over a type
  \<open>'k\<close> of extended keys; child indices are 32-bit words. Wiping acts on buffers the model does
  not have. An index into a Go slice that is out of range panics.
\<close>

section \<open>The libraries\<close>

record 'k eth_lib =
  el_entropy :: "nat \<Rightarrow> bytes option"
  el_mnemonic :: "bytes \<Rightarrow> string option"
  el_valid :: "string \<Rightarrow> bool"
  el_seed :: "string \<Rightarrow> string \<Rightarrow> bytes"
  el_master :: "bytes \<Rightarrow> 'k option"
  el_child :: "'k \<Rightarrow> 32 word \<Rightarrow> 'k option"
  el_key :: "'k \<Rightarrow> bytes"
  el_pubkey :: "bytes \<Rightarrow> bytes"
  el_keccak :: "bytes \<Rightarrow> bytes"

datatype eth_error =
    UnsupportedWordCount int
  | EntropyFailed
  | MnemonicFailed
  | InvalidMnemonic
  | MasterFailed
  | StepFailed "32 word"
  | WrongKeySize nat
  | EthPanic

section \<open>Mnemonics\<close>

definition CoinTypeETH :: "32 word" where "CoinTypeETH = 60"
definition hardenedOffset :: "32 word" where "hardenedOffset = 0x80000000"

definition GenMnemonic :: "'k eth_lib \<Rightarrow> int \<Rightarrow> eth_error + string" where
  "GenMnemonic E words =
     (if words \<noteq> 12 \<and> words \<noteq> 24 then Inl (UnsupportedWordCount words)
      else
        (case el_entropy E (if words = 12 then 128 else 256) of
           None \<Rightarrow> Inl EntropyFailed
         | Some ent \<Rightarrow> (case el_mnemonic E ent of None \<Rightarrow> Inl MnemonicFailed | Some m \<Rightarrow> Inr m)))"

definition NormalizeMnemonic :: "string \<Rightarrow> string" where
  "NormalizeMnemonic s = Join (Fields s) '' ''"

definition ValidateMnemonic :: "'k eth_lib \<Rightarrow> string \<Rightarrow> eth_error + unit" where
  "ValidateMnemonic E mnemonic =
     (if \<not> el_valid E (NormalizeMnemonic mnemonic) then Inl InvalidMnemonic else Inr ())"

section \<open>The derivation path\<close>

fun derive_steps :: "'k eth_lib \<Rightarrow> 'k \<Rightarrow> 32 word list \<Rightarrow> eth_error + 'k" where
  "derive_steps E cur [] = Inr cur"
| "derive_steps E cur (i # steps) =
     (case el_child E cur i of None \<Rightarrow> Inl (StepFailed i) | Some nxt \<Rightarrow> derive_steps E nxt steps)"

unbundle bit_operations_syntax

definition path_steps :: "32 word \<Rightarrow> 32 word list" where
  "path_steps index =
     [44 OR hardenedOffset, CoinTypeETH OR hardenedOffset, 0 OR hardenedOffset, 0, index]"

definition DerivePrivateKey :: "'k eth_lib \<Rightarrow> string \<Rightarrow> 32 word \<Rightarrow> eth_error + bytes" where
  "DerivePrivateKey E mnemonic index =
     (let clean = NormalizeMnemonic mnemonic in
      if \<not> el_valid E clean then Inl InvalidMnemonic
      else
        (case el_master E (el_seed E clean '''') of
           None \<Rightarrow> Inl MasterFailed
         | Some master \<Rightarrow>
             (case derive_steps E master (path_steps index) of
                Inl e \<Rightarrow> Inl e
              | Inr cur \<Rightarrow> Inr (el_key E cur))))"

section \<open>Addresses\<close>

text \<open>The nibble of the hash that decides the case of digit \<open>i\<close>.\<close>

definition hash_nibble :: "bytes \<Rightarrow> nat \<Rightarrow> nat option" where
  "hash_nibble hash i =
     (if i div 2 < length hash
      then Some (if i mod 2 = 0 then of_char (hash ! (i div 2)) div 16 else of_char (hash ! (i div 2)) mod 16)
      else None)"

fun eip55_digits :: "bytes \<Rightarrow> nat \<Rightarrow> string \<Rightarrow> string option" where
  "eip55_digits hash i [] = Some []"
| "eip55_digits hash i (c # cs) =
     (if is_digit c then map_option (\<lambda>r. c # r) (eip55_digits hash (Suc i) cs)
      else
        (case hash_nibble hash i of
           None \<Rightarrow> None
         | Some n \<Rightarrow>
             map_option (\<lambda>r. (if 8 \<le> n then char_of ((of_char c :: nat) - 32) else c) # r)
               (eip55_digits hash (Suc i) cs)))"

definition EIP55Checksum :: "'k eth_lib \<Rightarrow> bytes \<Rightarrow> string option" where
  "EIP55Checksum E addr =
     (if length addr \<noteq> 20 then None
      else
        (let low = HexEncode addr in
         map_option (\<lambda>r. ''0x'' @ r) (eip55_digits (el_keccak E low) 0 low)))"

definition PrivateKeyToAddress :: "'k eth_lib \<Rightarrow> bytes \<Rightarrow> eth_error + string" where
  "PrivateKeyToAddress E priv =
     (if length priv \<noteq> 32 then Inl (WrongKeySize (length priv))
      else
        (let uncompressed = el_pubkey E priv in
         if uncompressed = [] then Inl EthPanic
         else
           (let h = el_keccak E (drop 1 uncompressed) in
            if length h < 20 then Inl EthPanic
            else
              (case EIP55Checksum E (drop (length h - 20) h) of None \<Rightarrow> Inl EthPanic | Some a \<Rightarrow> Inr a))))"

definition DeriveAddress :: "'k eth_lib \<Rightarrow> string \<Rightarrow> 32 word \<Rightarrow> eth_error + string" where
  "DeriveAddress E mnemonic index =
     (case DerivePrivateKey E mnemonic index of
        Inl e \<Rightarrow> Inl e
      | Inr priv \<Rightarrow> PrivateKeyToAddress E priv)"

section \<open>Normalization\<close>

text \<open>No white space starts in a piece, and a piece is not empty.\<close>

definition solid :: "string \<Rightarrow> bool" where
  "solid w \<longleftrightarrow> (\<forall>u v. w = u @ v \<longrightarrow> v \<noteq> [] \<longrightarrow> trim_step space_encodings v = None)"

lemma trim_step_None: "trim_step encs s = None \<longleftrightarrow> (\<forall>e \<in> set encs. e \<noteq> [] \<longrightarrow> \<not> prefix e s)"
proof -
  have "trim_step encs s = None \<longleftrightarrow> filter (\<lambda>e. e \<noteq> [] \<and> prefix e s) encs = []"
    by (auto simp: trim_step_def split: list.splits)
  then show ?thesis by (auto simp: filter_empty_conv)
qed

lemma trim_step_append: "trim_step encs (v @ s) = None \<Longrightarrow> trim_step encs v = None"
  unfolding trim_step_None by (metis prefix_prefix)

text \<open>Only the blank itself contains a blank.\<close>

lemma blank_encodings: "list_all (\<lambda>e. CHR '' '' \<in> set e \<longrightarrow> e = '' '') space_encodings"
  by code_simp

lemma trim_step_blank:
  assumes "v \<noteq> []" and "trim_step space_encodings v = None"
  shows "trim_step space_encodings (v @ CHR '' '' # s) = None"
  unfolding trim_step_None
proof (intro ballI impI notI)
  fix e
  assume e: "e \<in> set space_encodings" "e \<noteq> []" and p: "prefix e (v @ CHR '' '' # s)"
  from p have "prefix e v \<or> (\<exists>u. e = v @ u \<and> prefix u (CHR '' '' # s))" by (simp only: prefix_append)
  then show False
  proof
    assume "prefix e v"
    with e assms(2) show False by (auto simp: trim_step_None)
  next
    assume "\<exists>u. e = v @ u \<and> prefix u (CHR '' '' # s)"
    then obtain u where u: "e = v @ u" "prefix u (CHR '' '' # s)" by blast
    show False
    proof (cases u)
      case Nil
      with u(1) e assms(2) show False by (auto simp: trim_step_None)
    next
      case (Cons c u')
      with u have "CHR '' '' \<in> set e" by simp
      with blank_encodings e(1) have "e = '' ''" by (simp add: list_all_iff)
      with u(1) assms(1) Cons show False by (cases v) auto
    qed
  qed
qed

lemma fields_from_piece:
  "(\<And>u v. w = u @ v \<Longrightarrow> v \<noteq> [] \<Longrightarrow> trim_step space_encodings (v @ rest) = None) \<Longrightarrow>
     fields_from cur (w @ rest) = fields_from (rev w @ cur) rest"
proof (induction w arbitrary: cur)
  case (Cons c w)
  from Cons.prems [of "[]" "c # w"] have "fields_from cur (c # w @ rest) = fields_from (c # cur) (w @ rest)"
    by (subst fields_from.simps) simp
  with Cons.IH [of "c # cur"] Cons.prems [of "c # _"] show ?case by simp
qed simp

lemma fields_from_Nil [simp]: "fields_from cur [] = flush cur []"
proof -
  have "trim_step space_encodings [] = None" by (simp add: trim_step_None)
  then show ?thesis by (subst fields_from.simps) simp
qed

lemma fields_from_blank: "fields_from cur (CHR '' '' # s) = flush cur (fields_from [] s)"
proof -
  have "trim_step space_encodings (CHR '' '' # s) = Some s"
    by (simp add: trim_step_def space_encodings_def)
  then show ?thesis by (subst fields_from.simps) simp
qed

text \<open>The pieces of a text are solid, and solid pieces joined by blanks are read back.\<close>

definition clear :: "string \<Rightarrow> string \<Rightarrow> bool" where
  "clear w s \<longleftrightarrow> (\<forall>u v. w = u @ v \<longrightarrow> v \<noteq> [] \<longrightarrow> trim_step space_encodings (v @ s) = None)"

lemma clear_solid: "clear w s \<Longrightarrow> solid w"
  unfolding clear_def solid_def using trim_step_append by blast

lemma clear_step:
  assumes "clear w (c # t)" and "trim_step space_encodings (c # t) = None"
  shows "clear (w @ [c]) t"
  unfolding clear_def
proof (intro allI impI)
  fix u v
  assume a: "w @ [c] = u @ v" and "v \<noteq> []"
  then obtain v' where v: "v = v' @ [c]" and w: "w = u @ v'" by (cases v rule: rev_cases) auto
  show "trim_step space_encodings (v @ t) = None"
  proof (cases "v' = []")
    case False
    with assms(1) w have "trim_step space_encodings (v' @ c # t) = None" by (simp add: clear_def)
    with v show ?thesis by simp
  qed (use assms(2) v in simp)
qed

lemma fields_from_solid:
  "clear (rev cur) s \<Longrightarrow> w \<in> set (fields_from cur s) \<Longrightarrow> w \<noteq> [] \<and> solid w"
proof (induction cur s rule: fields_from.induct)
  case (1 cur s)
  have cur: "solid (rev cur)" using "1.prems"(1) by (rule clear_solid)
  show ?case
  proof (cases "trim_step space_encodings s")
    case (Some t)
    with "1.prems"(2) have "w \<in> set (flush cur (fields_from [] t))" by (subst (asm) fields_from.simps) simp
    then show ?thesis using "1.IH"(2) [OF Some] cur by (auto simp: flush_def clear_def split: if_splits)
  next
    case None
    show ?thesis
    proof (cases s)
      case Nil
      with "1.prems"(2) cur show ?thesis by (auto simp: flush_def split: if_splits)
    next
      case (Cons c t)
      from "1.prems"(2) None Cons have "w \<in> set (fields_from (c # cur) t)" by (subst (asm) fields_from.simps) simp
      moreover from "1.prems"(1) None Cons have "clear (rev (c # cur)) t" by (simp add: clear_step)
      ultimately show ?thesis using "1.IH"(1) [OF None Cons] by blast
    qed
  qed
qed

lemma Fields_solid: "w \<in> set (Fields s) \<Longrightarrow> w \<noteq> [] \<and> solid w"
  unfolding Fields_def by (rule fields_from_solid) (auto simp: clear_def)

lemma Fields_Join: "\<forall>w \<in> set ws. w \<noteq> [] \<and> solid w \<Longrightarrow> Fields (Join ws '' '') = ws"
proof (induction ws)
  case (Cons w ws)
  then have w: "w \<noteq> []" and s: "solid w" by auto
  show ?case
  proof (cases ws)
    case Nil
    have "fields_from [] (w @ []) = fields_from (rev w @ []) []"
      by (rule fields_from_piece) (use s in \<open>auto simp: solid_def\<close>)
    with w Nil show ?thesis by (simp add: Fields_def flush_def)
  next
    case (Cons x xs)
    have "fields_from [] (w @ CHR '' '' # Join ws '' '') = fields_from (rev w @ []) (CHR '' '' # Join ws '' '')"
      by (rule fields_from_piece) (use s trim_step_blank in \<open>auto simp: solid_def\<close>)
    with w Cons Cons.IH Cons.prems show ?thesis
      by (simp add: Fields_def fields_from_blank flush_def Join_Cons)
  qed
qed (simp add: Fields_def flush_def)

lemma NormalizeMnemonic_Fields: "Fields (NormalizeMnemonic s) = Fields s"
  unfolding NormalizeMnemonic_def by (rule Fields_Join) (blast dest: Fields_solid)

lemma NormalizeMnemonic_idem: "NormalizeMnemonic (NormalizeMnemonic s) = NormalizeMnemonic s"
  by (metis NormalizeMnemonic_Fields NormalizeMnemonic_def)

section \<open>The checksum\<close>

lemma hex_digit_case: "c \<in> set ''0123456789abcdef'' \<Longrightarrow>
    lower_byte c = c \<and> \<not> is_upper c \<and>
    (\<not> is_digit c \<longrightarrow> lower_byte (char_of ((of_char c :: nat) - 32)) = c \<and> is_upper (char_of ((of_char c :: nat) - 32)))"
proof -
  have "list_all (\<lambda>c. lower_byte c = c \<and> \<not> is_upper c \<and>
    (\<not> is_digit c \<longrightarrow> lower_byte (char_of ((of_char c :: nat) - 32)) = c \<and> is_upper (char_of ((of_char c :: nat) - 32))))
    ''0123456789abcdef''" by code_simp
  then show "c \<in> set ''0123456789abcdef'' \<Longrightarrow> ?thesis" unfolding list_all_iff by blast
qed

definition high_nibble :: "bytes \<Rightarrow> nat \<Rightarrow> bool" where
  "high_nibble hash i \<longleftrightarrow> (\<exists>n. hash_nibble hash i = Some n \<and> 8 \<le> n)"

lemma eip55_digits_spec:
  assumes "eip55_digits hash i cs = Some t" and "set cs \<subseteq> set ''0123456789abcdef''"
  shows "map lower_byte t = cs \<and> (\<forall>j < length cs. is_upper (t ! j) \<longleftrightarrow> \<not> is_digit (cs ! j) \<and> high_nibble hash (i + j))"
  using assms
proof (induction cs arbitrary: i t)
  case (Cons c cs)
  from Cons.prems obtain d r where t: "t = d # r" "eip55_digits hash (Suc i) cs = Some r"
    and d: "if is_digit c then d = c
      else (\<exists>n. hash_nibble hash i = Some n \<and> d = (if 8 \<le> n then char_of ((of_char c :: nat) - 32) else c))"
    by (auto split: if_splits option.splits)
  have c: "c \<in> set ''0123456789abcdef''" using Cons.prems(2) by simp
  note h = hex_digit_case [OF c]
  have "lower_byte d = c \<and> (is_upper d \<longleftrightarrow> \<not> is_digit c \<and> high_nibble hash i)"
    using d h by (cases "is_digit c") (auto simp: high_nibble_def split: if_splits)
  moreover have "map lower_byte r = cs \<and>
      (\<forall>j < length cs. is_upper (r ! j) \<longleftrightarrow> \<not> is_digit (cs ! j) \<and> high_nibble hash (Suc i + j))"
    using Cons.IH [OF t(2)] Cons.prems(2) by auto
  ultimately show ?case by (auto simp: t(1) nth_Cons split: nat.splits)
qed simp

lemma EIP55_total:
  assumes "length addr = 20" and "\<forall>d. 20 \<le> length (el_keccak E d)"
  shows "\<exists>s. EIP55Checksum E addr = Some s"
proof -
  have "\<exists>t. eip55_digits h i cs = Some t" if "i + length cs \<le> 2 * length h" for h i cs
    using that
  proof (induction cs arbitrary: i)
    case (Cons c cs)
    from Cons.IH [of "Suc i"] Cons.prems obtain r where "eip55_digits h (Suc i) cs = Some r" by auto
    moreover from Cons.prems have "i div 2 < length h" by auto
    ultimately show ?case by (auto simp: hash_nibble_def)
  qed simp
  from this [of 0 "HexEncode addr" "el_keccak E (HexEncode addr)"] assms(1) spec [OF assms(2), of "HexEncode addr"]
  show ?thesis by (auto simp: EIP55Checksum_def Let_def length_HexEncode)
qed

section \<open>Properties\<close>


text \<open>White space does not matter: a mnemonic pasted with stray blanks or line breaks is
  accepted or refused, and derives the addresses, exactly as its normal form.\<close>

theorem spacing_is_immaterial:
  assumes "Fields m = Fields m'"
  shows "ValidateMnemonic E m = ValidateMnemonic E m' \<and> DeriveAddress E m i = DeriveAddress E m' i \<and>
    DeriveAddress E (NormalizeMnemonic m) i = DeriveAddress E m' i"
proof -
  have n: "NormalizeMnemonic m = NormalizeMnemonic m'" using assms by (simp add: NormalizeMnemonic_def)
  have "NormalizeMnemonic (NormalizeMnemonic m) = NormalizeMnemonic m'"
    using n NormalizeMnemonic_idem by simp
  with n show ?thesis by (simp add: ValidateMnemonic_def DeriveAddress_def DerivePrivateKey_def Let_def)
qed

definition demo_eth :: "bytes eth_lib" where
  "demo_eth =
     \<lparr>el_entropy = (\<lambda>bits. Some (replicate (bits div 8) CHR 0x00)), el_mnemonic = (\<lambda>e. Some ''abandon about''),
      el_valid = (\<lambda>m. m = ''abandon about''), el_seed = (\<lambda>m p. m @ p), el_master = (\<lambda>s. Some (replicate 32 CHR ''k'')),
      el_child = (\<lambda>k i. Some (tl k @ [char_of (unat i)])), el_key = (\<lambda>k. k),
      el_pubkey = (\<lambda>k. CHR 0x04 # k @ k), el_keccak = (\<lambda>d. replicate 31 CHR 0x8F @ [last d])\<rparr>"

lemma demo_keccak: "length (el_keccak demo_eth d) = 32"
  by (simp add: demo_eth_def)


theorem spacing_is_immaterial_witness:
  "DeriveAddress demo_eth '' abandon  about '' 0 = DeriveAddress demo_eth ''abandon about'' 0"
proof -
  have "Fields '' abandon  about '' = Fields ''abandon about''" by code_simp
  from spacing_is_immaterial [OF this] show ?thesis by blast
qed

end
