(* ===== verification/Alice.thy ===== *)
theory Alice
  imports Client Localvault Redact Strength Aclrules Pwgen Eth
begin

text \<open>
  What the commands of \<open>cmd/alice\<close> share (\<open>cmd/alice/main.go\<close>): the machine they run on,
  the enrolled client, the write-back of rewrapped entries and the decryption of the whole
  vault.

  \<open>host\<close> holds what a command cannot change: the process environment, the terminals, the
  network with Bob behind it, faults of the file system, and the library functions that are
  parameters. \<open>alice\<close> is the state a command threads: the disk, the requests sent, the
  number of atomic writes and of random draws made, the modes and owners set, the input still unread, and what was printed on standard
  output. Diagnostics on standard error are not recorded.
\<close>

section \<open>The machine\<close>

text \<open>What is left of a version 2 allowlist when the rules file is missing.\<close>

datatype legacy_hint = NoLegacy | JsonLeft | BakLeft

datatype env_error =
    NoEquals string
  | BadEnvName string string
  | EmptyEnvValue string
  | MissingPrefix string string
  | BadPlaceholder string string

datatype failure =
    Usage
  | UnexpectedArgs
  | UnknownSurfaceName string
  | BadEnvFlag env_error
  | NotAbsolute string
  | NoRules legacy_hint
  | RulesBad load_error
  | DenyMessage string string "string list" "string list" string
  | Declined
  | RuleAppended string
  | AppendFailed
  | VaultUnreadable
  | SaveFailed
  | NotEnrolled
  | NoClientCert
  | NoClientKey
  | NoTrustAnchor
  | ClientBroken
  | FromBob client_error
  | KeyNotStored string
  | Unresolved string "string list"
  | LookupFailed string
  | NotATerminal
  | BadKey
  | NoValueSource
  | SourcesConflict
  | OverwriteRefused string
  | EmptyValue
  | ReadFailed
  | GenerateFailed gen_error
  | NotFound string
  | NoMatch string
  | NeedsYes nat
  | FileNotFound string
  | Conflict
  | NoExistingFile
  | UnmatchedUnvaulted nat
  | WriteFailed
  | BadMode string
  | BadOwner string
  | ChownFailed
  | NotACertificate
  | PairingAbsent
  | PairingExpired
  | PairingMismatch
  | BadPairingCode
  | CountOutOfRange int
  | CSRFailed
  | FromEth eth_error
  | UnknownSubcommand string
  | UnsupportedShell string
  | LengthMismatch nat nat
  | Panic

text \<open>A line printed on standard output, by what it carries.\<close>

datatype out_line =
    Text string
  | Saved string string
  | Field string string
  | Json "(string \<times> string) list"
  | Removed nat
  | Imported nat
  | DescShown string
  | DescSet string bool
  | Cancelled
  | InitDone bool string
  | Candidate string string
  | Present string bool
  | Entry Listing
  | Count int nat
  | Total nat
  | Hit bool nat string
  | Issue string string int
  | Summary nat nat nat nat
  | Installed string
  | Enrolled string
  | Wallet string string "string option"
  | ErrorText failure

text \<open>How a command ends: returning, with an error, by an exit status, as another program, or not
  at all.\<close>

datatype outcome =
    Returned
  | Failed failure
  | Exited nat
  | Execed string "string list" "string list"
  | NeverReturns

record host =
  h_environ :: "string list"
  h_stdin_tty :: bool
  h_stdout_tty :: bool
  h_stderr_tty :: bool
  h_now :: string
  h_order :: "string list \<Rightarrow> string list"
  h_lookPath :: "string \<Rightarrow> string option"
  h_compile :: "string \<Rightarrow> rx option"
  h_sha256 :: "string \<Rightarrow> string"
  h_words :: "string list"
  h_rnd :: source
  h_lookup_user :: "string \<Rightarrow> string option"
  h_lookup_group :: "string \<Rightarrow> string option"
  h_csr :: "string \<Rightarrow> (bytes \<times> bytes) option"
  h_codec :: codec
  h_fault :: "nat \<Rightarrow> write_fault"
  h_dial :: "Config \<Rightarrow> bytes \<Rightarrow> bytes \<Rightarrow> bytes \<Rightarrow> (Request list \<Rightarrow> Request \<Rightarrow> net_result) option"

record alice =
  a_disk :: disk
  a_sent :: "Request list"
  a_writes :: nat
  a_draws :: nat
  a_modes :: "string \<rightharpoonup> nat"
  a_owners :: "string \<rightharpoonup> int \<times> int"
  a_stdin :: string
  a_typed :: "string option list"
  a_out :: "out_line list"

type_synonym command = "host \<Rightarrow> string list \<Rightarrow> alice \<Rightarrow> outcome \<times> alice"

definition say :: "out_line list \<Rightarrow> alice \<Rightarrow> alice" where
  "say ls a = a\<lparr>a_out := a_out a @ ls\<rparr>"

text \<open>The store of a directory, through the disk of the machine.\<close>

definition vault_load :: "host \<Rightarrow> string \<Rightarrow> alice \<Rightarrow> Vault option" where
  "vault_load H dir a = Load (h_codec H) dir (a_disk a)"

definition finish_write :: "bool \<times> disk list \<Rightarrow> alice \<Rightarrow> bool \<times> alice" where
  "finish_write r a =
     (case r of (ok, ds) \<Rightarrow> (ok, a\<lparr>a_disk := last ds, a_writes := Suc (a_writes a)\<rparr>))"

definition vault_save :: "host \<Rightarrow> string \<Rightarrow> Vault \<Rightarrow> alice \<Rightarrow> bool \<times> alice" where
  "vault_save H dir v a =
     finish_write (Save (h_codec H) (h_fault H (a_writes a)) dir v (a_disk a)) a"

text \<open>\<open>os.WriteFile\<close>: in place.\<close>

definition os_create :: "string \<Rightarrow> bytes \<Rightarrow> alice \<Rightarrow> bool \<times> alice" where
  "os_create path dat a =
     (if a_disk a path = Unopenable then (False, a)
      else (True, a\<lparr>a_disk := (a_disk a)(path := Content dat)\<rparr>))"

section \<open>The enrolled client\<close>

text \<open>\<open>loadClient\<close>: the connection, with the enrolment files checked in order. \<open>client.New\<close>
  succeeds when the key pair and the trust anchor parse, which is \<open>h_dial\<close>; the connection
  answers a request depending on those sent before it.\<close>

type_synonym connection = "Request list \<Rightarrow> Request \<Rightarrow> net_result"

definition loadClient :: "host \<Rightarrow> string \<Rightarrow> disk \<Rightarrow> failure + (connection \<times> Config)" where
  "loadClient H dir d =
     (case LoadConfig (h_codec H) dir d of
        None \<Rightarrow> Inl NotEnrolled
      | Some cfg \<Rightarrow>
          (case d (ClientCertPath dir) of
             Content cert \<Rightarrow>
               (case d (ClientKeyPath dir) of
                  Content key \<Rightarrow>
                    (case d (CAPath dir) of
                       Content ca \<Rightarrow>
                         (case h_dial H cfg cert key ca of
                            None \<Rightarrow> Inl ClientBroken
                          | Some conn \<Rightarrow> Inr (conn, cfg))
                     | _ \<Rightarrow> Inl NoTrustAnchor)
                | _ \<Rightarrow> Inl NoClientKey)
           | _ \<Rightarrow> Inl NoClientCert))"

text \<open>The calls of the client, recording the request each of them sends.\<close>

definition ask_Encrypt ::
  "connection \<Rightarrow> string \<Rightarrow> string \<Rightarrow> string \<Rightarrow> alice \<Rightarrow> (failure + string) \<times> alice" where
  "ask_Encrypt conn reason key plaintext a =
     (map_sum FromBob id (client_Encrypt reason (conn (a_sent a)) key plaintext),
      a\<lparr>a_sent := a_sent a @ [NoRequest\<lparr>Req_Op := OpEncryptName, Req_Key := key,
                                Req_Plaintext := plaintext, Req_Reason := reason\<rparr>]\<rparr>)"

definition ask_Decrypt ::
  "connection \<Rightarrow> string \<Rightarrow> string \<Rightarrow> string \<Rightarrow> alice \<Rightarrow> (failure + (string \<times> string)) \<times> alice" where
  "ask_Decrypt conn reason key packed a =
     (map_sum FromBob id (client_Decrypt reason (conn (a_sent a)) key packed),
      a\<lparr>a_sent := a_sent a @ [NoRequest\<lparr>Req_Op := OpDecryptName, Req_Key := key,
                                Req_Packed := packed, Req_Reason := reason\<rparr>]\<rparr>)"

definition ask_DecryptMany ::
  "connection \<Rightarrow> string \<Rightarrow> string list \<Rightarrow> string list \<Rightarrow> alice \<Rightarrow>
     (failure + (string list \<times> string list)) \<times> alice" where
  "ask_DecryptMany conn reason keys packed a =
     (map_sum FromBob id (client_DecryptMany reason (conn (a_sent a)) keys packed),
      if packed = [] then a
      else a\<lparr>a_sent := a_sent a @ [NoRequest\<lparr>Req_Op := OpDecryptManyName, Req_Keys := keys,
                                     Req_PackedMany := packed, Req_Reason := reason\<rparr>]\<rparr>)"

section \<open>Writing rewrapped entries back\<close>

definition rewrap_entry :: "string \<Rightarrow> SecretEntry \<Rightarrow> SecretEntry" where
  "rewrap_entry rewrapped e =
     (let e' = e\<lparr>Value := rewrapped\<rparr> in
      case ParseVersion rewrapped of
        Inl _ \<Rightarrow> e'
      | Inr (epoch, _) \<Rightarrow> e'\<lparr>KeyEpoch := epoch\<rparr>)"

definition applyRewraps ::
  "host \<Rightarrow> string \<Rightarrow> string list \<Rightarrow> string list \<Rightarrow> alice \<Rightarrow> (failure + nat) \<times> alice" where
  "applyRewraps H dir keys rewrapped a =
     (if rewrapped = [] then (Inr 0, a)
      else if length keys \<noteq> length rewrapped then (Inl (LengthMismatch (length keys) (length rewrapped)), a)
      else
        (let toUpdate = filter (\<lambda>(k, r). r \<noteq> []) (zip keys rewrapped) in
         if toUpdate = [] then (Inr 0, a)
         else
           (case vault_load H dir a of
              None \<Rightarrow> (Inl VaultUnreadable, a)
            | Some v \<Rightarrow>
                (case vault_save H dir (vm.modify_all (map (\<lambda>(k, r). (k, rewrap_entry r)) toUpdate) v) a of
                   (ok, a') \<Rightarrow> (if ok then Inr (length toUpdate) else Inl SaveFailed, a')))))"

section \<open>Decrypting the vault\<close>

text \<open>Asking for a list of keys in one round trip, with the best-effort write-back that every
  caller makes, and the plaintexts by position: a shorter answer is an index out of range.\<close>

definition decrypt_keys ::
  "host \<Rightarrow> string \<Rightarrow> string \<Rightarrow> string list \<Rightarrow> string list \<Rightarrow> alice \<Rightarrow> (failure + string list) \<times> alice" where
  "decrypt_keys H dir reason keys packed a =
     (case loadClient H dir (a_disk a) of
        Inl e \<Rightarrow> (Inl e, a)
      | Inr (conn, _) \<Rightarrow>
          (case ask_DecryptMany conn reason keys packed a of
             (Inl e, a1) \<Rightarrow> (Inl e, a1)
           | (Inr (pts, rewraps), a1) \<Rightarrow>
               (case applyRewraps H dir keys rewraps a1 of
                  (_, a2) \<Rightarrow> (if length pts < length keys then Inl Panic else Inr (take (length keys) pts), a2))))"

text \<open>\<open>decryptAllValues\<close>: plaintext to key name; of secrets with equal values the last one in
  the order of the iteration stays.\<close>

definition decryptAllValues ::
  "host \<Rightarrow> string \<Rightarrow> alice \<Rightarrow> (failure + (string \<times> string) list) \<times> alice" where
  "decryptAllValues H dir a =
     (case vault_load H dir a of
        None \<Rightarrow> (Inl VaultUnreadable, a)
      | Some v \<Rightarrow>
          if Secrets v = [] then (Inr [], a)
          else
            (let keys = h_order H (map fst (Secrets v)) in
             case decrypt_keys H dir '''' keys (map (\<lambda>k. case Get v k of None \<Rightarrow> '''' | Some e \<Rightarrow> Value e) keys) a of
               (Inl e, a') \<Rightarrow> (Inl e, a')
             | (Inr pts, a') \<Rightarrow> (Inr (fold (\<lambda>(p, k). AList.update p k) (zip pts keys) []), a')))"

section \<open>Names and plurals\<close>

definition keyFormat :: rx where
  "keyFormat = Sq Bol (Sq key_rx Eol)"

definition plural :: "nat \<Rightarrow> string" where
  "plural n = (if n = 1 then '''' else ''s'')"

definition plural2 :: "nat \<Rightarrow> string \<Rightarrow> string \<Rightarrow> string" where
  "plural2 n singular many = (if n = 1 then singular else many)"

section \<open>Frames\<close>

text \<open>Two states that may differ in the requests sent and in the vault file only.\<close>

definition off_vault :: "string \<Rightarrow> string \<Rightarrow> bool" where
  "off_vault dir p \<longleftrightarrow> p \<noteq> VaultPath dir \<and> p \<noteq> VaultPath dir @ ''.tmp''"

definition same_but_vault :: "string \<Rightarrow> alice \<Rightarrow> alice \<Rightarrow> bool" where
  "same_but_vault dir a a' \<longleftrightarrow>
     a_stdin a' = a_stdin a \<and> a_out a' = a_out a \<and> a_typed a' = a_typed a \<and>
     (\<forall>p. off_vault dir p \<longrightarrow> a_disk a' p = a_disk a p)"

lemma same_but_vault_refl [simp, intro]: "same_but_vault dir a a"
  by (simp add: same_but_vault_def)

lemma same_but_vault_trans: "same_but_vault dir a b \<Longrightarrow> same_but_vault dir b c \<Longrightarrow> same_but_vault dir a c"
  by (simp add: same_but_vault_def)

lemma same_but_vault_sent [simp]: "same_but_vault dir a (a\<lparr>a_sent := xs\<rparr>)"
  by (simp add: same_but_vault_def)

lemma vault_save_frame:
  assumes "vault_save H dir v a = (ok, a')"
  shows "same_but_vault dir a a'" and "a_sent a' = a_sent a"
proof -
  obtain r ds where s: "Save (h_codec H) (h_fault H (a_writes a)) dir v (a_disk a) = (r, ds)"
    by (metis surj_pair)
  then have d: "off_vault dir p \<Longrightarrow> last ds p = a_disk a p" for p
    unfolding Save_def off_vault_def using wa.last_frame by blast
  from assms s have "a' = a\<lparr>a_disk := last ds, a_writes := Suc (a_writes a)\<rparr>"
    by (simp add: vault_save_def finish_write_def)
  with d show "same_but_vault dir a a'" and "a_sent a' = a_sent a"
    by (simp_all add: same_but_vault_def)
qed

lemma applyRewraps_frame:
  assumes "applyRewraps H dir keys rewrapped a = (r, a')"
  shows "same_but_vault dir a a'" and "a_sent a' = a_sent a"
  using assms unfolding applyRewraps_def Let_def
  by (auto split: if_splits option.splits prod.splits dest: vault_save_frame simp del: state_path_names)

lemma ask_frame:
  "ask_DecryptMany conn reason keys packed a = (r, a') \<Longrightarrow> same_but_vault dir a a'"
  "ask_Decrypt conn reason key p a = (r', a') \<Longrightarrow> same_but_vault dir a a'"
  "ask_Encrypt conn reason key p a = (r'', a') \<Longrightarrow> same_but_vault dir a a'"
  by (auto simp: ask_DecryptMany_def ask_Decrypt_def ask_Encrypt_def split: if_splits)

lemma decrypt_keys_frame:
  assumes "decrypt_keys H dir reason keys packed a = (r, a')"
  shows "same_but_vault dir a a'"
proof (cases "loadClient H dir (a_disk a)")
  case (Inr c)
  obtain conn cfg where c: "c = (conn, cfg)" by (cases c)
  obtain x a1 where 1: "ask_DecryptMany conn reason keys packed a = (x, a1)" by (metis surj_pair)
  note f = ask_frame(1) [OF 1, of dir]
  show ?thesis
  proof (cases x)
    case (Inr y)
    obtain z a2 where 2: "applyRewraps H dir keys (snd y) a1 = (z, a2)" by (metis surj_pair)
    with assms Inr 1 c \<open>loadClient H dir (a_disk a) = Inr c\<close> have "a' = a2"
      by (auto simp: decrypt_keys_def split: prod.splits)
    with same_but_vault_trans [OF f applyRewraps_frame(1) [OF 2]] show ?thesis by simp
  qed (use assms 1 c Inr f in \<open>auto simp: decrypt_keys_def\<close>)
qed (use assms in \<open>auto simp: decrypt_keys_def\<close>)

end
