(* ===== verification/Alice_Exec.thy ===== *)
theory Alice_Exec
  imports Alice
begin

text \<open>
  The two commands that run another program (\<open>cmd/alice/exec.go\<close>, \<open>cmd/alice/shell.go\<close>):
  the reading of \<open>--env\<close>, the allowlist gate with its auto-bless prompt, the resolution of
  placeholders through Bob, and the environment of the child.
\<close>

section \<open>The --env flag\<close>

record envEntry =
  Env_Name :: string
  Env_Val :: string

definition parse_env_entry :: "string \<Rightarrow> env_error + envEntry" where
  "parse_env_entry e =
     (case IndexByte e CHR ''='' of
        None \<Rightarrow> Inl (NoEquals e)
      | Some idx \<Rightarrow>
          if idx = 0 then Inl (NoEquals e)
          else
            (let name = take idx e; val = drop (Suc idx) e in
             if \<not> MatchString envNameRE name then Inl (BadEnvName e name)
             else if val = '''' then Inl (EmptyEnvValue e)
             else
               (case FindSuspiciousPlaceholders val of
                  first # _ \<Rightarrow>
                    if MatchString keyFormat (butlast (tl first)) then Inl (MissingPrefix e first)
                    else Inl (BadPlaceholder e first)
                | [] \<Rightarrow> Inr \<lparr>Env_Name = name, Env_Val = val\<rparr>)))"

text \<open>The entries and the vault keys they refer to, without repetition.\<close>

fun parse_env_entries :: "string list \<Rightarrow> env_error + envEntry list" where
  "parse_env_entries [] = Inr []"
| "parse_env_entries (e # raw) =
     (case parse_env_entry e of
        Inl x \<Rightarrow> Inl x
      | Inr ent \<Rightarrow>
          (case parse_env_entries raw of Inl x \<Rightarrow> Inl x | Inr ents \<Rightarrow> Inr (ent # ents)))"

definition parseEnvFlag :: "string list \<Rightarrow> env_error + (envEntry list \<times> string list)" where
  "parseEnvFlag raw =
     (case parse_env_entries raw of
        Inl x \<Rightarrow> Inl x
      | Inr ents \<Rightarrow> Inr (ents, remdups (concat (map (\<lambda>e. ExtractPlaceholders (Env_Val e)) ents))))"

section \<open>The child's environment\<close>

definition mergeEnv :: "string list \<Rightarrow> string set \<Rightarrow> string list \<Rightarrow> string list" where
  "mergeEnv resolved overridden parent =
     resolved @ filter (\<lambda>kv. case IndexByte kv CHR ''='' of
                               None \<Rightarrow> True
                             | Some idx \<Rightarrow> idx = 0 \<or> take idx kv \<notin> overridden) parent"

text \<open>Restoring the placeholders of every entry.\<close>

fun resolve_env :: "(string \<Rightarrow> string option) \<Rightarrow> envEntry list \<Rightarrow> failure + string list" where
  "resolve_env plaintexts [] = Inr []"
| "resolve_env plaintexts (e # es) =
     (let rr = Restore (Env_Val e) plaintexts in
      if RR_Missing rr \<noteq> [] then Inl (Unresolved (Env_Name e) (RR_Missing rr))
      else
        (case resolve_env plaintexts es of
           Inl x \<Rightarrow> Inl x
         | Inr rs \<Rightarrow> Inr ((Env_Name e @ ''='' @ RR_Content rr) # rs)))"

section \<open>Fetching the referenced secrets\<close>

fun lookup_keys :: "Vault \<Rightarrow> string list \<Rightarrow> failure + string list" where
  "lookup_keys v [] = Inr []"
| "lookup_keys v (k # ks) =
     (case Get v k of
        None \<Rightarrow> Inl (KeyNotStored k)
      | Some e \<Rightarrow>
          (case lookup_keys v ks of Inl x \<Rightarrow> Inl x | Inr ps \<Rightarrow> Inr (Value e # ps)))"

text \<open>The plaintexts of the keys of \<open>keySet\<close>, in the order of the map iteration.\<close>

definition fetch_keys ::
  "host \<Rightarrow> string \<Rightarrow> string \<Rightarrow> string list \<Rightarrow> alice \<Rightarrow> (failure + (string \<Rightarrow> string option)) \<times> alice" where
  "fetch_keys H dir reason keySet a =
     (if keySet = [] then (Inr (\<lambda>k. None), a)
      else
        (case vault_load H dir a of
           None \<Rightarrow> (Inl VaultUnreadable, a)
         | Some v \<Rightarrow>
             (let keys = h_order H keySet in
              case lookup_keys v keys of
                Inl x \<Rightarrow> (Inl x, a)
              | Inr packed \<Rightarrow>
                  (case decrypt_keys H dir reason keys packed a of
                     (Inl x, a') \<Rightarrow> (Inl x, a')
                   | (Inr pts, a') \<Rightarrow> (Inr (map_of (zip keys pts)), a')))))"

section \<open>The auto-bless prompt\<close>

definition confirmAppend :: "string \<Rightarrow> bool" where
  "confirmAppend inp = (ToLower (TrimSpace (fst (readLine inp))) = ''yes'')"

definition header_lines :: "string list" where
  "header_lines =
     [''# AnB exec-allowlist rules. One rule per line:'',
      ''#   <regex>'' @ [BSL] @ ''t<env-csv>'' @ [BSL] @ ''t#<label>'' @ [BSL] @ ''t<scope-csv>'',
      ''# Fields after the first are optional. Implicit ^...$ anchor.'',
      ''# scope = cli (default) and/or mcp; omitted means cli-only, so agents'',
      ''# (the mcp surface) never see the rule. Add '' @ [DQ] @ ''mcp'' @ [DQ] @ '' to expose it to agents.'',
      ''# Default deny: unmatched invocations are rejected.'',
      '''']"

definition rules_header :: string where
  "rules_header = concat (map (\<lambda>l. l @ [LF]) header_lines)"

definition appendRuleLine :: "string \<Rightarrow> string \<Rightarrow> disk \<Rightarrow> bool \<times> disk" where
  "appendRuleLine path line d =
     (let old = (case d path of Content b \<Rightarrow> b | _ \<Rightarrow> '''') in
      if d path = Unopenable then (False, d)
      else (True, d(path := Content ((if old = '''' then rules_header else old) @ line @ [LF]))))"

definition buildDenyMsgV3 :: "string \<Rightarrow> string \<Rightarrow> string list \<Rightarrow> string list \<Rightarrow> failure" where
  "buildDenyMsgV3 rulesPath cmd args envNames =
     DenyMessage rulesPath cmd args envNames (LiteralRule cmd args envNames '''')"

definition formatAuditLine :: "string \<Rightarrow> string list \<Rightarrow> Rule \<Rightarrow> string" where
  "formatAuditLine cmdPath envNames matched =
     [CHR 0xE2, CHR 0x86, CHR 0x92] @ '' exec '' @ cmdPath @ '' with env=['' @ Join envNames '' '' @ '']'' @
     (if Label matched \<noteq> '''' then '' rule=['' @ Label matched @ '']''
      else '' rule=line:'' @ Itoa (int (LineNo matched)))"

definition rulesPathOf :: "string \<Rightarrow> string" where
  "rulesPathOf dir = FilepathJoin [dir, ''exec-allowlist.rules'']"

section \<open>alice exec\<close>

text \<open>The gate: the rule that admits the invocation, or the refusal, with the disk as the
  auto-bless prompt leaves it.\<close>

definition legacy_left :: "string \<Rightarrow> disk \<Rightarrow> legacy_hint" where
  "legacy_left dir d =
     (if d (FilepathJoin [dir, ''exec-allowlist.json'']) \<noteq> Missing then JsonLeft
      else if d (FilepathJoin [dir, ''exec-allowlist.json.bak'']) \<noteq> Missing then BakLeft
      else NoLegacy)"

definition exec_gate ::
  "host \<Rightarrow> string \<Rightarrow> string \<Rightarrow> string \<Rightarrow> string list \<Rightarrow> string list \<Rightarrow> alice \<Rightarrow> (failure + Rule) \<times> alice" where
  "exec_gate H dir surface cmd args envNames a =
     (let rulesPath = rulesPathOf dir in
      case LoadFile (h_compile H) (a_disk a rulesPath) of
        Inl ErrRulesMissing \<Rightarrow> (Inl (NoRules (legacy_left dir (a_disk a))), a)
      | Inl e \<Rightarrow> (Inl (RulesBad e), a)
      | Inr rules \<Rightarrow>
          (case first_match (FilterBySurface rules surface) (Canonicalize cmd args) envNames of
             Some r \<Rightarrow> (Inr r, a)
           | None \<Rightarrow>
               if surface = ''cli'' \<and> h_stdin_tty H \<and> h_stderr_tty H then
                 if confirmAppend (a_stdin a) then
                   (case appendRuleLine rulesPath
                           (LiteralRule cmd args envNames (''auto-blessed '' @ h_now H)) (a_disk a) of
                      (ok, d) \<Rightarrow>
                        (Inl (if ok then RuleAppended rulesPath else AppendFailed), a\<lparr>a_disk := d\<rparr>))
                 else (Inl Declined, a)
               else (Inl (buildDenyMsgV3 rulesPath cmd args envNames), a)))"

text \<open>Splitting at the first standalone \<open>--\<close>.\<close>

definition split_dashes :: "string list \<Rightarrow> (string list \<times> string list) option" where
  "split_dashes args =
     (let pre = takeWhile (\<lambda>a. a \<noteq> ''--'') args in
      if pre = args then None else Some (pre, drop (Suc (length pre)) args))"

definition exec_flags :: flag_set where
  "exec_flags =
     [(''dir'', StringFlag), (''env'', StringFlag), (''reason'', StringFlag),
      (''show-match-string'', BoolFlag), (''surface'', StringFlag)]"

text \<open>\<open>envFlagValue\<close> accumulates the occurrences.\<close>

definition env_flag_vals :: "settings \<Rightarrow> string list" where
  "env_flag_vals ss = map snd (filter (\<lambda>(n, v). n = ''env'') ss)"

definition exec_reason :: "string \<Rightarrow> Rule \<Rightarrow> string" where
  "exec_reason given matched =
     (if given = '''' \<and> Label matched \<noteq> '''' then ''['' @ Label matched @ '']'' else given)"

text \<open>Past the gate: decrypt, restore, exec.\<close>

definition exec_child ::
  "host \<Rightarrow> string \<Rightarrow> string \<Rightarrow> Rule \<Rightarrow> envEntry list \<Rightarrow> string list \<Rightarrow> string list \<Rightarrow> alice \<Rightarrow> outcome \<times> alice" where
  "exec_child H dir given matched parsed keySet childArgv a =
     (case fetch_keys H dir (exec_reason given matched) keySet a of
        (Inl x, a') \<Rightarrow> (Failed x, a')
      | (Inr plaintexts, a') \<Rightarrow>
          (case resolve_env plaintexts parsed of
             Inl x \<Rightarrow> (Failed x, a')
           | Inr resolved \<Rightarrow>
               (case h_lookPath H (hd childArgv) of
                  None \<Rightarrow> (Failed (LookupFailed (hd childArgv)), a')
                | Some cmdPath \<Rightarrow>
                    (Execed cmdPath childArgv
                       (mergeEnv resolved (Env_Name ` set parsed) (h_environ H)), a'))))"

definition cmdExec :: command where
  "cmdExec H args a =
     (case split_dashes args of
        None \<Rightarrow> (Failed Usage, a)
      | Some (aliceArgs, []) \<Rightarrow> (Failed Usage, a)
      | Some (aliceArgs, cmdName # childArgs) \<Rightarrow>
          (case FlagParse exec_flags aliceArgs of
             Inl n \<Rightarrow> (Exited n, a)
           | Inr (ss, rest) \<Rightarrow>
               if rest \<noteq> [] then (Failed UnexpectedArgs, a)
               else
                 (let surface = str_flag ss ''surface'' ''cli'' in
                  if \<not> IsKnownSurface surface then (Failed (UnknownSurfaceName surface), a)
                  else
                    (case parseEnvFlag (env_flag_vals ss) of
                       Inl x \<Rightarrow> (Failed (BadEnvFlag x), a)
                     | Inr (parsed, keySet) \<Rightarrow>
                         if bool_flag ss ''show-match-string''
                         then (Returned, say [Text (Canonicalize cmdName childArgs)] a)
                         else if \<not> IsAbs cmdName then (Failed (NotAbsolute cmdName), a)
                         else
                           (let dir = OpenDir (h_environ H) (str_flag ss ''dir'' '''') in
                            case exec_gate H dir surface cmdName childArgs (map Env_Name parsed) a of
                              (Inl x, a') \<Rightarrow> (Failed x, a')
                            | (Inr matched, a') \<Rightarrow>
                                exec_child H dir (str_flag ss ''reason'' '''') matched parsed keySet
                                  (cmdName # childArgs) a')))))"

section \<open>alice shell\<close>

definition shell_flags :: flag_set where
  "shell_flags = [(''dir'', StringFlag), (''env'', StringFlag), (''reason'', StringFlag)]"

definition shell_child ::
  "host \<Rightarrow> string \<Rightarrow> string \<Rightarrow> envEntry list \<Rightarrow> string list \<Rightarrow> string \<Rightarrow> string list \<Rightarrow> alice \<Rightarrow> outcome \<times> alice" where
  "shell_child H dir given parsed keySet cmdName childArgs a =
     (case fetch_keys H dir (if given = '''' then ''[shell]'' else given) keySet a of
        (Inl x, a') \<Rightarrow> (Failed x, a')
      | (Inr plaintexts, a') \<Rightarrow>
          (case resolve_env plaintexts parsed of
             Inl x \<Rightarrow> (Failed x, a')
           | Inr resolved \<Rightarrow>
               (Execed cmdName (cmdName # childArgs)
                  (mergeEnv (resolved @ [''ALICE_SHELL=1''])
                     (insert ''ALICE_SHELL'' (Env_Name ` set parsed)) (h_environ H)), a')))"

definition cmdShell :: command where
  "cmdShell H args a =
     (case (case split_dashes args of None \<Rightarrow> (args, []) | Some p \<Rightarrow> p) of
        (aliceArgs, childArgv) \<Rightarrow>
          (case FlagParse shell_flags aliceArgs of
             Inl n \<Rightarrow> (Exited n, a)
           | Inr (ss, rest) \<Rightarrow>
               if rest \<noteq> [] then (Failed UnexpectedArgs, a)
               else if \<not> h_stdin_tty H \<or> \<not> h_stderr_tty H then (Failed NotATerminal, a)
               else
                 (case parseEnvFlag (env_flag_vals ss) of
                    Inl x \<Rightarrow> (Failed (BadEnvFlag x), a)
                  | Inr (parsed, keySet) \<Rightarrow>
                      (let shell = (if Getenv (h_environ H) ''SHELL'' = '''' then ''/bin/sh''
                                    else Getenv (h_environ H) ''SHELL'');
                           argv = (if childArgv = [] then [shell] else childArgv);
                           dir = OpenDir (h_environ H) (str_flag ss ''dir'' '''');
                           run = (\<lambda>cmdName. shell_child H dir (str_flag ss ''reason'' '''') parsed keySet
                                    cmdName (tl argv) a)
                       in if IsAbs (hd argv) then run (hd argv)
                          else (case h_lookPath H (hd argv) of
                                  None \<Rightarrow> (Failed (LookupFailed (hd argv)), a)
                                | Some resolved \<Rightarrow> run resolved)))))"

section \<open>What the commands leave alone\<close>

lemma split_dashes_Some: "split_dashes args = Some (pre, post) \<Longrightarrow> args = pre @ ''--'' # post \<and> ''--'' \<notin> set pre"
proof -
  let ?p = "\<lambda>a. a \<noteq> ''--''"
  assume s: "split_dashes args = Some (pre, post)"
  then have p: "pre = takeWhile ?p args" "pre \<noteq> args" "post = drop (Suc (length pre)) args"
    by (auto simp: split_dashes_def Let_def split: if_splits)
  from p(1,2) have "dropWhile ?p args \<noteq> []" by (metis append_Nil2 takeWhile_dropWhile_id)
  then obtain x xs where d: "dropWhile ?p args = x # xs" by (cases "dropWhile ?p args") auto
  then have "x = ''--''" using hd_dropWhile [of ?p args] by auto
  moreover have a: "args = pre @ x # xs" using takeWhile_dropWhile_id [of ?p args] d p(1) by simp
  moreover have "post = xs" using p(3) unfolding a by simp
  moreover have "''--'' \<notin> set pre" unfolding p(1) by (blast dest: set_takeWhileD)
  ultimately show ?thesis by simp
qed

lemma fetch_keys_none [simp]: "fetch_keys H dir reason [] a = (Inr (\<lambda>k. None), a)"
  by (simp add: fetch_keys_def)

lemma fetch_keys_frame: "fetch_keys H dir reason ks a = (r, a') \<Longrightarrow> same_but_vault dir a a'"
  by (auto simp: fetch_keys_def Let_def split: if_splits option.splits sum.splits prod.splits
      dest: decrypt_keys_frame)

lemma rulesPathOf_name [simp]: "rulesPathOf dir = dir_prefix dir @ ''exec-allowlist.rules''"
  by (simp add: rulesPathOf_def FilepathJoin_name file_name_def)

section \<open>The course of an exec\<close>

lemma exec_gate_admits:
  assumes "exec_gate H dir surface cmd args es a = (Inr r, a')"
  shows "a' = a" and "\<exists>rules. LoadFile (h_compile H) (a_disk a (rulesPathOf dir)) = Inr rules \<and>
    r \<in> set rules \<and> AppliesTo r surface \<and> Matches r (Canonicalize cmd args) es"
  using assms unfolding exec_gate_def Let_def
  by (auto simp: first_match_def FilterBySurface_def split: sum.splits load_error.splits option.splits if_splits
      prod.splits dest!: find_SomeD simp del: rulesPathOf_name)

lemma exec_gate_refuses:
  assumes "exec_gate H dir surface cmd args es a = (Inl x, a')"
  shows "a' = a \<or> (surface = ''cli'' \<and> h_stdin_tty H \<and> h_stderr_tty H \<and> confirmAppend (a_stdin a) \<and>
      a' = a\<lparr>a_disk := snd (appendRuleLine (rulesPathOf dir)
        (LiteralRule cmd args es (''auto-blessed '' @ h_now H)) (a_disk a))\<rparr>)"
  using assms unfolding exec_gate_def Let_def
  by (auto split: sum.splits load_error.splits option.splits if_splits prod.splits simp del: rulesPathOf_name)

text \<open>An invocation, as its arguments give it: directory, surface, program, program arguments,
  entries and keys.\<close>

definition invokes ::
  "host \<Rightarrow> string list \<Rightarrow> settings \<Rightarrow> string \<Rightarrow> string list \<Rightarrow> envEntry list \<Rightarrow> string list \<Rightarrow> bool" where
  "invokes H args ss cmd cargs parsed keySet \<longleftrightarrow>
     (\<exists>pre. split_dashes args = Some (pre, cmd # cargs) \<and> FlagParse exec_flags pre = Inr (ss, [])) \<and>
     parseEnvFlag (env_flag_vals ss) = Inr (parsed, keySet) \<and> IsAbs cmd \<and>
     IsKnownSurface (str_flag ss ''surface'' ''cli'')"

abbreviation "exec_dir H ss \<equiv> OpenDir (h_environ H) (str_flag ss ''dir'' '''')"
abbreviation "exec_surface ss \<equiv> str_flag ss ''surface'' ''cli''"

lemma cmdExec_cases:
  assumes "cmdExec H args a = (out, a')"
  obtains (early) "a_sent a' = a_sent a" "a_disk a' = a_disk a" "\<And>p v e. out \<noteq> Execed p v e"
  | (refused) ss cmd cargs parsed keySet x where "invokes H args ss cmd cargs parsed keySet"
      "exec_gate H (exec_dir H ss) (exec_surface ss) cmd cargs (map Env_Name parsed) a = (Inl x, a')"
      "out = Failed x"
  | (admitted) ss cmd cargs parsed keySet r where "invokes H args ss cmd cargs parsed keySet"
      "exec_gate H (exec_dir H ss) (exec_surface ss) cmd cargs (map Env_Name parsed) a = (Inr r, a)"
      "exec_child H (exec_dir H ss) (str_flag ss ''reason'' '''') r parsed keySet (cmd # cargs) a = (out, a')"
proof (cases "split_dashes args")
  case None
  with assms early show ?thesis by (auto simp: cmdExec_def)
next
  case (Some p)
  obtain pre post where p: "p = (pre, post)" by (cases p)
  show ?thesis
  proof (cases post)
    case Nil
    with assms Some p early show ?thesis by (auto simp: cmdExec_def)
  next
    case (Cons cmd cargs)
    note s = Some [unfolded p Cons]
    show ?thesis
    proof (cases "FlagParse exec_flags pre")
      case (Inl n)
      with assms s early show ?thesis by (auto simp: cmdExec_def)
    next
      case (Inr q)
      obtain ss rest where q: "q = (ss, rest)" by (cases q)
      note f = Inr [unfolded q]
      show ?thesis
      proof (cases "rest = [] \<and> IsKnownSurface (exec_surface ss) \<and> \<not> bool_flag ss ''show-match-string'' \<and> IsAbs cmd")
        case True
        show ?thesis
        proof (cases "parseEnvFlag (env_flag_vals ss)")
          case (Inl x)
          with assms s f True early show ?thesis by (auto simp: cmdExec_def Let_def)
        next
          case e: (Inr y)
          obtain parsed keySet where y: "y = (parsed, keySet)" by (cases y)
          from True s f e y have i: "invokes H args ss cmd cargs parsed keySet" by (simp add: invokes_def)
          obtain g a1 where g: "exec_gate H (exec_dir H ss) (exec_surface ss) cmd cargs (map Env_Name parsed) a = (g, a1)"
            by (metis surj_pair)
          show ?thesis
          proof (cases g)
            case (Inl x)
            with assms s f True e y g i refused show ?thesis by (simp add: cmdExec_def Let_def)
          next
            case (Inr r)
            with g exec_gate_admits(1) have "a1 = a" by blast
            with assms s f True e y g i Inr admitted show ?thesis by (simp add: cmdExec_def Let_def)
          qed
        qed
      next
        case False
        with assms s f early show ?thesis
          by (auto simp: cmdExec_def Let_def say_def split: if_splits sum.splits)
      qed
    qed
  qed
qed

lemma exec_child_Execed:
  assumes "exec_child H dir given r parsed keySet argv a = (Execed path argv' env, a')"
  shows "argv' = argv" and "h_lookPath H (hd argv) = Some path"
    and "\<exists>plaintexts resolved. fetch_keys H dir (exec_reason given r) keySet a = (Inr plaintexts, a') \<and>
      resolve_env plaintexts parsed = Inr resolved \<and> env = mergeEnv resolved (Env_Name ` set parsed) (h_environ H)"
  using assms by (auto simp: exec_child_def split: prod.splits sum.splits option.splits)

lemma exec_child_frame:
  assumes "exec_child H dir given r parsed keySet argv a = (out, a')"
  shows "same_but_vault dir a a'"
  using assms by (auto simp: exec_child_def split: prod.splits sum.splits option.splits dest: fetch_keys_frame)

section \<open>The child's environment, as the child reads it\<close>

lemma parse_env_entry_name:
  assumes "parse_env_entry e = Inr ent"
  shows "env_name (Env_Name ent)"
proof (cases "IndexByte e CHR ''=''")
  case (Some idx)
  with assms have "MatchString envNameRE (Env_Name ent)"
    by (auto simp: parse_env_entry_def Let_def split: if_splits list.splits)
  then show ?thesis by (simp add: envNameRE_iff)
qed (use assms in \<open>simp add: parse_env_entry_def\<close>)

lemma parse_env_entries_names: "parse_env_entries raw = Inr ents \<Longrightarrow> \<forall>e \<in> set ents. env_name (Env_Name e)"
  by (induction raw arbitrary: ents) (auto split: sum.splits dest: parse_env_entry_name)

lemma parseEnvFlag_names: "parseEnvFlag raw = Inr (ents, ks) \<Longrightarrow> \<forall>e \<in> set ents. env_name (Env_Name e)"
  by (auto simp: parseEnvFlag_def split: sum.splits dest: parse_env_entries_names)

lemma env_name_no_eq: "env_name n \<Longrightarrow> CHR ''='' \<notin> set n \<and> n \<noteq> []"
proof -
  assume e: "env_name n"
  have "\<not> (is_alnum CHR ''='' \<or> CHR ''='' = CHR ''_'')" by code_simp
  with e show ?thesis by (auto simp: env_name_def list_all_iff neq_Nil_conv is_alnum_def)
qed

lemma binds_entry: "env_name m \<Longrightarrow> CHR ''='' \<notin> set n \<Longrightarrow> binds n (m @ CHR ''='' # v) \<longleftrightarrow> n = m"
proof -
  assume "env_name m" and n: "CHR ''='' \<notin> set n"
  then have m: "CHR ''='' \<notin> set m" "m \<noteq> []" by (auto dest: env_name_no_eq)
  have "IndexByte (m @ CHR ''='' # v) CHR ''='' = Some (length m)" using m(1) by (rule IndexByte_append)
  with n m(2) show ?thesis by (auto simp: binds_def name_prefix_iff simp del: append_Cons)
qed

lemma resolve_env_find:
  assumes "resolve_env pts parsed = Inr resolved" and "\<forall>e \<in> set parsed. env_name (Env_Name e)"
    and "CHR ''='' \<notin> set n"
  shows "find (binds n) resolved =
    map_option (\<lambda>e. Env_Name e @ ''='' @ RR_Content (Restore (Env_Val e) pts)) (find (\<lambda>e. Env_Name e = n) parsed)"
  using assms(1,2)
proof (induction parsed arbitrary: resolved)
  case (Cons e es)
  then obtain rs where r: "resolve_env pts es = Inr rs"
    "resolved = (Env_Name e @ ''='' @ RR_Content (Restore (Env_Val e) pts)) # rs"
    by (auto simp: Let_def split: if_splits sum.splits)
  with Cons.IH [OF r(1)] Cons.prems(2) assms(3) show ?case by (auto simp: binds_entry)
qed simp

text \<open>What the child reads under a name: the restored value of the first entry of that name,
  and the inherited value of a name that was not given.\<close>

lemma Getenv_merged:
  assumes "resolve_env pts parsed = Inr resolved" and "\<forall>e \<in> set parsed. env_name (Env_Name e)"
    and "CHR ''='' \<notin> set n"
  shows "Getenv (mergeEnv resolved (Env_Name ` set parsed) parent) n =
    (case find (\<lambda>e. Env_Name e = n) parsed of
       None \<Rightarrow> Getenv parent n | Some e \<Rightarrow> RR_Content (Restore (Env_Val e) pts))"
proof (cases "find (\<lambda>e. Env_Name e = n) parsed")
  case None
  then have n: "n \<notin> Env_Name ` set parsed" by (auto simp: find_None_iff)
  have "find (binds n) (filter (\<lambda>kv. case IndexByte kv CHR ''='' of None \<Rightarrow> True
      | Some idx \<Rightarrow> idx = 0 \<or> take idx kv \<notin> Env_Name ` set parsed) parent) = find (binds n) parent"
    using n assms(3) by (intro find_filter) (auto simp: binds_def name_prefix_iff)
  with None resolve_env_find [OF assms] show ?thesis
    by (simp add: Getenv_binds mergeEnv_def find_append)
next
  case (Some e)
  then have "Env_Name e = n" by (auto dest: find_SomeD)
  with Some resolve_env_find [OF assms] show ?thesis
    by (simp add: Getenv_binds mergeEnv_def find_append)
qed

section \<open>The rules file after a blessing\<close>

lemma header_comments: "\<forall>l \<in> set header_lines. comment_line l"
proof -
  have "list_all comment_line header_lines" by code_simp
  then show ?thesis by (simp only: list_all_iff)
qed

lemma header_loads: "LoadFile compile (Content rules_header) = Inr []"
  using comment_lines_load [OF header_comments, of compile 1]
  by (simp add: LoadFile_Inr rules_header_def)

lemma header_ends: "ends_line rules_header"
  by (simp only: rules_header_def ends_lines)

lemma exec_gate_Inr_iff:
  "(\<exists>r. fst (exec_gate H dir surface cmd args es a) = Inr r) \<longleftrightarrow>
   (\<exists>rules r. LoadFile (h_compile H) (a_disk a (rulesPathOf dir)) = Inr rules \<and>
      r \<in> set rules \<and> AppliesTo r surface \<and> Matches r (Canonicalize cmd args) es)"
proof
  assume "\<exists>r. fst (exec_gate H dir surface cmd args es a) = Inr r"
  then obtain r a' where "exec_gate H dir surface cmd args es a = (Inr r, a')" by (metis prod.collapse)
  from exec_gate_admits(2) [OF this]
  show "\<exists>rules r. LoadFile (h_compile H) (a_disk a (rulesPathOf dir)) = Inr rules \<and>
      r \<in> set rules \<and> AppliesTo r surface \<and> Matches r (Canonicalize cmd args) es" by blast
next
  assume "\<exists>rules r. LoadFile (h_compile H) (a_disk a (rulesPathOf dir)) = Inr rules \<and>
      r \<in> set rules \<and> AppliesTo r surface \<and> Matches r (Canonicalize cmd args) es"
  then obtain rules r where l: "LoadFile (h_compile H) (a_disk a (rulesPathOf dir)) = Inr rules"
    and r: "r \<in> set rules" "AppliesTo r surface" "Matches r (Canonicalize cmd args) es" by blast
  from r have "first_match (FilterBySurface rules surface) (Canonicalize cmd args) es \<noteq> None"
    by (auto simp: first_match_def FilterBySurface_def find_None_iff)
  with l show "\<exists>r. fst (exec_gate H dir surface cmd args es a) = Inr r"
    by (auto simp: exec_gate_def simp del: rulesPathOf_name)
qed

lemma exec_gate_blessed:
  assumes "exec_gate H dir surface cmd args es a = (Inl (RuleAppended p), a')"
  shows "\<exists>s rules. a_disk a (rulesPathOf dir) = Content s \<and> LoadFile (h_compile H) (Content s) = Inr rules \<and>
    surface = ''cli'' \<and> a_disk a' (rulesPathOf dir) = Content ((if s = '''' then rules_header else s) @
      LiteralRule cmd args es (''auto-blessed '' @ h_now H) @ [LF])"
proof -
  from assms obtain rules where l: "LoadFile (h_compile H) (a_disk a (rulesPathOf dir)) = Inr rules"
    by (auto simp: exec_gate_def Let_def split: sum.splits load_error.splits simp del: rulesPathOf_name)
  then obtain s where s: "a_disk a (rulesPathOf dir) = Content s"
    by (cases "a_disk a (rulesPathOf dir)") (simp_all add: LoadFile_def)
  with assms l show ?thesis
    by (auto simp: exec_gate_def appendRuleLine_def Let_def buildDenyMsgV3_def
        split: option.splits if_splits simp del: rulesPathOf_name)
qed

section \<open>A small machine\<close>

definition demo_codec :: codec where
  "demo_codec = \<lparr>marshal = (\<lambda>v. ''{}''), unmarshal = (\<lambda>b. None),
     marshal_config = (\<lambda>c. ''{}''), unmarshal_config = (\<lambda>b. None)\<rparr>"

definition demo_host :: host where
  "demo_host = \<lparr>h_environ = [''HOME=/h'', ''PATH=/bin''], h_stdin_tty = True, h_stdout_tty = True,
     h_stderr_tty = True, h_now = ''2026'', h_order = (\<lambda>ks. ks), h_lookPath = Some,
     h_compile = literal_compile, h_sha256 = (\<lambda>s. replicate 64 CHR ''0''), h_words = [], h_rnd = (\<lambda>i n. i mod n),
     h_lookup_user = (\<lambda>s. None), h_lookup_group = (\<lambda>s. None), h_csr = (\<lambda>s. None), h_codec = demo_codec,
     h_fault = (\<lambda>i. NoFault), h_dial = (\<lambda>c k q t. None)\<rparr>"

definition demo_rules :: "string \<Rightarrow> disk" where
  "demo_rules content = (\<lambda>p. if p = ''/h/.anb/alice/exec-allowlist.rules'' then Content content else Missing)"

definition demo_alice :: "string \<Rightarrow> string \<Rightarrow> alice" where
  "demo_alice content inp = \<lparr>a_disk = demo_rules content, a_sent = [], a_writes = 0, a_draws = 0,
     a_modes = Map.empty, a_owners = Map.empty, a_stdin = inp, a_typed = [], a_out = []\<rparr>"

section \<open>Properties\<close>



text \<open>C15: Only the operator at a terminal adds rules: a run of \<open>alice exec\<close> that changes the rules
  file was made on the cli surface with both standard input and standard error a terminal,
  read the word yes, and did not run the program.\<close>

theorem rules_change_needs_operator:
  assumes "cmdExec H args a = (out, a')"
    and "invokes H args ss cmd cargs parsed keySet"
    and "a_disk a' (rulesPathOf (exec_dir H ss)) \<noteq> a_disk a (rulesPathOf (exec_dir H ss))"
  shows "exec_surface ss = ''cli'' \<and> h_stdin_tty H \<and> h_stderr_tty H \<and> confirmAppend (a_stdin a) \<and>
    (\<exists>x. out = Failed x) \<and> a_sent a' = a_sent a"
proof -
  have same: "ss' = ss" if "invokes H args ss' cmd' cargs' parsed' keySet'" for ss' cmd' cargs' parsed' keySet'
    using that assms(2) by (auto simp: invokes_def)
  from assms(1) show ?thesis
  proof (cases rule: cmdExec_cases)
    case early
    with assms(3) show ?thesis by simp
  next
    case refused
    note s = same [OF refused(1)]
    show ?thesis
      using exec_gate_refuses [OF refused(2)] refused(3) assms(3) unfolding s by auto
  next
    case admitted
    from exec_child_frame [OF admitted(3)] same [OF admitted(1)] assms(3)
    show ?thesis by (auto simp: same_but_vault_def off_vault_def)
  qed
qed

theorem rules_change_needs_operator_witness:
  "\<exists>x a'. cmdExec demo_host [''--'', ''/b''] (demo_alice (''^/c$'' @ [LF]) (''yes'' @ [LF])) = (Failed x, a') \<and>
    a_sent a' = [] \<and> confirmAppend (''yes'' @ [LF])"
proof -
  let ?args = "[''--'', ''/b'']" and ?a = "demo_alice (''^/c$'' @ [LF]) (''yes'' @ [LF])"
  obtain out a' where r: "cmdExec demo_host ?args ?a = (out, a')" by (metis surj_pair)
  have "FlagParse exec_flags [] = Inr ([], [])" "split_dashes ?args = Some ([], [''/b''])"
    "parseEnvFlag (env_flag_vals []) = Inr ([], [])" "IsAbs ''/b''" "IsKnownSurface (exec_surface [])" by code_simp+
  then have i: "invokes demo_host ?args [] ''/b'' [] [] []" by (simp add: invokes_def)
  have p: "rulesPathOf (exec_dir demo_host []) = ''/h/.anb/alice/exec-allowlist.rules''" by code_simp
  have "a_disk (snd (cmdExec demo_host ?args ?a)) ''/h/.anb/alice/exec-allowlist.rules''
      \<noteq> a_disk ?a ''/h/.anb/alice/exec-allowlist.rules''"
    by code_simp
  then have d: "a_disk a' (rulesPathOf (exec_dir demo_host [])) \<noteq> a_disk ?a (rulesPathOf (exec_dir demo_host []))"
    unfolding p r by simp
  from rules_change_needs_operator [OF r i d] r show ?thesis by (auto simp: demo_alice_def)
qed

text \<open>C16: The child sees exactly the environment it should: under every name it reads the value of
  the first \<open>--env\<close> entry of that name, with its placeholders replaced by what Bob
  decrypted, or the inherited value of a name that was not given; its arguments are
  those after the separator, unchanged, so that no secret enters them.\<close>

theorem exec_environment:
  assumes "cmdExec H args a = (Execed path argv env, a')" and "CHR ''='' \<notin> set n"
  shows "\<exists>ss cmd cargs parsed keySet r pts. invokes H args ss cmd cargs parsed keySet \<and> argv = cmd # cargs \<and>
    fetch_keys H (exec_dir H ss) (exec_reason (str_flag ss ''reason'' '''') r) keySet a = (Inr pts, a') \<and>
    Getenv env n =
      (case find (\<lambda>e. Env_Name e = n) parsed of
         None \<Rightarrow> Getenv (h_environ H) n | Some e \<Rightarrow> RR_Content (Restore (Env_Val e) pts))"
  using assms(1)
proof (cases rule: cmdExec_cases)
  case (admitted ss cmd cargs parsed keySet r)
  note c = exec_child_Execed [OF admitted(3)]
  from c(3) obtain pts resolved where f:
    "fetch_keys H (exec_dir H ss) (exec_reason (str_flag ss ''reason'' '''') r) keySet a = (Inr pts, a')"
    "resolve_env pts parsed = Inr resolved" "env = mergeEnv resolved (Env_Name ` set parsed) (h_environ H)"
    by blast
  from admitted(1) have names: "\<forall>e \<in> set parsed. env_name (Env_Name e)"
    by (auto simp: invokes_def dest: parseEnvFlag_names)
  show ?thesis
    using admitted(1) c(1) f(1) Getenv_merged [OF f(2) names assms(2), of "h_environ H"]
    unfolding f(3) by blast
qed blast+

theorem exec_environment_witness:
  "\<exists>env a'. cmdExec demo_host [''--env'', ''A=x=1'', ''--'', ''/b''] (demo_alice ([''^/b$'' ! 0] @ ''/b$'' @ [TAB] @ ''A'' @ [LF]) '''')
      = (Execed ''/b'' [''/b''] env, a') \<and> Getenv env ''HOME'' = ''/h''"
proof -
  let ?args = "[''--env'', ''A=x=1'', ''--'', ''/b'']"
  let ?a = "demo_alice ([''^/b$'' ! 0] @ ''/b$'' @ [TAB] @ ''A'' @ [LF]) ''''"
  obtain out a' where r: "cmdExec demo_host ?args ?a = (out, a')" by (metis surj_pair)
  have "fst (cmdExec demo_host ?args ?a) = Execed ''/b'' [''/b''] [''A=x=1'', ''HOME=/h'', ''PATH=/bin'']"
    by code_simp
  with r have x: "cmdExec demo_host ?args ?a = (Execed ''/b'' [''/b''] [''A=x=1'', ''HOME=/h'', ''PATH=/bin''], a')"
    by simp
  have n: "CHR ''='' \<notin> set ''HOME''" by simp
  from exec_environment [OF x n] obtain ss cmd cargs parsed keySet rl pts where
    i: "invokes demo_host ?args ss cmd cargs parsed keySet"
    and g: "Getenv [''A=x=1'', ''HOME=/h'', ''PATH=/bin''] ''HOME'' =
      (case find (\<lambda>e. Env_Name e = ''HOME'') parsed of
         None \<Rightarrow> Getenv (h_environ demo_host) ''HOME'' | Some e \<Rightarrow> RR_Content (Restore (Env_Val e) pts))"
    by blast
  have s: "split_dashes ?args = Some ([''--env'', ''A=x=1''], [''/b''])"
    "FlagParse exec_flags [''--env'', ''A=x=1''] = Inr ([(''env'', ''A=x=1'')], [])"
    "parseEnvFlag (env_flag_vals [(''env'', ''A=x=1'')]) = Inr ([\<lparr>Env_Name = ''A'', Env_Val = ''x=1''\<rparr>], [])"
    by code_simp+
  with i have "parsed = [\<lparr>Env_Name = ''A'', Env_Val = ''x=1''\<rparr>]" by (auto simp: invokes_def)
  with g have "Getenv [''A=x=1'', ''HOME=/h'', ''PATH=/bin''] ''HOME'' = Getenv (h_environ demo_host) ''HOME''" by simp
  moreover have "Getenv (h_environ demo_host) ''HOME'' = ''/h''" by code_simp
  ultimately show ?thesis using x by auto
qed



text \<open>A rules file whose last line lacks a line feed loses that rule when a line is appended: the
  new rule continues the old line, and the file has no more lines than before.\<close>

theorem blessing_merges_lines:
  assumes "exec_gate H dir surface cmd args es a = (Inl (RuleAppended p), a')"
    and "a_disk a (rulesPathOf dir) = Content (t @ s)" and "ends_line t" and "\<not> snd (scan_lines t)"
    and "s \<noteq> []" and "LF \<notin> set s" and "CR \<notin> set s"
    and "\<forall>e \<in> set es. MatchString envNameRE e" and "list_all graph (h_now H)"
    and "length (s @ LiteralRule cmd args es (''auto-blessed '' @ h_now H)) < scanBufSize"
  shows "\<exists>b. a_disk a' (rulesPathOf dir) = Content b \<and>
    scan_lines (t @ s) = (fst (scan_lines t) @ [s], False) \<and>
    scan_lines b = (fst (scan_lines t) @ [s @ LiteralRule cmd args es (''auto-blessed '' @ h_now H)], False)"
proof -
  let ?line = "LiteralRule cmd args es (''auto-blessed '' @ h_now H)"
  from exec_gate_blessed [OF assms(1)] assms(2,5)
  have d: "a_disk a' (rulesPathOf dir) = Content ((t @ s) @ ?line @ [LF])" by auto
  have g: "\<not> graph TAB" "\<not> graph LF" "\<not> graph CR" by (simp_all add: graph_def)
  with assms(9) have clean: "LF \<notin> set (''auto-blessed '' @ h_now H)" "CR \<notin> set (''auto-blessed '' @ h_now H)"
    by (auto simp: list_all_iff)
  have names: "\<forall>e \<in> set es. env_name e" using assms(8) by (simp add: envNameRE_iff)
  note line = LiteralRule_line [OF names clean, of cmd args]
  have "scan_lines s = ([s], False)"
  proof -
    have "IndexByte s LF = None" using assms(6) by (simp add: IndexByte_None)
    moreover have "length s < scanBufSize" using assms(10) by (simp del: append.simps)
    moreover have "dropCR s = s" using assms(5,7) by (auto simp: dropCR_def dest: last_in_set)
    ultimately show ?thesis using assms(5) by (subst scan_lines.simps) simp
  qed
  moreover have "scan_lines ((s @ ?line) @ [LF]) = ([dropCR (s @ ?line)], False)"
    by (rule scan_one_line) (use assms(6,10) line(3) in simp_all)
  moreover have "dropCR (s @ ?line) = s @ ?line"
    using line(1,4) by (auto simp: dropCR_def dest: last_in_set)
  ultimately show ?thesis
    using scan_lines_append [OF assms(3,4), of s] scan_lines_append [OF assms(3,4), of "s @ ?line @ [LF]"] d
    by simp
qed


theorem blessing_merges_lines_witness:
  "\<exists>p a' b. exec_gate demo_host ''/h/.anb/alice'' ''cli'' ''/b'' [] [] (demo_alice ''^/c$'' ''yes'') =
       (Inl (RuleAppended p), a') \<and>
     a_disk a' ''/h/.anb/alice/exec-allowlist.rules'' = Content b \<and> length (fst (scan_lines b)) = 1"
proof -
  let ?d = "''/h/.anb/alice''" and ?a = "demo_alice ''^/c$'' ''yes''"
  obtain x a' where r: "exec_gate demo_host ?d ''cli'' ''/b'' [] [] ?a = (x, a')" by (metis surj_pair)
  have "fst (exec_gate demo_host ?d ''cli'' ''/b'' [] [] ?a) = Inl (RuleAppended ''/h/.anb/alice/exec-allowlist.rules'')"
    by code_simp
  with r have g: "exec_gate demo_host ?d ''cli'' ''/b'' [] [] ?a =
      (Inl (RuleAppended ''/h/.anb/alice/exec-allowlist.rules''), a')" by simp
  have h: "h_now demo_host = ''2026''" by (simp add: demo_host_def)
  have p: "rulesPathOf ?d = ''/h/.anb/alice/exec-allowlist.rules''" by code_simp
  then have c: "a_disk ?a (rulesPathOf ?d) = Content ([] @ ''^/c$'')"
    by (simp add: demo_alice_def demo_rules_def)
  have n: "list_all graph (h_now demo_host)" unfolding h by code_simp
  have l: "length (''^/c$'' @ LiteralRule ''/b'' [] [] (''auto-blessed '' @ h_now demo_host)) < scanBufSize"
    unfolding h by code_simp
  have t: "ends_line []" "\<not> snd (scan_lines [])" "fst (scan_lines []) = []" by code_simp+
  from blessing_merges_lines [OF g c t(1,2) _ _ _ _ n l] obtain b where
    b: "a_disk a' (rulesPathOf ?d) = Content b" "fst (scan_lines b) = [''^/c$'' @ LiteralRule ''/b'' [] [] (''auto-blessed '' @ h_now demo_host)]"
    unfolding t(3) by force
  from g b(1) [unfolded p] have "length (fst (scan_lines b)) = 1" unfolding b(2) by simp
  with g b(1) [unfolded p] show ?thesis by blast
qed

end
