(* ===== verification/Alice_Files.thy ===== *)
theory Alice_Files
  imports Alice_Exec
begin

text \<open>
  The commands that move file contents across the redaction boundary (\<open>cmd/alice/safe.go\<close>:
  read, redact, write; \<open>cmd/alice/sensitive.go\<close>: scan; \<open>cmd/alice/template.go\<close>: template).
\<close>

section \<open>alice read, alice redact\<close>

definition dir_flags :: flag_set where
  "dir_flags = [(''dir'', StringFlag)]"

text \<open>The values to redact: those of the vault, if there is one.\<close>

definition known_values ::
  "host \<Rightarrow> string \<Rightarrow> alice \<Rightarrow> (failure + (string \<times> string) list) \<times> alice" where
  "known_values H dir a =
     (if VaultExists dir (a_disk a) then decryptAllValues H dir a else (Inr [], a))"

text \<open>Lines numbered as by \<open>cat -n\<close>, the numbers right-aligned.\<close>

definition pad_left :: "nat \<Rightarrow> string \<Rightarrow> string" where
  "pad_left w s = replicate (w - length s) CHR '' '' @ s"

definition printCatN :: "string \<Rightarrow> string \<Rightarrow> out_line list" where
  "printCatN shown raw =
     (let ls = Split shown LF;
          lines = (if HasSuffix raw [LF] \<and> ls \<noteq> [] \<and> last ls = '''' then butlast ls else ls);
          width = max 6 (length (nat_digits (length lines)))
      in map (\<lambda>(i, l). Text (pad_left width (nat_digits (Suc i)) @ [TAB] @ l)) (enumerate 0 lines))"

definition cmdRead :: command where
  "cmdRead H args a =
     (case parse_args dir_flags args of
        Inl n \<Rightarrow> (Exited n, a)
      | Inr (ss, pos) \<Rightarrow>
          if length pos \<noteq> 1 then (Failed Usage, a)
          else
            (case a_disk a (hd pos) of
               Content raw \<Rightarrow>
                 (case known_values H (OpenDir (h_environ H) (str_flag ss ''dir'' '''')) a of
                    (Inl x, a1) \<Rightarrow> (Failed x, a1)
                  | (Inr vals, a1) \<Rightarrow> (Returned, say (printCatN (Redact (h_sha256 H) raw vals) raw) a1))
             | _ \<Rightarrow> (Failed (FileNotFound (hd pos)), a)))"

definition cmdRedact :: command where
  "cmdRedact H args a =
     (case parse_args dir_flags args of
        Inl n \<Rightarrow> (Exited n, a)
      | Inr (ss, pos) \<Rightarrow>
          (let raw = a_stdin a; a0 = a\<lparr>a_stdin := ''''\<rparr> in
           case known_values H (OpenDir (h_environ H) (str_flag ss ''dir'' '''')) a0 of
             (Inl x, a1) \<Rightarrow> (Failed x, a1)
           | (Inr vals, a1) \<Rightarrow> (Returned, say [Text (Redact (h_sha256 H) raw vals)] a1)))"

section \<open>alice scan\<close>

definition scan_flags :: flag_set where
  "scan_flags = [(''dir'', StringFlag), (''json'', BoolFlag)]"

definition vaulted_hits :: "(string \<times> string) list \<Rightarrow> string \<Rightarrow> (nat \<times> string) list" where
  "vaulted_hits vals raw =
     concat (map (\<lambda>(i, line). map (\<lambda>(v, k). (Suc i, k)) (filter (\<lambda>(v, k). v \<noteq> '''' \<and> Contains line v) vals))
               (enumerate 0 (Split raw LF)))"

definition suspect_hits :: "string \<Rightarrow> (nat \<times> string) list" where
  "suspect_hits shown =
     concat (map (\<lambda>(i, line). map (\<lambda>m. (Suc i, TrimSuffix (TrimPrefix m placeholderPrefix) ''>''))
                                (FindAllString unvaultedRE line))
               (enumerate 0 (Split shown LF)))"

text \<open>The two output formats carry the same hits.\<close>

definition cmdScan :: command where
  "cmdScan H args a =
     (case parse_args scan_flags args of
        Inl n \<Rightarrow> (Exited n, a)
      | Inr (ss, pos) \<Rightarrow>
          if length pos \<noteq> 1 then (Failed Usage, a)
          else
            (case a_disk a (hd pos) of
               Content raw \<Rightarrow>
                 (case known_values H (OpenDir (h_environ H) (str_flag ss ''dir'' '''')) a of
                    (Inl x, a1) \<Rightarrow> (Failed x, a1)
                  | (Inr vals, a1) \<Rightarrow>
                      (Returned,
                       say (map (\<lambda>(n, k). Hit True n k) (vaulted_hits vals raw) @
                            map (\<lambda>(n, k). Hit False n k) (suspect_hits (Redact (h_sha256 H) raw vals))) a1))
             | _ \<Rightarrow> (Failed (FileNotFound (hd pos)), a)))"

section \<open>alice write\<close>

definition write_flags :: flag_set where
  "write_flags = [(''dir'', StringFlag), (''content'', StringFlag), (''quiet'', BoolFlag)]"

text \<open>The plaintexts of those placeholders of the content that the vault has.\<close>

definition resolve_known ::
  "host \<Rightarrow> string \<Rightarrow> string \<Rightarrow> Vault \<Rightarrow> alice \<Rightarrow> (failure + (string \<Rightarrow> string option)) \<times> alice" where
  "resolve_known H dir content v a =
     (let keys = filter (Has v) (ExtractPlaceholders content);
          packed = map (\<lambda>k. case Get v k of None \<Rightarrow> '''' | Some e \<Rightarrow> Value e) keys
      in if packed = [] then (Inr (\<lambda>k. None), a)
         else
           (case decrypt_keys H dir '''' keys packed a of
              (Inl x, a1) \<Rightarrow> (Inl x, a1)
            | (Inr pts, a1) \<Rightarrow> (Inr (map_of (zip keys pts)), a1)))"

definition write_restored :: "host \<Rightarrow> string \<Rightarrow> string \<Rightarrow> alice \<Rightarrow> outcome \<times> alice" where
  "write_restored H filePath restored a =
     (let write = (\<lambda>final. case os_create filePath final a of
                             (ok, a1) \<Rightarrow> (if ok then Returned else Failed WriteFailed, a1))
      in if \<not> MatchString unvaultedRE restored then write restored
         else
           (case a_disk a filePath of
              Content existing \<Rightarrow>
                (case RestoreUnvaulted (h_sha256 H) restored existing of
                   (final, n, unmatched) \<Rightarrow>
                     if unmatched \<noteq> [] then (Failed (UnmatchedUnvaulted (length unmatched)), a) else write final)
            | _ \<Rightarrow> (Failed NoExistingFile, a)))"

definition cmdWrite :: command where
  "cmdWrite H args a =
     (case parse_args write_flags args of
        Inl n \<Rightarrow> (Exited n, a)
      | Inr (ss, pos) \<Rightarrow>
          if length pos \<noteq> 1 then (Failed Usage, a)
          else
            (let dir = OpenDir (h_environ H) (str_flag ss ''dir'' '''');
                 content = (if isSet ss ''content'' then str_flag ss ''content'' '''' else a_stdin a);
                 a0 = (if isSet ss ''content'' then a else a\<lparr>a_stdin := ''''\<rparr>)
             in case vault_load H dir a0 of
                  None \<Rightarrow> (Failed VaultUnreadable, a0)
                | Some v \<Rightarrow>
                    (case resolve_known H dir content v a0 of
                       (Inl x, a1) \<Rightarrow> (Failed x, a1)
                     | (Inr resolved, a1) \<Rightarrow>
                         (let res = Restore content resolved in
                          if RR_Missing res \<noteq> [] then (Exited 1, a1)
                          else write_restored H (hd pos) (RR_Content res) a1))))"

section \<open>alice template\<close>

definition template_flags :: flag_set where
  "template_flags = [(''dir'', StringFlag), (''mode'', StringFlag), (''owner'', StringFlag), (''reason'', StringFlag)]"

text \<open>\<open>strconv.ParseUint(s, 8, 32)\<close> and the bound on it.\<close>

definition parseOctalMode :: "string \<Rightarrow> nat option" where
  "parseOctalMode s =
     (if s = '''' \<or> \<not> list_all (\<lambda>c. digit_of c < 8) s then None
      else if base_val 8 s < 2 ^ 32 \<and> base_val 8 s \<le> 4095 then Some (base_val 8 s)
      else None)"

definition resolveID :: "(string \<Rightarrow> string option) \<Rightarrow> string \<Rightarrow> int option" where
  "resolveID lookup s =
     (case Atoi s of
        Some n \<Rightarrow> Some n
      | None \<Rightarrow> (case lookup s of None \<Rightarrow> None | Some n \<Rightarrow> Atoi n))"

text \<open>\<open>Some None\<close> for no change of owner.\<close>

definition parseOwner ::
  "(string \<Rightarrow> string option) \<Rightarrow> (string \<Rightarrow> string option) \<Rightarrow> string \<Rightarrow> (int \<times> int) option option" where
  "parseOwner users groups s =
     (if s = '''' then Some None
      else
        (case SplitN s CHR '':'' 2 of
           [u, g] \<Rightarrow>
             if u = '''' \<or> g = '''' then None
             else
               (case resolveID users u of
                  None \<Rightarrow> None
                | Some uid \<Rightarrow>
                    (case resolveID groups g of None \<Rightarrow> None | Some gid \<Rightarrow> Some (Some (uid, gid))))
         | _ \<Rightarrow> None))"

text \<open>The keys of the template in the order of the text, all of which the vault must have.\<close>

definition template_values ::
  "host \<Rightarrow> string \<Rightarrow> string \<Rightarrow> string \<Rightarrow> alice \<Rightarrow> (failure + (string \<Rightarrow> string option)) \<times> alice" where
  "template_values H dir reason srcText a =
     (let keys = ExtractPlaceholders srcText in
      if keys = [] then (Inr (\<lambda>k. None), a)
      else
        (case vault_load H dir a of
           None \<Rightarrow> (Inl VaultUnreadable, a)
         | Some v \<Rightarrow>
             (case lookup_keys v keys of
                Inl x \<Rightarrow> (Inl x, a)
              | Inr packed \<Rightarrow>
                  (case decrypt_keys H dir reason keys packed a of
                     (Inl x, a1) \<Rightarrow> (Inl x, a1)
                   | (Inr pts, a1) \<Rightarrow> (Inr (map_of (zip keys pts)), a1)))))"

text \<open>\<open>atomicWriteFile\<close>: every failure removes the temporary file, so that only the success
  shows on the disk.\<close>

definition atomicWriteFile :: "host \<Rightarrow> string \<Rightarrow> bytes \<Rightarrow> nat \<Rightarrow> alice \<Rightarrow> bool \<times> alice" where
  "atomicWriteFile H path dat mode a =
     (let a1 = a\<lparr>a_writes := Suc (a_writes a)\<rparr> in
      if h_fault H (a_writes a) \<noteq> NoFault then (False, a1)
      else (True, a1\<lparr>a_disk := (a_disk a)(path := Content dat), a_modes := (a_modes a)(path \<mapsto> mode)\<rparr>))"

definition cmdTemplate :: command where
  "cmdTemplate H args a =
     (case parse_args template_flags args of
        Inl n \<Rightarrow> (Exited n, a)
      | Inr (ss, pos) \<Rightarrow>
          if length pos \<noteq> 2 then (Failed Usage, a)
          else
            (case parseOctalMode (str_flag ss ''mode'' ''0600'') of
               None \<Rightarrow> (Failed (BadMode (str_flag ss ''mode'' ''0600'')), a)
             | Some mode \<Rightarrow>
                 (case parseOwner (h_lookup_user H) (h_lookup_group H) (str_flag ss ''owner'' '''') of
                    None \<Rightarrow> (Failed (BadOwner (str_flag ss ''owner'' '''')), a)
                  | Some owner \<Rightarrow>
                      (case a_disk a (pos ! 0) of
                         Content srcText \<Rightarrow>
                           (case template_values H (OpenDir (h_environ H) (str_flag ss ''dir'' ''''))
                                   (str_flag ss ''reason'' '''') srcText a of
                              (Inl x, a1) \<Rightarrow> (Failed x, a1)
                            | (Inr plaintexts, a1) \<Rightarrow>
                                (let rr = Restore srcText plaintexts in
                                 if RR_Missing rr \<noteq> [] then (Failed (Unresolved (pos ! 0) (RR_Missing rr)), a1)
                                 else
                                   (case atomicWriteFile H (pos ! 1) (RR_Content rr) mode a1 of
                                      (ok, a2) \<Rightarrow>
                                        if \<not> ok then (Failed WriteFailed, a2)
                                        else
                                          (case owner of
                                             None \<Rightarrow> (Returned, a2)
                                           | Some own \<Rightarrow>
                                               if h_fault H (a_writes a2) \<noteq> NoFault then (Failed ChownFailed, a2)
                                               else (Returned, a2\<lparr>a_owners := (a_owners a2)(pos ! 1 \<mapsto> own)\<rparr>)))))
                       | _ \<Rightarrow> (Failed (FileNotFound (pos ! 0)), a)))))"

end
