(* ===== verification/Alice_Vault.thy ===== *)
theory Alice_Vault
  imports Alice
begin

text \<open>
  The commands that change the vault (\<open>cmd/alice/sensitive.go\<close>): set, get, rm, desc, init and
  import, and their helpers. Every command is a function of the machine, its arguments and
  the state; what it prints on standard output is recorded by its content.
\<close>

section \<open>How strength is shown\<close>

definition weakSuffix :: "int \<Rightarrow> string" where
  "weakSuffix bits =
     (if Tier bits = ''weak''
      then ''  '' @ [CHR 0xE2, CHR 0x9A, CHR 0xA0] @ '' weak '' @ [CHR 0xE2, CHR 0x80, CHR 0x94] @ '' consider rotating''
      else '''')"

definition strength_text :: "int \<Rightarrow> string" where
  "strength_text bits = ''~'' @ Itoa bits @ '' bit ('' @ Tier bits @ '')'' @ weakSuffix bits"

section \<open>alice set\<close>

definition set_flags :: flag_set where
  "set_flags =
     [(''dir'', StringFlag), (''desc'', StringFlag), (''from-env'', StringFlag), (''stdin'', BoolFlag),
      (''force'', BoolFlag), (''generate'', BoolFlag), (''style'', StringFlag), (''l'', IntFlag),
      (''length'', IntFlag)]"

definition confirmOverwrite :: "host \<Rightarrow> string \<Rightarrow> bool \<Rightarrow> alice \<Rightarrow> (failure + bool) \<times> alice" where
  "confirmOverwrite H key force a =
     (if force then (Inr True, a)
      else if \<not> h_stdin_tty H then (Inl (OverwriteRefused key), a)
      else (case Confirm False (a_stdin a) of
              (ok, rest) \<Rightarrow> (Inr (ok = Some True), a\<lparr>a_stdin := rest\<rparr>)))"

text \<open>Confirming an overwrite where there is something to overwrite: \<open>Inl\<close> ends the command.\<close>

definition confirm_existing :: "host \<Rightarrow> string \<Rightarrow> bool \<Rightarrow> bool \<Rightarrow> alice \<Rightarrow> (outcome + unit) \<times> alice" where
  "confirm_existing H key already force a =
     (if \<not> already then (Inr (), a)
      else
        (case confirmOverwrite H key force a of
           (Inl e, a1) \<Rightarrow> (Inl (Failed e), a1)
         | (Inr ok, a1) \<Rightarrow> if ok then (Inr (), a1) else (Inl Returned, say [Cancelled] a1)))"

definition generate_value :: "host \<Rightarrow> string \<Rightarrow> int \<Rightarrow> alice \<Rightarrow> (outcome + string) \<times> alice" where
  "generate_value H style sz a =
     (case Generate (h_words H) (h_rnd H) (a_draws a) (style_of style) sz of
        None \<Rightarrow> (Inl NeverReturns, a)
      | Some (Inl e) \<Rightarrow> (Inl (Failed (GenerateFailed e)), a)
      | Some (Inr (p, i)) \<Rightarrow> (Inr p, a\<lparr>a_draws := i\<rparr>))"

text \<open>The four sources of a value, in the order in which the code tries them.\<close>

definition set_value :: "host \<Rightarrow> settings \<Rightarrow> string \<Rightarrow> bool \<Rightarrow> alice \<Rightarrow> (outcome + string) \<times> alice" where
  "set_value H ss key already a =
     (let force = bool_flag ss ''force'' in
      if bool_flag ss ''generate'' then
        (case confirm_existing H key already force a of
           (Inl x, a1) \<Rightarrow> (Inl x, a1)
         | (Inr _, a1) \<Rightarrow>
             generate_value H (str_flag ss ''style'' ''apple'') (int_flag ss [''l'', ''length''] 0) a1)
      else if str_flag ss ''from-env'' '''' \<noteq> '''' then
        (let value = Getenv (h_environ H) (str_flag ss ''from-env'' '''') in
         if value = '''' then (Inl (Failed EmptyValue), a)
         else
           (case confirm_existing H key already force a of
              (Inl x, a1) \<Rightarrow> (Inl x, a1)
            | (Inr _, a1) \<Rightarrow> (Inr value, a1)))
      else if bool_flag ss ''stdin'' then
        (if already \<and> \<not> force then (Inl (Failed (OverwriteRefused key)), a)
         else
           (let value = TrimSpace (a_stdin a); a1 = a\<lparr>a_stdin := ''''\<rparr> in
            if value = '''' then (Inl (Failed EmptyValue), a1) else (Inr value, a1)))
      else
        (case confirm_existing H key already force a of
           (Inl x, a1) \<Rightarrow> (Inl x, a1)
         | (Inr _, a1) \<Rightarrow>
             (case ReadPassword (a_typed a1) of
                (None, ps) \<Rightarrow> (Inl (Failed ReadFailed), a1\<lparr>a_typed := ps\<rparr>)
              | (Some value, ps) \<Rightarrow>
                  if value = '''' then (Inl (Failed EmptyValue), a1\<lparr>a_typed := ps\<rparr>)
                  else (Inr value, a1\<lparr>a_typed := ps\<rparr>))))"

text \<open>The entry that is stored; a ciphertext without a readable version has the epoch 0 that
  \<open>ParseVersion\<close> returns with its error.\<close>

definition epoch_of :: "string \<Rightarrow> int" where
  "epoch_of packed = (case ParseVersion packed of Inl _ \<Rightarrow> 0 | Inr (epoch, _) \<Rightarrow> epoch)"

definition new_entry :: "string \<Rightarrow> settings \<Rightarrow> SecretEntry option \<Rightarrow> string \<Rightarrow> string \<Rightarrow> SecretEntry" where
  "new_entry now ss existing packed value =
     \<lparr>Value = packed,
      Desc = (case existing of
                None \<Rightarrow> str_flag ss ''desc'' ''''
              | Some e \<Rightarrow> if isSet ss ''desc'' then str_flag ss ''desc'' '''' else Desc e),
      CreatedAt = (case existing of
                     None \<Rightarrow> now | Some e \<Rightarrow> if CreatedAt e \<noteq> '''' then CreatedAt e else now),
      UpdatedAt = now,
      KeyEpoch = epoch_of packed,
      LenBytes = int (length value),
      EntropyBits = EstimateBits value\<rparr>"

text \<open>Encrypting a value and storing its entry; shared with nothing else, the tail of \<open>cmdSet\<close>.\<close>

definition store_value ::
  "host \<Rightarrow> string \<Rightarrow> settings \<Rightarrow> Vault \<Rightarrow> string \<Rightarrow> string \<Rightarrow> alice \<Rightarrow> outcome \<times> alice" where
  "store_value H dir ss v key value a =
     (case loadClient H dir (a_disk a) of
        Inl e \<Rightarrow> (Failed e, a)
      | Inr (conn, _) \<Rightarrow>
          (case ask_Encrypt conn '''' key value a of
             (Inl e, a1) \<Rightarrow> (Failed e, a1)
           | (Inr packed, a1) \<Rightarrow>
               (let entry = new_entry (h_now H) ss (Get v key) packed value in
                case vault_save H dir (Set key entry v) a1 of
                  (ok, a2) \<Rightarrow>
                    if \<not> ok then (Failed SaveFailed, a2)
                    else
                      (Returned,
                       say [Saved key (if bool_flag ss ''generate'' then str_flag ss ''style'' ''apple'' else ''''),
                            Text (''  '' @ Itoa (LenBytes entry) @ '' bytes, '' @ strength_text (EntropyBits entry))] a2))))"

definition cmdSet :: command where
  "cmdSet H args a =
     (case parse_args set_flags args of
        Inl n \<Rightarrow> (Exited n, a)
      | Inr (ss, pos) \<Rightarrow>
          if length pos \<noteq> 1 then (Failed Usage, a)
          else
            (let key = hd pos; dir = OpenDir (h_environ H) (str_flag ss ''dir'' '''');
                 fromEnv = str_flag ss ''from-env'' ''''; generate = bool_flag ss ''generate'';
                 stdin = bool_flag ss ''stdin''
             in if \<not> h_stdin_tty H \<and> \<not> stdin \<and> \<not> generate \<and> fromEnv = '''' then (Failed NoValueSource, a)
                else if \<not> MatchString keyFormat key then (Failed BadKey, a)
                else if generate \<and> (fromEnv \<noteq> '''' \<or> stdin) then (Failed SourcesConflict, a)
                else
                  (case vault_load H dir a of
                     None \<Rightarrow> (Failed VaultUnreadable, a)
                   | Some v \<Rightarrow>
                       (case set_value H ss key (Has v key) a of
                          (Inl x, a1) \<Rightarrow> (x, a1)
                        | (Inr value, a1) \<Rightarrow> store_value H dir ss v key value a1))))"

section \<open>alice get\<close>

definition get_flags :: flag_set where
  "get_flags = [(''dir'', StringFlag), (''reveal'', BoolFlag), (''json'', BoolFlag), (''reason'', StringFlag)]"

definition meta_json :: "string \<Rightarrow> SecretEntry \<Rightarrow> (string \<times> string) list" where
  "meta_json key e =
     [(''key'', key)]
     @ (if Desc e \<noteq> '''' then [(''desc'', Desc e)] else [])
     @ [(''createdAt'', CreatedAt e)]
     @ (if UpdatedAt e \<noteq> '''' then [(''updatedAt'', UpdatedAt e)] else [])
     @ (if KeyEpoch e \<noteq> 0 then [(''keyEpoch'', Itoa (KeyEpoch e))] else [])
     @ (if LenBytes e \<noteq> 0 then [(''lenBytes'', Itoa (LenBytes e))] else [])
     @ (if EntropyBits e \<noteq> 0
        then [(''entropyBits'', Itoa (EntropyBits e)), (''strength'', Tier (EntropyBits e))] else [])"

definition meta_text :: "string \<Rightarrow> SecretEntry \<Rightarrow> out_line list" where
  "meta_text key e =
     [Field ''Key'' key]
     @ (if Desc e \<noteq> '''' then [Field ''Desc'' (Desc e)] else [])
     @ [Field ''Set at'' (CreatedAt e)]
     @ (if UpdatedAt e \<noteq> '''' \<and> UpdatedAt e \<noteq> CreatedAt e then [Field ''Updated'' (UpdatedAt e)] else [])
     @ (if KeyEpoch e \<noteq> 0 then [Field ''Master key'' (''v'' @ Itoa (KeyEpoch e))] else [])
     @ (if LenBytes e \<noteq> 0 then [Field ''Length'' (Itoa (LenBytes e))] else [])
     @ (if EntropyBits e \<noteq> 0
        then [Field ''Strength'' (strength_text (EntropyBits e))] else [])"

definition reveal_value :: "host \<Rightarrow> string \<Rightarrow> string \<Rightarrow> string \<Rightarrow> SecretEntry \<Rightarrow> alice \<Rightarrow> outcome \<times> alice" where
  "reveal_value H dir reason key e a =
     (if \<not> h_stdout_tty H then (Exited 1, a)
      else
        (case loadClient H dir (a_disk a) of
           Inl x \<Rightarrow> (Failed x, a)
         | Inr (conn, _) \<Rightarrow>
             (case ask_Decrypt conn reason key (Value e) a of
                (Inl x, a1) \<Rightarrow> (Failed x, a1)
              | (Inr (pt, rewrapped), a1) \<Rightarrow>
                  (let a2 = (if rewrapped \<noteq> '''' then snd (applyRewraps H dir [key] [rewrapped] a1) else a1)
                   in (Returned, say [Text pt] a2)))))"

definition cmdGet :: command where
  "cmdGet H args a =
     (case parse_args get_flags args of
        Inl n \<Rightarrow> (Exited n, a)
      | Inr (ss, pos) \<Rightarrow>
          if length pos \<noteq> 1 then (Failed Usage, a)
          else if bool_flag ss ''reveal'' \<and> bool_flag ss ''json'' then (Failed Conflict, a)
          else
            (let key = hd pos; dir = OpenDir (h_environ H) (str_flag ss ''dir'' '''') in
             case vault_load H dir a of
               None \<Rightarrow> (Failed VaultUnreadable, a)
             | Some v \<Rightarrow>
                 (case Get v key of
                    None \<Rightarrow> (Failed (NotFound key), a)
                  | Some e \<Rightarrow>
                      if bool_flag ss ''json'' then (Returned, say [Json (meta_json key e)] a)
                      else if bool_flag ss ''reveal''
                      then reveal_value H dir (str_flag ss ''reason'' '''') key e a
                      else (Returned, say (meta_text key e) a))))"

section \<open>alice rm\<close>

definition rm_flags :: flag_set where
  "rm_flags = [(''dir'', StringFlag), (''yes'', BoolFlag)]"

definition matchKeys :: "Vault \<Rightarrow> string \<Rightarrow> string list" where
  "matchKeys v pattern = map L_Key (filter (\<lambda>l. Match pattern (L_Key l)) (VaultList v))"

text \<open>The keys the arguments name, as they are collected; the first argument that names none
  ends the command.\<close>

fun rm_keys :: "Vault \<Rightarrow> string list \<Rightarrow> failure + string list" where
  "rm_keys v [] = Inr []"
| "rm_keys v (pat # ps) =
     (let hits = (if Has v pat then [pat] else matchKeys v pat) in
      if hits = [] then Inl (NoMatch pat)
      else (case rm_keys v ps of Inl x \<Rightarrow> Inl x | Inr ks \<Rightarrow> Inr (hits @ ks)))"

definition remove_all :: "string list \<Rightarrow> Vault \<Rightarrow> Vault" where
  "remove_all ks v = fold (\<lambda>k v. snd (Remove k v)) ks v"

definition save_or_fail :: "host \<Rightarrow> string \<Rightarrow> Vault \<Rightarrow> out_line list \<Rightarrow> alice \<Rightarrow> outcome \<times> alice" where
  "save_or_fail H dir v ls a =
     (case vault_save H dir v a of
        (ok, a1) \<Rightarrow> if ok then (Returned, say ls a1) else (Failed SaveFailed, a1))"

definition cmdRm :: command where
  "cmdRm H args a =
     (case parse_args rm_flags args of
        Inl n \<Rightarrow> (Exited n, a)
      | Inr (ss, pos) \<Rightarrow>
          if pos = [] then (Failed Usage, a)
          else
            (let dir = OpenDir (h_environ H) (str_flag ss ''dir'' '''') in
             case vault_load H dir a of
               None \<Rightarrow> (Failed VaultUnreadable, a)
             | Some v \<Rightarrow>
                 (case rm_keys v pos of
                    Inl x \<Rightarrow> (Failed x, a)
                  | Inr ks \<Rightarrow>
                      (let keys = sort (remdups ks);
                           remove = save_or_fail H dir (remove_all keys v) [Removed (length keys)]
                       in if bool_flag ss ''yes'' then remove a
                          else if \<not> h_stdin_tty H then (Failed (NeedsYes (length keys)), a)
                          else
                            (case Confirm False (a_stdin a) of
                               (ok, rest) \<Rightarrow>
                                 (let a1 = say (map (\<lambda>k. Field ''remove'' k) keys) (a\<lparr>a_stdin := rest\<rparr>) in
                                  if ok = Some True then remove a1
                                  else (Returned, say [Cancelled] a1)))))))"

section \<open>alice desc, alice init\<close>

definition desc_flags :: flag_set where
  "desc_flags = [(''dir'', StringFlag), (''clear'', BoolFlag)]"

definition cmdDesc :: command where
  "cmdDesc H args a =
     (case parse_args desc_flags args of
        Inl n \<Rightarrow> (Exited n, a)
      | Inr (ss, pos) \<Rightarrow>
          if pos = [] then (Failed Usage, a)
          else
            (let key = hd pos; dir = OpenDir (h_environ H) (str_flag ss ''dir'' '''') in
             case vault_load H dir a of
               None \<Rightarrow> (Failed VaultUnreadable, a)
             | Some v \<Rightarrow>
                 (case Get v key of
                    None \<Rightarrow> (Failed (NotFound key), a)
                  | Some e \<Rightarrow>
                      if length pos = 1 \<and> \<not> bool_flag ss ''clear''
                      then (Returned, say [DescShown (Desc e)] a)
                      else
                        (let text = (if bool_flag ss ''clear'' then '''' else Join (tl pos) '' '') in
                         save_or_fail H dir (Set key (e\<lparr>Desc := text\<rparr>) v) [DescSet key (text = '''')] a))))"

definition init_flags :: flag_set where
  "init_flags = [(''dir'', StringFlag)]"

definition cmdInit :: command where
  "cmdInit H args a =
     (case parse_args init_flags args of
        Inl n \<Rightarrow> (Exited n, a)
      | Inr (ss, pos) \<Rightarrow>
          (let dir = OpenDir (h_environ H) (str_flag ss ''dir'' '''') in
           if VaultExists dir (a_disk a) then (Returned, say [InitDone False (VaultPath dir)] a)
           else
             (case vault_load H dir a of
                None \<Rightarrow> (Failed Panic, a)
              | Some v \<Rightarrow> save_or_fail H dir v [InitDone True (VaultPath dir)] a)))"

section \<open>alice import\<close>

definition import_flags :: flag_set where
  "import_flags = [(''dir'', StringFlag), (''min-length'', IntFlag), (''yes'', BoolFlag)]"

record cand =
  Cand_Env :: string
  Cand_Key :: string
  Cand_Value :: string
  Cand_Skip :: string

definition common_values :: "string list" where
  "common_values =
     [''true'', ''false'', ''null'', ''undefined'', ''localhost'', ''0.0.0.0'', ''127.0.0.1'',
      ''development'', ''production'', ''staging'', ''test'']"

definition import_line :: "int \<Rightarrow> string \<Rightarrow> cand option" where
  "import_line minLen line =
     (let t = TrimSpace line in
      if t = '''' \<or> HasPrefix t ''#'' then None
      else
        (case IndexByte t CHR ''='' of
           None \<Rightarrow> None
         | Some eq \<Rightarrow>
             (let envKey = TrimSpace (take eq t);
                  value = Trim (TrimSpace (drop (Suc eq) t)) [DQ, SQ]
              in if eq = 0 \<or> \<not> MatchString envNameRE envKey then None
                 else Some \<lparr>Cand_Env = envKey, Cand_Key = ToLower (ReplaceAll envKey ''_'' ''-''), Cand_Value = value,
                            Cand_Skip =
                              (if int (length value) < minLen
                               then ''too short ('' @ Itoa (int (length value)) @ '' chars)''
                               else if ToLower value \<in> set common_values then ''common value'' else '''')\<rparr>)))"

fun import_all ::
  "host \<Rightarrow> connection \<Rightarrow> cand list \<Rightarrow> Vault \<Rightarrow> alice \<Rightarrow> (failure + Vault) \<times> alice" where
  "import_all H conn [] v a = (Inr v, a)"
| "import_all H conn (c # cs) v a =
     (case ask_Encrypt conn '''' (Cand_Key c) (Cand_Value c) a of
        (Inl e, a1) \<Rightarrow> (Inl e, a1)
      | (Inr packed, a1) \<Rightarrow>
          import_all H conn cs
            (Set (Cand_Key c)
               \<lparr>Value = packed, Desc = '''', CreatedAt = h_now H, UpdatedAt = '''', KeyEpoch = 0,
                LenBytes = 0, EntropyBits = 0\<rparr> v) a1)"

definition import_candidates ::
  "host \<Rightarrow> string \<Rightarrow> cand list \<Rightarrow> Vault \<Rightarrow> alice \<Rightarrow> outcome \<times> alice" where
  "import_candidates H dir toImport v a =
     (case loadClient H dir (a_disk a) of
        Inl e \<Rightarrow> (Failed e, a)
      | Inr (conn, _) \<Rightarrow>
          (case import_all H conn toImport v a of
             (Inl e, a1) \<Rightarrow> (Failed e, a1)
           | (Inr v', a1) \<Rightarrow> save_or_fail H dir v' [Imported (length toImport)] a1))"

definition cmdImport :: command where
  "cmdImport H args a =
     (case parse_args import_flags args of
        Inl n \<Rightarrow> (Exited n, a)
      | Inr (ss, pos) \<Rightarrow>
          if length pos \<noteq> 1 then (Failed Usage, a)
          else
            (case a_disk a (hd pos) of
               Content raw \<Rightarrow>
                 (let dir = OpenDir (h_environ H) (str_flag ss ''dir'' '''') in
                  case vault_load H dir a of
                    None \<Rightarrow> (Failed VaultUnreadable, a)
                  | Some v \<Rightarrow>
                      (let cands = List.map_filter (import_line (int_flag ss [''min-length''] 8)) (Split raw LF);
                           toImport = filter (\<lambda>c. Cand_Skip c = '''') cands;
                           a1 = say (map (\<lambda>c. Candidate (Cand_Env c) (if Cand_Skip c = '''' then Cand_Key c else Cand_Skip c)) cands) a
                       in if cands = [] then (Returned, a)
                          else if toImport = [] then (Returned, a1)
                          else if bool_flag ss ''yes'' then import_candidates H dir toImport v a1
                          else if \<not> h_stdin_tty H then (Failed (NeedsYes (length toImport)), a1)
                          else
                            (case Confirm True (a_stdin a1) of
                               (ok, rest) \<Rightarrow>
                                 if ok = Some True then import_candidates H dir toImport v (a1\<lparr>a_stdin := rest\<rparr>)
                                 else (Returned, say [Cancelled] (a1\<lparr>a_stdin := rest\<rparr>)))))
             | _ \<Rightarrow> (Failed (FileNotFound (hd pos)), a)))"

end
