(* ===== verification/Ca.thy ===== *)
theory Ca
  imports Prelude
begin

text \<open>
  The private certificate authority and the pairing of enrolments (\<open>internal/ca/ca.go\<close>,
  \<open>internal/ca/pairing.go\<close>). The encodings of the standard library (PEM, X.509, PKCS 8,
  ASN.1), SHA-256 and key generation are the fields of a record \<open>pki\<close>; what a certificate
  holds is a record. Times are nanoseconds.
\<close>

section \<open>What the library provides\<close>

datatype usage = ServerAuth | ClientAuth

type_synonym oid = "int list"

record certificate =
  Cert_CN :: string
  Cert_SPKI :: bytes
  Cert_DNS :: "string list"
  Cert_IPs :: "string list"
  Cert_Usage :: "usage list"
  Cert_IsCA :: bool
  Cert_NotBefore :: int
  Cert_NotAfter :: int
  Cert_Exts :: "(oid \<times> bytes) list"

record csr =
  CSR_CN :: string
  CSR_SPKI :: bytes

record pki =
  pem_encode :: "string \<Rightarrow> bytes \<Rightarrow> bytes"
  pem_decode :: "bytes \<Rightarrow> (string \<times> bytes) option"
  parse_csr :: "bytes \<Rightarrow> csr option"
  csr_signed :: "bytes \<Rightarrow> bool"
  create_cert :: "certificate \<Rightarrow> bytes \<Rightarrow> bytes option"
  parse_certificate :: "bytes \<Rightarrow> certificate option"
  parse_pkcs8 :: "bytes \<Rightarrow> bytes option"
  marshal_pkcs8 :: "bytes \<Rightarrow> bytes option"
  is_ed25519 :: "bytes \<Rightarrow> bool"
  parse_ip :: "string \<Rightarrow> bool"
  asn_marshal :: "bytes \<times> int \<Rightarrow> bytes"
  asn_unmarshal :: "bytes \<Rightarrow> ((bytes \<times> int) \<times> bytes) option"
  sha256 :: "bytes \<Rightarrow> bytes"
  create_csr :: "string \<Rightarrow> bytes \<Rightarrow> bytes option"

definition pemCert :: string where "pemCert = ''CERTIFICATE''"
definition pemKey :: string where "pemKey = ''PRIVATE KEY''"
definition pemCSR :: string where "pemCSR = ''CERTIFICATE REQUEST''"

datatype ca_error =
    NotPEM
  | BadEncoding
  | BadSignature
  | EmptyCN
  | CommitLength nat
  | TrailingBytes nat
  | KeyGenFailed
  | NotEd25519
  | PairingIsAbsent
  | PairingHasExpired
  | PairingDiffers

section \<open>Pairing\<close>

definition second :: int where "second = 1000000000"

definition PairingOID :: oid where
  "PairingOID = [2, 25, 0x7d2cba5a, 0x4b8d4e9a]"

text \<open>\<open>NewPairingCode\<close> for the index drawn, and the padding of its format.\<close>

definition pad_zeros :: "nat \<Rightarrow> string \<Rightarrow> string" where
  "pad_zeros w s = replicate (w - length s) CHR ''0'' @ s"

definition NewPairingCode :: "nat option \<Rightarrow> string option" where
  "NewPairingCode n = map_option (\<lambda>n. pad_zeros 8 (nat_digits n)) n"

definition PubkeyFingerprint :: "pki \<Rightarrow> bytes \<Rightarrow> bytes" where
  "PubkeyFingerprint K spki = sha256 K spki"

definition PairingCommit :: "pki \<Rightarrow> string \<Rightarrow> bytes \<Rightarrow> bytes" where
  "PairingCommit K code pubkeyFP = sha256 K (code @ pubkeyFP)"

record Pairing =
  Commit :: bytes
  ExpiresAt :: int

definition truncate_second :: "int \<Rightarrow> int" where
  "truncate_second t = t - t mod second"

definition EncodePairing :: "pki \<Rightarrow> Pairing \<Rightarrow> ca_error + bytes" where
  "EncodePairing K p =
     (if length (Commit p) \<noteq> 32 then Inl (CommitLength (length (Commit p)))
      else Inr (asn_marshal K (Commit p, truncate_second (ExpiresAt p))))"

definition decodePairingValue :: "pki \<Rightarrow> bytes \<Rightarrow> ca_error + Pairing" where
  "decodePairingValue K b =
     (case asn_unmarshal K b of
        None \<Rightarrow> Inl BadEncoding
      | Some ((commit, expires), rest) \<Rightarrow>
          if rest \<noteq> [] then Inl (TrailingBytes (length rest))
          else if length commit \<noteq> 32 then Inl (CommitLength (length commit))
          else Inr \<lparr>Commit = commit, ExpiresAt = expires\<rparr>)"

definition DecodePairing :: "pki \<Rightarrow> certificate \<Rightarrow> ca_error + Pairing option" where
  "DecodePairing K cert =
     (case find (\<lambda>(i, v). i = PairingOID) (Cert_Exts cert) of
        None \<Rightarrow> Inr None
      | Some (i, v) \<Rightarrow> map_sum id Some (decodePairingValue K v))"

definition VerifyPairing :: "pki \<Rightarrow> certificate \<Rightarrow> string \<Rightarrow> int \<Rightarrow> ca_error option" where
  "VerifyPairing K cert code now =
     (case DecodePairing K cert of
        Inl e \<Rightarrow> Some e
      | Inr None \<Rightarrow> Some PairingIsAbsent
      | Inr (Some p) \<Rightarrow>
          if \<not> now < ExpiresAt p then Some PairingHasExpired
          else if PairingCommit K code (PubkeyFingerprint K (Cert_SPKI cert)) \<noteq> Commit p then Some PairingDiffers
          else None)"

section \<open>The authority\<close>

record CA =
  CA_Cert :: certificate
  CA_Key :: bytes
  CA_CertPEM :: bytes

definition encode_pem :: "pki \<Rightarrow> string \<Rightarrow> bytes \<Rightarrow> bytes" where
  "encode_pem K typ der = pem_encode K typ der"

definition marshalKey :: "pki \<Rightarrow> bytes \<Rightarrow> ca_error + bytes" where
  "marshalKey K priv =
     (case marshal_pkcs8 K priv of None \<Rightarrow> Inl BadEncoding | Some der \<Rightarrow> Inr (encode_pem K pemKey der))"

definition parseCert :: "pki \<Rightarrow> bytes \<Rightarrow> ca_error + certificate" where
  "parseCert K p =
     (case pem_decode K p of
        Some (typ, der) \<Rightarrow>
          if typ \<noteq> pemCert then Inl NotPEM
          else (case parse_certificate K der of None \<Rightarrow> Inl BadEncoding | Some c \<Rightarrow> Inr c)
      | None \<Rightarrow> Inl NotPEM)"

definition parseKey :: "pki \<Rightarrow> bytes \<Rightarrow> ca_error + bytes" where
  "parseKey K p =
     (case pem_decode K p of
        None \<Rightarrow> Inl NotPEM
      | Some (typ, der) \<Rightarrow>
          (case parse_pkcs8 K der of
             None \<Rightarrow> Inl BadEncoding
           | Some k \<Rightarrow> if is_ed25519 K k then Inr k else Inl NotEd25519))"

definition LoadCA :: "pki \<Rightarrow> bytes \<Rightarrow> bytes \<Rightarrow> ca_error + CA" where
  "LoadCA K certPEM keyPEM =
     (case parseCert K certPEM of
        Inl e \<Rightarrow> Inl e
      | Inr cert \<Rightarrow>
          (case parseKey K keyPEM of
             Inl e \<Rightarrow> Inl e
           | Inr key \<Rightarrow> Inr \<lparr>CA_Cert = cert, CA_Key = key, CA_CertPEM = certPEM\<rparr>))"

text \<open>A fresh key pair is \<open>(public, private)\<close>, \<open>None\<close> when the random source fails.\<close>

definition minute :: int where "minute = 60 * second"

definition NewCA :: "pki \<Rightarrow> (bytes \<times> bytes) option \<Rightarrow> string \<Rightarrow> int \<Rightarrow> int \<Rightarrow> ca_error + CA" where
  "NewCA K keys commonName ttl now =
     (case keys of
        None \<Rightarrow> Inl KeyGenFailed
      | Some (pub, priv) \<Rightarrow>
          (let tmpl = \<lparr>Cert_CN = commonName, Cert_SPKI = pub, Cert_DNS = [], Cert_IPs = [], Cert_Usage = [],
                       Cert_IsCA = True, Cert_NotBefore = now - minute, Cert_NotAfter = now + ttl, Cert_Exts = []\<rparr>
           in case create_cert K tmpl priv of
                None \<Rightarrow> Inl BadEncoding
              | Some der \<Rightarrow>
                  (case parse_certificate K der of
                     None \<Rightarrow> Inl BadEncoding
                   | Some cert \<Rightarrow>
                       Inr \<lparr>CA_Cert = cert, CA_Key = priv, CA_CertPEM = encode_pem K pemCert der\<rparr>)))"

text \<open>\<open>sign\<close>: the leaf template, signed with the key of the authority.\<close>

definition leaf_template ::
  "pki \<Rightarrow> string \<Rightarrow> string list \<Rightarrow> bytes \<Rightarrow> usage \<Rightarrow> int \<Rightarrow> (oid \<times> bytes) list \<Rightarrow> int \<Rightarrow> certificate" where
  "leaf_template K cn hosts pub eku ttl extras now =
     \<lparr>Cert_CN = cn, Cert_SPKI = pub, Cert_DNS = filter (\<lambda>h. \<not> parse_ip K h) hosts,
      Cert_IPs = filter (parse_ip K) hosts, Cert_Usage = [eku], Cert_IsCA = False,
      Cert_NotBefore = now - minute, Cert_NotAfter = now + ttl, Cert_Exts = extras\<rparr>"

definition sign ::
  "pki \<Rightarrow> CA \<Rightarrow> string \<Rightarrow> string list \<Rightarrow> bytes \<Rightarrow> usage \<Rightarrow> int \<Rightarrow> (oid \<times> bytes) list \<Rightarrow> int \<Rightarrow> ca_error + bytes" where
  "sign K c cn hosts pub eku ttl extras now =
     (case create_cert K (leaf_template K cn hosts pub eku ttl extras now) (CA_Key c) of
        None \<Rightarrow> Inl BadEncoding | Some der \<Rightarrow> Inr der)"

definition issueLeaf ::
  "pki \<Rightarrow> (bytes \<times> bytes) option \<Rightarrow> CA \<Rightarrow> string \<Rightarrow> string list \<Rightarrow> usage \<Rightarrow> int \<Rightarrow> int \<Rightarrow> ca_error + (bytes \<times> bytes)" where
  "issueLeaf K keys c cn hosts eku ttl now =
     (case keys of
        None \<Rightarrow> Inl KeyGenFailed
      | Some (pub, priv) \<Rightarrow>
          (case sign K c cn hosts pub eku ttl [] now of
             Inl e \<Rightarrow> Inl e
           | Inr der \<Rightarrow>
               (case marshalKey K priv of
                  Inl e \<Rightarrow> Inl e
                | Inr keyPEM \<Rightarrow> Inr (encode_pem K pemCert der, keyPEM))))"

text \<open>Without a host \<open>hosts[0]\<close> is out of range: \<open>None\<close> is the panic.\<close>

definition IssueServer ::
  "pki \<Rightarrow> (bytes \<times> bytes) option \<Rightarrow> CA \<Rightarrow> string list \<Rightarrow> int \<Rightarrow> int \<Rightarrow> (ca_error + (bytes \<times> bytes)) option" where
  "IssueServer K keys c hosts ttl now =
     (case hosts of
        [] \<Rightarrow> None
      | host # _ \<Rightarrow> Some (issueLeaf K keys c host hosts ServerAuth ttl now))"

definition IssueClient ::
  "pki \<Rightarrow> (bytes \<times> bytes) option \<Rightarrow> CA \<Rightarrow> string \<Rightarrow> int \<Rightarrow> int \<Rightarrow> ca_error + (bytes \<times> bytes)" where
  "IssueClient K keys c identity ttl now = issueLeaf K keys c identity [] ClientAuth ttl now"

text \<open>Alice's side: a key pair and a request for it.\<close>

definition GenerateCSR :: "pki \<Rightarrow> (bytes \<times> bytes) option \<Rightarrow> string \<Rightarrow> ca_error + (bytes \<times> bytes)" where
  "GenerateCSR K keys identity =
     (case keys of
        None \<Rightarrow> Inl KeyGenFailed
      | Some (pub, priv) \<Rightarrow>
          (case create_csr K identity priv of
             None \<Rightarrow> Inl BadEncoding
           | Some der \<Rightarrow>
               (case marshalKey K priv of
                  Inl e \<Rightarrow> Inl e
                | Inr keyPEM \<Rightarrow> Inr (encode_pem K pemCSR der, keyPEM))))"

definition parseAndValidateCSR :: "pki \<Rightarrow> bytes \<Rightarrow> ca_error + csr" where
  "parseAndValidateCSR K csrPEM =
     (case pem_decode K csrPEM of
        None \<Rightarrow> Inl NotPEM
      | Some (typ, der) \<Rightarrow>
          if typ \<noteq> pemCSR then Inl NotPEM
          else
            (case parse_csr K der of
               None \<Rightarrow> Inl BadEncoding
             | Some r \<Rightarrow>
                 if \<not> csr_signed K der then Inl BadSignature
                 else if CSR_CN r = '''' then Inl EmptyCN
                 else Inr r))"

definition SignCSR :: "pki \<Rightarrow> CA \<Rightarrow> bytes \<Rightarrow> int \<Rightarrow> int \<Rightarrow> ca_error + (bytes \<times> string)" where
  "SignCSR K c csrPEM ttl now =
     (case parseAndValidateCSR K csrPEM of
        Inl e \<Rightarrow> Inl e
      | Inr r \<Rightarrow>
          (case sign K c (CSR_CN r) [] (CSR_SPKI r) ClientAuth ttl [] now of
             Inl e \<Rightarrow> Inl e
           | Inr der \<Rightarrow> Inr (encode_pem K pemCert der, CSR_CN r)))"

definition SignCSRWithPairing ::
  "pki \<Rightarrow> CA \<Rightarrow> bytes \<Rightarrow> int \<Rightarrow> Pairing \<Rightarrow> int \<Rightarrow> ca_error + (bytes \<times> string)" where
  "SignCSRWithPairing K c csrPEM ttl pairing now =
     (case parseAndValidateCSR K csrPEM of
        Inl e \<Rightarrow> Inl e
      | Inr r \<Rightarrow>
          (case EncodePairing K pairing of
             Inl e \<Rightarrow> Inl e
           | Inr val \<Rightarrow>
               (case sign K c (CSR_CN r) [] (CSR_SPKI r) ClientAuth ttl [(PairingOID, val)] now of
                  Inl e \<Rightarrow> Inl e
                | Inr der \<Rightarrow> Inr (encode_pem K pemCert der, CSR_CN r))))"

section \<open>What is relied on\<close>

text \<open>Documented behaviour of the encodings: decoding inverts encoding, and a certificate made from
  a template parses back with the template's fields.\<close>

definition pki_ok :: "pki \<Rightarrow> bool" where
  "pki_ok K \<longleftrightarrow>
     (\<forall>typ der. typ \<in> {pemCert, pemKey, pemCSR} \<longrightarrow> pem_decode K (pem_encode K typ der) = Some (typ, der)) \<and>
     (\<forall>tmpl key der. create_cert K tmpl key = Some der \<longrightarrow> parse_certificate K der = Some tmpl) \<and>
     (\<forall>commit t. truncate_second t = t \<longrightarrow> 0 \<le> t \<longrightarrow> t < 2 ^ 63 \<longrightarrow> asn_unmarshal K (asn_marshal K (commit, t)) = Some ((commit, t), [])) \<and>
     (\<forall>b. length (sha256 K b) = 32)"

lemma truncate_idem [simp]: "truncate_second (truncate_second t) = truncate_second t"
  by (simp add: truncate_second_def second_def)

lemma truncate_le: "truncate_second t \<le> t" and truncate_gt: "t - second < truncate_second t"
  by (simp_all add: truncate_second_def second_def)

lemma truncate_range: "0 \<le> t \<Longrightarrow> t < 2 ^ 63 \<Longrightarrow> 0 \<le> truncate_second t \<and> truncate_second t < 2 ^ 63"
  using truncate_le [of t] by (simp add: truncate_second_def second_def zmod_le_nonneg_dividend)

text \<open>Eight digits, from which the index drawn can be read.\<close>

lemma digits_val_zeros: "digits_val (replicate k CHR ''0'' @ s) = digits_val s"
proof (induction k)
  case (Suc k)
  have "digit_val CHR ''0'' = 0" by code_simp
  with Suc show ?case by (simp add: digits_val_def)
qed simp

lemma nat_digits_length: "n < 10 ^ k \<Longrightarrow> 0 < k \<Longrightarrow> length (nat_digits n) \<le> k"
proof (induction n arbitrary: k rule: nat_digits.induct)
  case (1 n)
  show ?case
  proof (cases "n < 10")
    case True
    with "1.prems"(2) show ?thesis by (simp add: nat_digits.simps [of n])
  next
    case False
    with "1.prems" obtain k' where k: "k = Suc k'" "0 < k'" by (cases k; cases "k - 1") auto
    with "1.prems"(1) have "n div 10 < 10 ^ k'" by auto
    from "1.IH" [OF False this k(2)] False k(1) show ?thesis by (simp add: nat_digits.simps [of n])
  qed
qed

lemma NewPairingCode_shape:
  assumes "n < 100000000"
  shows "\<exists>code. NewPairingCode (Some n) = Some code \<and> length code = 8 \<and> list_all is_digit code \<and> digits_val code = n"
proof -
  have l: "length (nat_digits n) \<le> 8" using nat_digits_length [of n 8] assms by simp
  have z: "is_digit CHR ''0''" by code_simp
  from l z show ?thesis
    using nat_digits_digits [of n] by (auto simp: NewPairingCode_def pad_zeros_def digits_val_zeros list_all_iff)
qed

section \<open>Properties\<close>

text \<open>Pairing binds the code to the certificate: when Bob signs a request with a pairing for a
  code, the certificate that comes out carries the name and the key of the request, is for
  client authentication only, and verifies with a code at a time exactly if the time is
  before the expiry in whole seconds and the code has the same commitment with that key.\<close>

lemma pairing_binds:
  assumes "pki_ok K" and "0 \<le> t" and "t < 2 ^ 63" and "parseAndValidateCSR K csrPEM = Inr r"
    and "SignCSRWithPairing K c csrPEM ttl
       \<lparr>Commit = PairingCommit K code (PubkeyFingerprint K (CSR_SPKI r)), ExpiresAt = t\<rparr> now = Inr (certPEM, ident)"
  shows "\<exists>cert. parseCert K certPEM = Inr cert \<and> ident = CSR_CN r \<and> Cert_CN cert = CSR_CN r \<and>
    Cert_SPKI cert = CSR_SPKI r \<and> Cert_Usage cert = [ClientAuth] \<and> \<not> Cert_IsCA cert \<and>
    VerifyPairing K cert code' now' =
      (if now' \<ge> truncate_second t then Some PairingHasExpired
       else if PairingCommit K code' (PubkeyFingerprint K (CSR_SPKI r))
            \<noteq> PairingCommit K code (PubkeyFingerprint K (CSR_SPKI r)) then Some PairingDiffers
       else None)"
proof -
  let ?fp = "PubkeyFingerprint K (CSR_SPKI r)"
  let ?val = "asn_marshal K (PairingCommit K code ?fp, truncate_second t)"
  let ?tmpl = "leaf_template K (CSR_CN r) [] (CSR_SPKI r) ClientAuth ttl [(PairingOID, ?val)] now"
  have len: "length (PairingCommit K code ?fp) = 32" using assms(1) by (simp add: pki_ok_def PairingCommit_def)
  from assms(4,5) len obtain der where der: "create_cert K ?tmpl (CA_Key c) = Some der"
    "certPEM = pem_encode K pemCert der" "ident = CSR_CN r"
    by (auto simp: SignCSRWithPairing_def EncodePairing_def sign_def encode_pem_def split: option.splits)
  with assms(1) have p: "parseCert K certPEM = Inr ?tmpl" by (simp add: parseCert_def pki_ok_def)
  have "asn_unmarshal K ?val = Some ((PairingCommit K code ?fp, truncate_second t), [])"
    using assms(1) truncate_range [OF assms(2,3)] by (simp add: pki_ok_def)
  with len have "DecodePairing K ?tmpl = Inr (Some \<lparr>Commit = PairingCommit K code ?fp, ExpiresAt = truncate_second t\<rparr>)"
    by (simp add: DecodePairing_def decodePairingValue_def leaf_template_def)
  then have "VerifyPairing K ?tmpl code' now' =
      (if now' \<ge> truncate_second t then Some PairingHasExpired
       else if PairingCommit K code' ?fp \<noteq> PairingCommit K code ?fp then Some PairingDiffers else None)"
    by (simp add: VerifyPairing_def leaf_template_def)
  with p der(3) show ?thesis by (intro exI [of _ ?tmpl]) (simp add: leaf_template_def)
qed

definition demo_template :: certificate where
  "demo_template =
     \<lparr>Cert_CN = ''alice'', Cert_SPKI = ''key'', Cert_DNS = [], Cert_IPs = [], Cert_Usage = [ClientAuth],
      Cert_IsCA = False, Cert_NotBefore = 0 - minute, Cert_NotAfter = 100,
      Cert_Exts = [(PairingOID, ''7000000000:'' @ take 32 (''12345678key'' @ replicate 32 CHR ''x''))]\<rparr>"

definition demo_pki :: pki where
  "demo_pki =
     \<lparr>pem_encode = (\<lambda>typ der. typ @ CHR '':'' # der),
      pem_decode = (\<lambda>b. case IndexByte b CHR '':'' of None \<Rightarrow> None | Some i \<Rightarrow> Some (take i b, drop (Suc i) b)),
      parse_csr = (\<lambda>der. Some \<lparr>CSR_CN = ''alice'', CSR_SPKI = ''key''\<rparr>), csr_signed = (\<lambda>der. True),
      create_cert = (\<lambda>t k. if t = demo_template then Some ''der'' else None),
      parse_certificate = (\<lambda>der. Some demo_template), parse_pkcs8 = Some, marshal_pkcs8 = Some,
      is_ed25519 = (\<lambda>k. True), parse_ip = (\<lambda>h. False),
      asn_marshal = (\<lambda>(c, t). Itoa t @ CHR '':'' # c),
      asn_unmarshal = (\<lambda>b. case IndexByte b CHR '':'' of None \<Rightarrow> None
         | Some i \<Rightarrow> map_option (\<lambda>t. ((drop (Suc i) b, t), [])) (Atoi (take i b))),
      sha256 = (\<lambda>b. take 32 (b @ replicate 32 CHR ''x'')), create_csr = (\<lambda>i p. None)\<rparr>"

lemma demo_pki_ok: "pki_ok demo_pki"
proof -
  have n: "CHR '':'' \<notin> set pemCert" "CHR '':'' \<notin> set pemKey" "CHR '':'' \<notin> set pemCSR" by code_simp+
  have "asn_unmarshal demo_pki (asn_marshal demo_pki (commit, t)) = Some ((commit, t), [])"
    if t: "0 \<le> t" "t < 2 ^ 63" for commit :: bytes and t
  proof -
    have "\<not> is_digit CHR '':''" by code_simp
    then have "CHR '':'' \<notin> set (Itoa t)" using Itoa_digits [OF t(1)] by (auto simp: list_all_iff)
    then have "IndexByte (Itoa t @ CHR '':'' # commit) CHR '':'' = Some (length (Itoa t))" by (rule IndexByte_append)
    with t Atoi_Itoa [of t] show ?thesis by (simp add: demo_pki_def)
  qed
  with n show ?thesis by (auto simp: pki_ok_def demo_pki_def IndexByte_append)
qed

theorem pairing_binds_witness:
  "\<exists>cert. VerifyPairing demo_pki cert ''12345678'' 6 = None \<and> VerifyPairing demo_pki cert ''12345678'' 7000000000 \<noteq> None"
proof -
  let ?c = "\<lparr>CA_Cert = demo_template, CA_Key = '''', CA_CertPEM = ''''\<rparr>"
  let ?r = "\<lparr>CSR_CN = ''alice'', CSR_SPKI = ''key''\<rparr>"
  let ?p = "\<lparr>Commit = PairingCommit demo_pki ''12345678'' (PubkeyFingerprint demo_pki (CSR_SPKI ?r)), ExpiresAt = 7000000001\<rparr>"
  have i: "IndexByte (pemCSR @ '':x'') CHR '':'' = Some (length pemCSR)" by code_simp
  have r: "parseAndValidateCSR demo_pki (pemCSR @ '':x'') = Inr ?r"
    using i by (simp add: parseAndValidateCSR_def demo_pki_def)
  have e: "EncodePairing demo_pki ?p = Inr (''7000000000:'' @ take 32 (''12345678key'' @ replicate 32 CHR ''x''))"
  proof -
    have "Itoa (truncate_second 7000000001) = ''7000000000''"
      by (simp add: truncate_second_def second_def Itoa_def nat_digits.simps digit_char_def)
    moreover have "length (take 32 (''12345678key'' @ replicate 32 CHR ''x'')) = 32" by code_simp
    ultimately show ?thesis
      by (simp add: EncodePairing_def PairingCommit_def PubkeyFingerprint_def demo_pki_def)
  qed
  have l: "leaf_template demo_pki ''alice'' [] ''key'' ClientAuth 100
      [(PairingOID, ''7000000000:'' @ take 32 (''12345678key'' @ replicate 32 CHR ''x''))] 0 = demo_template"
    unfolding leaf_template_def demo_template_def by (simp only: filter.simps) simp
  have "create_cert demo_pki demo_template '''' = Some ''der''" "encode_pem demo_pki pemCert ''der'' = pemCert @ '':der''"
    by (simp_all add: demo_pki_def encode_pem_def)
  with r e l have s: "SignCSRWithPairing demo_pki ?c (pemCSR @ '':x'') 100 ?p 0 = Inr (pemCert @ '':der'', ''alice'')"
    unfolding SignCSRWithPairing_def sign_def by (simp only: sum.case csr.simps CA.simps option.case l)
  have t: "(0::int) \<le> 7000000001" "(7000000001::int) < 2 ^ 63" by simp_all
  note v = pairing_binds [OF demo_pki_ok t r s, where code' = "''12345678''"]
  from v [of 6] obtain cert where c: "parseCert demo_pki (pemCert @ '':der'') = Inr cert"
    "VerifyPairing demo_pki cert ''12345678'' 6 = (if 6 \<ge> truncate_second 7000000001 then Some PairingHasExpired else None)"
    by (simp only: simp_thms if_False) blast
  from v [of 7000000000] obtain cert' where c': "parseCert demo_pki (pemCert @ '':der'') = Inr cert'"
    "VerifyPairing demo_pki cert' ''12345678'' 7000000000 =
      (if 7000000000 \<ge> truncate_second 7000000001 then Some PairingHasExpired else None)"
    by (simp only: simp_thms if_False) blast
  have u: "truncate_second 7000000001 = 7000000000" by code_simp
  from c(1) c'(1) have "cert' = cert" by simp
  with c(2) c'(2) show ?thesis unfolding u by (intro exI [of _ cert]) simp
qed

text \<open>A pairing code is eight decimal digits and determines the index drawn.\<close>

theorem pairing_code_shape:
  assumes "n < 100000000" and "m < 100000000"
  shows "\<exists>code. NewPairingCode (Some n) = Some code \<and> length code = 8 \<and> list_all is_digit code \<and>
    (NewPairingCode (Some m) = Some code \<longleftrightarrow> m = n)"
proof -
  from NewPairingCode_shape [OF assms(1)] obtain c where
    c: "NewPairingCode (Some n) = Some c" "length c = 8" "list_all is_digit c" "digits_val c = n" by blast
  from NewPairingCode_shape [OF assms(2)] obtain d where
    d: "NewPairingCode (Some m) = Some d" "digits_val d = m" by blast
  have "NewPairingCode (Some m) = Some c \<longleftrightarrow> m = n"
    using c(1,4) d by (metis option.inject)
  with c(1-3) show ?thesis by blast
qed

theorem pairing_code_shape_witness:
  "NewPairingCode (Some 42) \<noteq> NewPairingCode (Some 7)"
proof -
  have "(42::nat) < 100000000" "(7::nat) < 100000000" "(7::nat) \<noteq> 42" by simp_all
  with pairing_code_shape [OF this(1,2)] show ?thesis by metis
qed

end
