(* ===== verification/Alice_Admin.thy ===== *)
theory Alice_Admin
  imports Alice_Vault Alice_Exec Ca
begin

text \<open>
  The remaining commands over the vault's metadata (\<open>cmd/alice/safe.go\<close>: has, list, status;
  \<open>audit.go\<close>, \<open>rekey.go\<close>, \<open>backfill.go\<close>, \<open>generate.go\<close>, \<open>completion.go\<close>) and the
  enrolment (\<open>cmd/alice/sensitive.go\<close>: enroll, install-cert).
\<close>

section \<open>alice has, alice list, key completion\<close>

definition json_flags :: flag_set where
  "json_flags = [(''dir'', StringFlag), (''json'', BoolFlag)]"

text \<open>Both formats report the same booleans; the status is 1 unless all are true.\<close>

definition cmdHas :: command where
  "cmdHas H args a =
     (case parse_args json_flags args of
        Inl n \<Rightarrow> (Exited n, a)
      | Inr (ss, pos) \<Rightarrow>
          if pos = [] then (Failed Usage, a)
          else
            (case vault_load H (OpenDir (h_environ H) (str_flag ss ''dir'' '''')) a of
               None \<Rightarrow> (Failed VaultUnreadable, a)
             | Some v \<Rightarrow>
                 (if list_all (Has v) pos then Returned else Exited 1,
                  say (map (\<lambda>k. Present k (Has v k)) pos) a)))"

definition list_flags :: flag_set where
  "list_flags = [(''dir'', StringFlag), (''json'', BoolFlag), (''l'', BoolFlag), (''long'', BoolFlag)]"

definition bool_flag2 :: "settings \<Rightarrow> string \<Rightarrow> string \<Rightarrow> bool" where
  "bool_flag2 ss n m =
     (case filter (\<lambda>(k, v). k = n \<or> k = m) (rev ss) of [] \<Rightarrow> False | (k, v) # _ \<Rightarrow> parse_bool v = Some True)"

definition listing_of :: "Vault \<Rightarrow> string list \<Rightarrow> Listing list" where
  "listing_of v pos =
     (case pos of [] \<Rightarrow> VaultList v | p # _ \<Rightarrow> filter (\<lambda>l. Match p (L_Key l)) (VaultList v))"

definition cmdList :: command where
  "cmdList H args a =
     (case parse_args list_flags args of
        Inl n \<Rightarrow> (Exited n, a)
      | Inr (ss, pos) \<Rightarrow>
          (case vault_load H (OpenDir (h_environ H) (str_flag ss ''dir'' '''')) a of
             None \<Rightarrow> (Failed VaultUnreadable, a)
           | Some v \<Rightarrow>
               (let ls = listing_of v pos in
                (Returned,
                 say (if bool_flag ss ''json'' \<or> bool_flag2 ss ''l'' ''long'' then map Entry ls
                      else map (\<lambda>l. Text (L_Key l)) ls) a))))"

definition cmdCompleteKeys :: command where
  "cmdCompleteKeys H args a =
     (case parse_args [(''dir'', StringFlag)] args of
        Inl n \<Rightarrow> (Exited n, a)
      | Inr (ss, pos) \<Rightarrow>
          (case vault_load H (OpenDir (h_environ H) (str_flag ss ''dir'' '''')) a of
             None \<Rightarrow> (Returned, a)
           | Some v \<Rightarrow> (Returned, say (map (\<lambda>l. Text (L_Key l)) (VaultList v)) a)))"

section \<open>alice status\<close>

record statusInfo =
  SI_Enrolled :: bool
  SI_Identity :: string
  SI_BobAddr :: string
  SI_ServerName :: string
  SI_ClientCert :: bool
  SI_BobReachable :: bool
  SI_BobUnlocked :: bool
  SI_IdleTTLSec :: int
  SI_Error :: "failure option"

definition no_status :: statusInfo where
  "no_status = \<lparr>SI_Enrolled = False, SI_Identity = '''', SI_BobAddr = '''', SI_ServerName = '''',
     SI_ClientCert = False, SI_BobReachable = False, SI_BobUnlocked = False, SI_IdleTTLSec = 0, SI_Error = None\<rparr>"

definition ask_Status :: "connection \<Rightarrow> alice \<Rightarrow> (failure + (bool \<times> int)) \<times> alice" where
  "ask_Status conn a =
     (map_sum FromBob id (client_Status '''' (conn (a_sent a))),
      a\<lparr>a_sent := a_sent a @ [NoRequest\<lparr>Req_Op := OpStatusName\<rparr>]\<rparr>)"

definition gatherStatus :: "host \<Rightarrow> string \<Rightarrow> alice \<Rightarrow> statusInfo \<times> alice" where
  "gatherStatus H dir a =
     (case LoadConfig (h_codec H) dir (a_disk a) of
        None \<Rightarrow> (no_status, a)
      | Some cfg \<Rightarrow>
          (let info = no_status\<lparr>SI_Enrolled := True, SI_Identity := Identity cfg, SI_BobAddr := BobAddr cfg,
                        SI_ServerName := ServerName cfg\<rparr>
           in if a_disk a (ClientCertPath dir) = Missing then (info, a)
              else
                (case loadClient H dir (a_disk a) of
                   Inl e \<Rightarrow> (info\<lparr>SI_ClientCert := True, SI_Error := Some e\<rparr>, a)
                 | Inr (conn, _) \<Rightarrow>
                     (case ask_Status conn a of
                        (Inl e, a1) \<Rightarrow> (info\<lparr>SI_ClientCert := True, SI_Error := Some e\<rparr>, a1)
                      | (Inr (unlocked, ttl), a1) \<Rightarrow>
                          (info\<lparr>SI_ClientCert := True, SI_BobReachable := True, SI_BobUnlocked := unlocked,
                             SI_IdleTTLSec := (if unlocked \<and> 0 < ttl then ttl else 0)\<rparr>, a1)))))"

definition status_json :: "statusInfo \<Rightarrow> out_line list" where
  "status_json info =
     (let opt = (\<lambda>k v. if v = '''' then [] else [(k, v)]); flag = (\<lambda>k b. (k, if b then ''true'' else ''false''))
      in Json ([flag ''enrolled'' (SI_Enrolled info)] @ opt ''identity'' (SI_Identity info) @
               opt ''bob_addr'' (SI_BobAddr info) @ opt ''server_name'' (SI_ServerName info) @
               [flag ''client_cert'' (SI_ClientCert info), flag ''bob_reachable'' (SI_BobReachable info),
                flag ''bob_unlocked'' (SI_BobUnlocked info)] @
               (if SI_IdleTTLSec info = 0 then [] else [(''idle_ttl_seconds'', Itoa (SI_IdleTTLSec info))]))
           # (case SI_Error info of None \<Rightarrow> [] | Some e \<Rightarrow> [ErrorText e]))"

text \<open>The text form walks through the same stages itself.\<close>

definition status_lines :: "host \<Rightarrow> string \<Rightarrow> alice \<Rightarrow> out_line list \<times> alice" where
  "status_lines H dir a =
     (case LoadConfig (h_codec H) dir (a_disk a) of
        None \<Rightarrow> ([Text ''Enrolled: no''], a)
      | Some cfg \<Rightarrow>
          (let ls = [Field ''Identity'' (Identity cfg), Field ''Bob'' (BobAddr cfg), Field ''server-name'' (ServerName cfg)]
           in if a_disk a (ClientCertPath dir) = Missing then (ls @ [Text ''Client cert: missing''], a)
              else
                (case loadClient H dir (a_disk a) of
                   Inl e \<Rightarrow> (ls @ [Text ''Bob status: error'', ErrorText e], a)
                 | Inr (conn, _) \<Rightarrow>
                     (case ask_Status conn a of
                        (Inl e, a1) \<Rightarrow> (ls @ [Text ''Bob status: unreachable'', ErrorText e], a1)
                      | (Inr (unlocked, ttl), a1) \<Rightarrow>
                          (ls @
                           [if unlocked
                            then (if 0 < ttl then Field ''Bob status: unlocked, idle TTL'' (Itoa ttl)
                                  else Text ''Bob status: unlocked'')
                            else Text ''Bob status: locked''], a1)))))"

definition status_flags :: flag_set where
  "status_flags = [(''dir'', StringFlag), (''json'', BoolFlag)]"

definition cmdStatus :: command where
  "cmdStatus H args a =
     (case parse_args status_flags args of
        Inl n \<Rightarrow> (Exited n, a)
      | Inr (ss, pos) \<Rightarrow>
          (let dir = OpenDir (h_environ H) (str_flag ss ''dir'' '''') in
           if bool_flag ss ''json''
           then (case gatherStatus H dir a of (info, a1) \<Rightarrow> (Returned, say (status_json info) a1))
           else (case status_lines H dir a of (ls, a1) \<Rightarrow> (Returned, say ls a1))))"

text \<open>The text form of what the structured form holds.\<close>

definition status_text :: "statusInfo \<Rightarrow> out_line list" where
  "status_text info =
     (if \<not> SI_Enrolled info then [Text ''Enrolled: no'']
      else
        [Field ''Identity'' (SI_Identity info), Field ''Bob'' (SI_BobAddr info), Field ''server-name'' (SI_ServerName info)] @
        (if \<not> SI_ClientCert info then [Text ''Client cert: missing'']
         else
           (case SI_Error info of
              Some (FromBob e) \<Rightarrow> [Text ''Bob status: unreachable'', ErrorText (FromBob e)]
            | Some e \<Rightarrow> [Text ''Bob status: error'', ErrorText e]
            | None \<Rightarrow>
                [if SI_BobUnlocked info
                 then (if 0 < SI_IdleTTLSec info then Field ''Bob status: unlocked, idle TTL'' (Itoa (SI_IdleTTLSec info))
                       else Text ''Bob status: unlocked'')
                 else Text ''Bob status: locked''])))"

lemma loadClient_not_FromBob: "loadClient H dir d \<noteq> Inl (FromBob e)"
  by (simp add: loadClient_def split: option.split file_bytes.split)

lemma status_lines_gather:
  "status_lines H dir a = (status_text (fst (gatherStatus H dir a)), snd (gatherStatus H dir a))"
proof (cases "LoadConfig (h_codec H) dir (a_disk a)")
  case (Some cfg)
  note 1 = Some
  show ?thesis
  proof (cases "a_disk a (ClientCertPath dir) = Missing")
    case False
    note 2 = this
    show ?thesis
    proof (cases "loadClient H dir (a_disk a)")
      case (Inl e)
      then have "\<forall>x. e \<noteq> FromBob x" using loadClient_not_FromBob by auto
      then show ?thesis
        using 1 2 Inl by (cases e) (simp_all add: status_lines_def gatherStatus_def status_text_def no_status_def Let_def)
    next
      case (Inr c)
      obtain conn cfg' where c: "c = (conn, cfg')" by (cases c)
      obtain r a1 where r: "ask_Status conn a = (r, a1)" by (metis surj_pair)
      show ?thesis
      proof (cases r)
        case (Inl e)
        then obtain x where "e = FromBob x"
          using r by (auto simp: ask_Status_def map_sum_def split: sum.splits)
        with 1 2 Inr c r Inl show ?thesis
          by (simp add: status_lines_def gatherStatus_def status_text_def no_status_def Let_def)
      next
        case (Inr p)
        with 1 2 \<open>loadClient H dir (a_disk a) = Inr c\<close> c r show ?thesis
          by (cases p) (simp add: status_lines_def gatherStatus_def status_text_def no_status_def Let_def)
      qed
    qed
  qed (use 1 in \<open>simp add: status_lines_def gatherStatus_def status_text_def no_status_def Let_def\<close>)
qed (simp add: status_lines_def gatherStatus_def status_text_def no_status_def)

section \<open>alice audit\<close>

definition audit_flags :: flag_set where
  "audit_flags = [(''dir'', StringFlag), (''strict'', BoolFlag), (''ignore'', StringFlag)]"

definition ignore_patterns :: "string \<Rightarrow> string list" where
  "ignore_patterns ignore = filter (\<lambda>p. p \<noteq> '''') (map TrimSpace (Split ignore CHR '',''))"

definition audited :: "string list \<Rightarrow> Listing list \<Rightarrow> Listing list" where
  "audited patterns ls = filter (\<lambda>l. \<not> list_ex (\<lambda>p. Match p (L_Key l)) patterns) ls"

definition max_epoch :: "Listing list \<Rightarrow> int" where
  "max_epoch ls = foldl (\<lambda>m l. if m < L_KeyEpoch l then L_KeyEpoch l else m) 0 ls"

definition missing_of :: "Listing list \<Rightarrow> Listing list" where
  "missing_of ls = filter (\<lambda>l. L_EntropyBits l = 0) ls"

definition weak_of :: "Listing list \<Rightarrow> Listing list" where
  "weak_of ls = filter (\<lambda>l. L_EntropyBits l \<noteq> 0 \<and> Tier (L_EntropyBits l) = ''weak'') ls"

definition stale_of :: "Listing list \<Rightarrow> Listing list" where
  "stale_of ls = filter (\<lambda>l. L_KeyEpoch l \<noteq> 0 \<and> L_KeyEpoch l < max_epoch ls) ls"

definition cmdAudit :: command where
  "cmdAudit H args a =
     (case parse_args audit_flags args of
        Inl n \<Rightarrow> (Exited n, a)
      | Inr (ss, pos) \<Rightarrow>
          (case vault_load H (OpenDir (h_environ H) (str_flag ss ''dir'' '''')) a of
             None \<Rightarrow> (Failed VaultUnreadable, a)
           | Some v \<Rightarrow>
               if VaultList v = [] then (Returned, a)
               else
                 (let ls = audited (ignore_patterns (str_flag ss ''ignore'' '''')) (VaultList v);
                      a1 = say (map (\<lambda>l. Issue ''weak'' (L_Key l) (L_EntropyBits l)) (weak_of ls) @
                             map (\<lambda>l. Issue ''stale'' (L_Key l) (L_KeyEpoch l)) (stale_of ls) @
                             map (\<lambda>l. Issue ''missing'' (L_Key l) 0) (missing_of ls) @
                             [Summary (length (weak_of ls)) (length (stale_of ls)) (length (missing_of ls))
                                (length (VaultList v) - length ls)]) a
                  in if bool_flag ss ''strict'' \<and> 0 < length (weak_of ls) + length (stale_of ls) + length (missing_of ls)
                     then (Exited 1, a1) else (Returned, a1))))"

section \<open>alice rekey-status, alice rekey, alice backfill-meta\<close>

text \<open>The version under which an entry is counted; -1 collects the malformed ones.\<close>

definition version_bucket :: "SecretEntry \<Rightarrow> int" where
  "version_bucket e = (case ParseVersion (Value e) of Inl _ \<Rightarrow> -1 | Inr (ver, _) \<Rightarrow> ver)"

definition version_counts :: "Vault \<Rightarrow> (int \<times> nat) list" where
  "version_counts v =
     (let vs = map (\<lambda>(k, e). version_bucket e) (Secrets v) in
      map (\<lambda>ver. (ver, count_list vs ver)) (sort (remdups vs)))"

definition cmdRekeyStatus :: command where
  "cmdRekeyStatus H args a =
     (case parse_args [(''dir'', StringFlag)] args of
        Inl n \<Rightarrow> (Exited n, a)
      | Inr (ss, pos) \<Rightarrow>
          (case vault_load H (OpenDir (h_environ H) (str_flag ss ''dir'' '''')) a of
             None \<Rightarrow> (Failed VaultUnreadable, a)
           | Some v \<Rightarrow>
               (Returned, say (map (\<lambda>(ver, n). Count ver n) (version_counts v) @ [Total (length (Secrets v))]) a)))"

definition reason_flags :: flag_set where
  "reason_flags = [(''dir'', StringFlag), (''reason'', StringFlag)]"

text \<open>The ciphertexts of the whole vault, in the order of the map iteration.\<close>

definition packed_of :: "Vault \<Rightarrow> string list \<Rightarrow> string list" where
  "packed_of v keys = map (\<lambda>k. case Get v k of None \<Rightarrow> '''' | Some e \<Rightarrow> Value e) keys"

definition cmdRekey :: command where
  "cmdRekey H args a =
     (case parse_args reason_flags args of
        Inl n \<Rightarrow> (Exited n, a)
      | Inr (ss, pos) \<Rightarrow>
          if \<not> h_stdin_tty H then (Exited 1, a)
          else
            (let dir = OpenDir (h_environ H) (str_flag ss ''dir'' '''') in
             case vault_load H dir a of
               None \<Rightarrow> (Failed VaultUnreadable, a)
             | Some v \<Rightarrow>
                 if Secrets v = [] then (Returned, a)
                 else
                   (let keys = h_order H (map fst (Secrets v)) in
                    case loadClient H dir (a_disk a) of
                      Inl e \<Rightarrow> (Failed e, a)
                    | Inr (conn, _) \<Rightarrow>
                        (case ask_DecryptMany conn (str_flag ss ''reason'' ''[rekey]'') keys (packed_of v keys) a of
                           (Inl e, a1) \<Rightarrow> (Failed e, a1)
                         | (Inr (pts, rewraps), a1) \<Rightarrow>
                             (case applyRewraps H dir keys rewraps a1 of
                                (Inl e, a2) \<Rightarrow> (Failed e, a2)
                              | (Inr n, a2) \<Rightarrow> (Returned, a2))))))"

text \<open>Measuring one entry; \<open>None\<close> when nothing about it changes.\<close>

definition backfill_entry :: "string \<Rightarrow> string \<Rightarrow> SecretEntry \<Rightarrow> SecretEntry option" where
  "backfill_entry pt rewrap e =
     (let effective = (if rewrap \<noteq> '''' then rewrap else Value e);
          epoch = epoch_of effective;
          lenBytes = int (length pt);
          bits = EstimateBits pt
      in if rewrap = '''' \<and> LenBytes e = lenBytes \<and> EntropyBits e = bits \<and> KeyEpoch e = epoch then None
         else Some (e\<lparr>Value := effective, LenBytes := lenBytes, EntropyBits := bits, KeyEpoch := epoch\<rparr>))"

fun backfill_all :: "(string \<times> string \<times> string) list \<Rightarrow> Vault \<Rightarrow> nat \<times> Vault" where
  "backfill_all [] v = (0, v)"
| "backfill_all ((k, pt, rewrap) # rest) v =
     (case Get v k of
        None \<Rightarrow> backfill_all rest v
      | Some e \<Rightarrow>
          (case backfill_entry pt rewrap e of
             None \<Rightarrow> backfill_all rest v
           | Some e' \<Rightarrow> (case backfill_all rest (Set k e' v) of (n, v') \<Rightarrow> (Suc n, v'))))"

definition cmdBackfillMeta :: command where
  "cmdBackfillMeta H args a =
     (case parse_args reason_flags args of
        Inl n \<Rightarrow> (Exited n, a)
      | Inr (ss, pos) \<Rightarrow>
          (let dir = OpenDir (h_environ H) (str_flag ss ''dir'' '''') in
           case vault_load H dir a of
             None \<Rightarrow> (Failed VaultUnreadable, a)
           | Some v \<Rightarrow>
               if Secrets v = [] then (Returned, a)
               else
                 (let keys = h_order H (map fst (Secrets v)) in
                  case loadClient H dir (a_disk a) of
                    Inl e \<Rightarrow> (Failed e, a)
                  | Inr (conn, _) \<Rightarrow>
                      (case ask_DecryptMany conn (str_flag ss ''reason'' ''[backfill-meta]'') keys (packed_of v keys) a of
                         (Inl e, a1) \<Rightarrow> (Failed e, a1)
                       | (Inr (pts, rewraps), a1) \<Rightarrow>
                           if length pts < length keys then (Failed Panic, a1)
                           else
                             (let rs = (if length rewraps = length keys then rewraps else replicate (length keys) '''') in
                              save_or_fail H dir (snd (backfill_all (zip keys (zip pts rs)) v)) [] a1)))))"

section \<open>alice gen\<close>

definition gen_flags :: flag_set where
  "gen_flags =
     [(''style'', StringFlag), (''l'', IntFlag), (''length'', IntFlag), (''n'', IntFlag), (''count'', IntFlag)]"

fun gen_loop :: "host \<Rightarrow> string \<Rightarrow> int \<Rightarrow> nat \<Rightarrow> alice \<Rightarrow> outcome \<times> alice" where
  "gen_loop H style len 0 a = (Returned, a)"
| "gen_loop H style len (Suc n) a =
     (case generate_value H style len a of
        (Inl x, a1) \<Rightarrow> (x, a1)
      | (Inr p, a1) \<Rightarrow> gen_loop H style len n (say [Text p] a1))"

definition cmdGen :: command where
  "cmdGen H args a =
     (case parse_args gen_flags args of
        Inl n \<Rightarrow> (Exited n, a)
      | Inr (ss, pos) \<Rightarrow>
          (let count = int_flag ss [''n'', ''count''] 1 in
           if count < 1 \<or> 10 < count then (Failed (CountOutOfRange count), a)
           else gen_loop H (str_flag ss ''style'' ''apple'') (int_flag ss [''l'', ''length''] 0) (nat count) a))"

section \<open>alice enroll, alice install-cert\<close>

definition enroll_flags :: flag_set where
  "enroll_flags =
     [(''dir'', StringFlag), (''identity'', StringFlag), (''bob'', StringFlag), (''server-name'', StringFlag),
      (''ca'', StringFlag)]"

definition hostOnly :: "string \<Rightarrow> string" where
  "hostOnly addr =
     (case LastIndexByte addr CHR '':'' of
        Some i \<Rightarrow> if 0 < i then take i addr else addr
      | None \<Rightarrow> addr)"

definition scaffold_lines :: "string list" where
  "scaffold_lines =
     [''# AnB exec-allowlist rules.'',
      ''# One rule per line: <regex>'' @ [BSL] @ ''t<env-csv>'' @ [BSL] @ ''t#<label>.'',
      ''# Implicit ^...$ anchor.'',
      ''# Default deny: unmatched invocations are rejected (TTY callers see'',
      ''# an auto-bless prompt; non-TTY callers hard-deny).'',
      ''# Run '' @ [SQ] @ ''alice exec --show-match-string -- cmd args...'' @ [SQ] @ '' to see exactly'',
      ''# what string your regex needs to match.'',
      '''']"

definition scaffoldRulesFile :: "string \<Rightarrow> alice \<Rightarrow> bool \<times> alice" where
  "scaffoldRulesFile dir a =
     (if a_disk a (rulesPathOf dir) \<noteq> Missing then (True, a)
      else os_create (rulesPathOf dir) (concat (map (\<lambda>l. l @ [LF]) scaffold_lines)) a)"

text \<open>The four files of an enrolment, each written atomically; the first failure ends the command
  with what was written before it.\<close>

fun write_files :: "host \<Rightarrow> string \<Rightarrow> (string \<times> bytes) list \<Rightarrow> alice \<Rightarrow> bool \<times> alice" where
  "write_files H dir [] a = (True, a)"
| "write_files H dir ((n, b) # fs) a =
     (case finish_write (WriteFile (h_fault H (a_writes a)) dir n b (a_disk a)) a of
        (ok, a1) \<Rightarrow> if ok then write_files H dir fs a1 else (False, a1))"

definition cmdEnroll :: command where
  "cmdEnroll H args a =
     (case parse_args enroll_flags args of
        Inl n \<Rightarrow> (Exited n, a)
      | Inr (ss, pos) \<Rightarrow>
          (let identity = str_flag ss ''identity'' ''''; bob = str_flag ss ''bob'' '''';
               caPath = str_flag ss ''ca'' ''''; given = str_flag ss ''server-name'' '''';
               sn = (if given = '''' then hostOnly bob else given);
               dir = OpenDir (h_environ H) (str_flag ss ''dir'' '''')
           in if identity = '''' \<or> bob = '''' \<or> caPath = '''' then (Failed Usage, a)
              else
                (case a_disk a caPath of
                   Content caPEM \<Rightarrow>
                     (case h_csr H identity of
                        None \<Rightarrow> (Failed CSRFailed, a)
                      | Some (csrPEM, keyPEM) \<Rightarrow>
                          (case write_files H dir
                                  [(''client.key'', keyPEM), (''client.csr'', csrPEM), (''ca.crt'', caPEM),
                                   (''config.json'', marshal_config (h_codec H)
                                      \<lparr>BobAddr = bob, ServerName = sn, Identity = identity\<rparr>)] a of
                             (False, a1) \<Rightarrow> (Failed WriteFailed, a1)
                           | (True, a1) \<Rightarrow>
                               (case scaffoldRulesFile dir a1 of
                                  (False, a2) \<Rightarrow> (Failed WriteFailed, a2)
                                | (True, a2) \<Rightarrow> (Returned, say [Enrolled identity] a2))))
                 | _ \<Rightarrow> (Failed (FileNotFound caPath), a))))"

definition validatePairingCode :: "string \<Rightarrow> bool" where
  "validatePairingCode s \<longleftrightarrow> length s = 8 \<and> list_all is_digit s"

text \<open>\<open>readPairingCode\<close>: the environment first, then the terminal.\<close>

definition readPairingCode :: "host \<Rightarrow> alice \<Rightarrow> (failure + string) \<times> alice" where
  "readPairingCode H a =
     (let v = Getenv (h_environ H) ''ANB_PAIR_CODE'' in
      if v \<noteq> '''' then (if validatePairingCode v then Inr v else Inl BadPairingCode, a)
      else
        (case ReadLine (a_stdin a) of
           (None, rest) \<Rightarrow> (Inl ReadFailed, a\<lparr>a_stdin := rest\<rparr>)
         | (Some line, rest) \<Rightarrow>
             (if validatePairingCode line then Inr line else Inl BadPairingCode, a\<lparr>a_stdin := rest\<rparr>)))"

definition pairing_failure :: "ca_error \<Rightarrow> failure" where
  "pairing_failure e =
     (case e of PairingIsAbsent \<Rightarrow> PairingAbsent | PairingHasExpired \<Rightarrow> PairingExpired
      | PairingDiffers \<Rightarrow> PairingMismatch | _ \<Rightarrow> NotACertificate)"

definition check_pairing :: "host \<Rightarrow> pki \<Rightarrow> int \<Rightarrow> certificate \<Rightarrow> alice \<Rightarrow> failure option \<times> alice" where
  "check_pairing H K now cert a =
     (case readPairingCode H a of
        (Inl e, a1) \<Rightarrow> (Some e, a1)
      | (Inr code, a1) \<Rightarrow> (map_option pairing_failure (VerifyPairing K cert code now), a1))"

definition cmdInstallCert :: "pki \<Rightarrow> int \<Rightarrow> command" where
  "cmdInstallCert K now H args a =
     (case parse_args [(''dir'', StringFlag), (''no-pair'', BoolFlag)] args of
        Inl n \<Rightarrow> (Exited n, a)
      | Inr (ss, pos) \<Rightarrow>
          if length pos \<noteq> 1 then (Failed Usage, a)
          else
            (case a_disk a (hd pos) of
               Content certPEM \<Rightarrow>
                 (case parseCert K certPEM of
                    Inl e \<Rightarrow> (Failed NotACertificate, a)
                  | Inr cert \<Rightarrow>
                      (case (if bool_flag ss ''no-pair'' then (None, a) else check_pairing H K now cert a) of
                         (Some e, a1) \<Rightarrow> (Failed e, a1)
                       | (None, a1) \<Rightarrow>
                           (let dir = OpenDir (h_environ H) (str_flag ss ''dir'' '''') in
                            case write_files H dir [(''client.crt'', certPEM)] a1 of
                              (ok, a2) \<Rightarrow>
                                if ok then (Returned, say [Installed (ClientCertPath dir)] a2)
                                else (Failed WriteFailed, a2))))
             | _ \<Rightarrow> (Failed (FileNotFound (hd pos)), a)))"

section \<open>The order of the files of an enrolment\<close>

text \<open>The files of a sequence of writes, each with the fault that the host has for it.\<close>

fun faulted :: "host \<Rightarrow> string \<Rightarrow> nat \<Rightarrow> (string \<times> bytes) list \<Rightarrow> (write_fault \<times> string \<times> bytes) list" where
  "faulted H dir n [] = []"
| "faulted H dir n ((name, b) # fs) = (h_fault H n, FilepathJoin [dir, name], b) # faulted H dir (Suc n) fs"

lemma write_files_all:
  "write_files H dir fs a = (ok, a') \<Longrightarrow>
     \<exists>ds. wa.write_all (faulted H dir (a_writes a) fs) (a_disk a) = (ok, ds) \<and> a_disk a' = last ds"
proof (induction fs arbitrary: a)
  case (Cons nb fs)
  obtain name b where nb: "nb = (name, b)" by (cases nb)
  obtain ok1 ds1 where w: "writeAtomic (h_fault H (a_writes a)) (FilepathJoin [dir, name]) b (a_disk a) = (ok1, ds1)"
    by (metis surj_pair)
  let ?a1 = "a\<lparr>a_disk := last ds1, a_writes := Suc (a_writes a)\<rparr>"
  show ?case
  proof (cases ok1)
    case True
    with Cons.prems w have "write_files H dir fs ?a1 = (ok, a')"
      by (simp add: nb finish_write_def WriteFile_def)
    from Cons.IH [OF this] obtain es where
      "wa.write_all (faulted H dir (Suc (a_writes a)) fs) (last ds1) = (ok, es)" "a_disk a' = last es" "es \<noteq> []"
      using wa.write_all_nonempty by fastforce
    with w True show ?thesis by (simp add: nb)
  next
    case False
    with Cons.prems w show ?thesis by (auto simp: nb finish_write_def WriteFile_def)
  qed
qed simp

text \<open>The profile comes last: wherever an enrolment is cut, by a failed write or a crash, a new
  \<open>config.json\<close> stands beside the key, the request and the authority of the same enrolment.\<close>

lemma enrolment_profile_last:
  assumes "wa.write_all (faulted H dir n
      [(''client.key'', keyPEM), (''client.csr'', csrPEM), (''ca.crt'', caPEM), (''config.json'', profile)]) d = (ok, ds)"
    and "d' \<in> set ds" and "d' (ConfigPath dir) \<noteq> d (ConfigPath dir)"
  shows "d' (ClientKeyPath dir) = Content keyPEM \<and> d' (CSRPath dir) = Content csrPEM \<and>
    d' (CAPath dir) = Content caPEM \<and> d' (ConfigPath dir) = Content profile"
proof -
  let ?ws = "faulted H dir n
      [(''client.key'', keyPEM), (''client.csr'', csrPEM), (''ca.crt'', caPEM), (''config.json'', profile)]"
  have "wa.apart ?ws"
    by (simp add: wa.apart_def wa.targets_def FilepathJoin_name file_name_def)
  from wa.write_all_prefix [OF assms(1) this assms(2)] obtain m where
    m: "\<forall>i < length ?ws. case ?ws ! i of (f, path, dat) \<Rightarrow>
      (if i < m then d' path = Content dat else d' path = d path)" by blast
  from m [rule_format, of 3] assms(3) have "3 < m"
    by (auto simp: ConfigPath_def eval_nat_numeral split: if_splits simp del: state_path_names)
  with m [rule_format, of 0] m [rule_format, of 1] m [rule_format, of 2] m [rule_format, of 3] show ?thesis
    by (simp add: state_paths eval_nat_numeral del: state_path_names)
qed

text \<open>Both forms of \<open>alice status\<close> report the same. With and without \<open>--json\<close> the command
  succeeds, sends Bob the same requests and prints the same facts about the enrolment, the
  connection and Bob's state: each form is a function of one record.\<close>

theorem status_views_agree:
  assumes "parse_args status_flags args = Inr (ss, pos)" and "\<not> bool_flag ss ''json''"
    and "parse_args status_flags args' = Inr (ss', pos')" and "bool_flag ss' ''json''"
    and "str_flag ss' ''dir'' '''' = str_flag ss ''dir'' ''''"
  shows "\<exists>info a1. gatherStatus H (OpenDir (h_environ H) (str_flag ss ''dir'' '''')) a = (info, a1) \<and>
    cmdStatus H args a = (Returned, say (status_text info) a1) \<and>
    cmdStatus H args' a = (Returned, say (status_json info) a1)"
  using assms by (simp add: cmdStatus_def status_lines_gather Let_def split: prod.split)

theorem status_views_agree_witness:
  "\<forall>H a. \<exists>info a1. gatherStatus H (OpenDir (h_environ H) ''/d'') a = (info, a1) \<and>
    cmdStatus H [''--dir'', ''/d''] a = (Returned, say (status_text info) a1) \<and>
    cmdStatus H [''--json'', ''--dir'', ''/d''] a = (Returned, say (status_json info) a1)"
proof -
  have "parse_args status_flags [''--dir'', ''/d''] = Inr ([(''dir'', ''/d'')], [])" by code_simp
  moreover have "parse_args status_flags [''--json'', ''--dir'', ''/d''] = Inr ([(''json'', ''true''), (''dir'', ''/d'')], [])"
    by code_simp
  moreover have "parse_bool ''true'' = Some True" by code_simp
  ultimately show ?thesis
    using status_views_agree [of "[''--dir'', ''/d'']" "[(''dir'', ''/d'')]" "[]" "[''--json'', ''--dir'', ''/d'']"
      "[(''json'', ''true''), (''dir'', ''/d'')]" "[]"]
    by (simp add: str_flag_def bool_flag_def)
qed

end
