(* ===== verification/Alice_Eth.thy ===== *)
theory Alice_Eth
  imports Alice_Vault
begin

text \<open>
  \<open>alice eth\<close> (\<open>cmd/alice/eth.go\<close>): Ethereum wallets whose mnemonic is an entry of the vault.
  The commands take the libraries of \<open>internal/eth\<close> as an argument; a panic there ends the
  process. Headings, hints and the padding of the columns are not recorded.
\<close>

section \<open>Shared steps\<close>

definition ethDefaultName :: string where "ethDefaultName = ''eth''"

definition from_eth :: "eth_error \<Rightarrow> failure" where
  "from_eth e = (if e = EthPanic then Panic else FromEth e)"

text \<open>\<open>loadMnemonic\<close>: the decrypted entry, rewrapped entries written back on the way.\<close>

definition loadMnemonic :: "host \<Rightarrow> string \<Rightarrow> string \<Rightarrow> alice \<Rightarrow> (failure + string) \<times> alice" where
  "loadMnemonic H dir name a =
     (case vault_load H dir a of
        None \<Rightarrow> (Inl VaultUnreadable, a)
      | Some v \<Rightarrow>
          (case Get v name of
             None \<Rightarrow> (Inl (NotFound name), a)
           | Some entry \<Rightarrow>
               (case decrypt_keys H dir '''' [name] [Value entry] a of
                  (Inl e, a1) \<Rightarrow> (Inl e, a1)
                | (Inr pts, a1) \<Rightarrow> (Inr (hd pts), a1))))"

text \<open>\<open>printWords\<close>: numbered, four to a line; the words are those of a valid mnemonic.\<close>

definition pad_right :: "nat \<Rightarrow> string \<Rightarrow> string" where
  "pad_right w s = s @ replicate (w - length s) CHR '' ''"

definition pad_num :: "nat \<Rightarrow> string" where
  "pad_num n = replicate (2 - length (nat_digits n)) CHR '' '' @ nat_digits n"

definition word_cell :: "nat \<times> string \<Rightarrow> string" where
  "word_cell = (\<lambda>(j, w). pad_num (Suc j) @ ''. '' @ pad_right 9 w)"

fun word_lines :: "nat \<Rightarrow> string list \<Rightarrow> string list" where
  "word_lines i [] = []"
| "word_lines i (w # ws) =
     (''  '' @ Join (map word_cell (enumerate i (take 4 (w # ws)))) '' '') # word_lines (i + 4) (drop 4 (w # ws))"

definition printWords :: "string \<Rightarrow> out_line list" where
  "printWords mnemonic = map Text (word_lines 0 (Fields mnemonic))"

text \<open>The question before an entry is overwritten; an error of the terminal counts as no.\<close>

definition may_overwrite :: "Vault \<Rightarrow> string \<Rightarrow> alice \<Rightarrow> bool \<times> alice" where
  "may_overwrite v name a =
     (case Get v name of
        None \<Rightarrow> (True, a)
      | Some existing \<Rightarrow>
          (case Confirm False (a_stdin a) of (ok, rest) \<Rightarrow> (ok = Some True, a\<lparr>a_stdin := rest\<rparr>)))"

text \<open>Encrypting a mnemonic and storing it under its name.\<close>

definition store_mnemonic ::
  "host \<Rightarrow> string \<Rightarrow> Vault \<Rightarrow> string \<Rightarrow> string \<Rightarrow> string \<Rightarrow> out_line list \<Rightarrow> alice \<Rightarrow> outcome \<times> alice" where
  "store_mnemonic H dir v name mnemonic desc shown a =
     (case loadClient H dir (a_disk a) of
        Inl e \<Rightarrow> (Failed e, a)
      | Inr (conn, _) \<Rightarrow>
          (case ask_Encrypt conn '''' name mnemonic a of
             (Inl e, a1) \<Rightarrow> (Failed e, a1)
           | (Inr packed, a1) \<Rightarrow>
               save_or_fail H dir
                 (Set name \<lparr>Value = packed, Desc = desc, CreatedAt = h_now H, UpdatedAt = '''', KeyEpoch = 0,
                            LenBytes = 0, EntropyBits = 0\<rparr> v) shown a1))"

definition wallet_desc :: "int \<Rightarrow> string" where
  "wallet_desc words = ''ETH BIP-39 mnemonic ('' @ Itoa words @ '' words, derive m/44'' @ [SQ] @ ''/60'' @ [SQ] @ ''/0'' @
     [SQ] @ ''/0/N)''"

section \<open>alice eth new, alice eth import\<close>

definition new_flags :: flag_set where
  "new_flags = [(''dir'', StringFlag), (''words'', IntFlag), (''name'', StringFlag)]"

definition cmdEthNew :: "'k eth_lib \<Rightarrow> command" where
  "cmdEthNew E H args a =
     (case parse_args new_flags args of
        Inl n \<Rightarrow> (Exited n, a)
      | Inr (ss, pos) \<Rightarrow>
          (let dir = OpenDir (h_environ H) (str_flag ss ''dir'' ''''); words = int_flag ss [''words''] 24;
               name = str_flag ss ''name'' ethDefaultName
           in if \<not> h_stdin_tty H then (Exited 1, a)
              else if \<not> MatchString keyFormat name then (Failed BadKey, a)
              else
                (case vault_load H dir a of
                   None \<Rightarrow> (Failed VaultUnreadable, a)
                 | Some v \<Rightarrow>
                     (case may_overwrite v name a of
                        (False, a1) \<Rightarrow> (Returned, say [Cancelled] a1)
                      | (True, a1) \<Rightarrow>
                          (case GenMnemonic E words of
                             Inl e \<Rightarrow> (Failed (from_eth e), a1)
                           | Inr mnemonic \<Rightarrow>
                               (case DeriveAddress E mnemonic 0 of
                                  Inl e \<Rightarrow> (Failed (from_eth e), a1)
                                | Inr addr \<Rightarrow>
                                    store_mnemonic H dir v name mnemonic (wallet_desc words)
                                      (Saved name '''' # printWords mnemonic @ [Field ''First address'' addr]) a1))))))"

definition name_flags :: flag_set where
  "name_flags = [(''dir'', StringFlag), (''name'', StringFlag)]"

definition cmdEthImport :: "'k eth_lib \<Rightarrow> command" where
  "cmdEthImport E H args a =
     (case parse_args name_flags args of
        Inl n \<Rightarrow> (Exited n, a)
      | Inr (ss, pos) \<Rightarrow>
          (let dir = OpenDir (h_environ H) (str_flag ss ''dir'' ''''); name = str_flag ss ''name'' ethDefaultName
           in if \<not> h_stdin_tty H then (Exited 1, a)
              else if \<not> MatchString keyFormat name then (Failed BadKey, a)
              else
                (case vault_load H dir a of
                   None \<Rightarrow> (Failed VaultUnreadable, a)
                 | Some v \<Rightarrow>
                     (case may_overwrite v name a of
                        (False, a1) \<Rightarrow> (Returned, say [Cancelled] a1)
                      | (True, a1) \<Rightarrow>
                          (case readLine (a_stdin a1) of
                             (line, True, rest) \<Rightarrow> (Failed ReadFailed, a1\<lparr>a_stdin := rest\<rparr>)
                           | (line, False, rest) \<Rightarrow>
                               (let mnemonic = NormalizeMnemonic (line @ [LF]); a2 = a1\<lparr>a_stdin := rest\<rparr> in
                                case ValidateMnemonic E mnemonic of
                                  Inl e \<Rightarrow> (Failed (from_eth e), a2)
                                | Inr _ \<Rightarrow>
                                    (case DeriveAddress E mnemonic 0 of
                                       Inl e \<Rightarrow> (Failed (from_eth e), a2)
                                     | Inr addr \<Rightarrow>
                                         store_mnemonic H dir v name mnemonic
                                           (wallet_desc (int (length (Fields mnemonic))) @ '' '' @
                                            [CHR 0xE2, CHR 0x80, CHR 0x94] @ '' imported'')
                                           [Saved name '''', Field ''First address'' addr] a2)))))))"

section \<open>alice eth address, alice eth show\<close>

definition address_flags :: flag_set where
  "address_flags = [(''dir'', StringFlag), (''name'', StringFlag), (''index'', UintFlag)]"

text \<open>The index is a 64-bit \<open>uint\<close>, converted to \<open>uint32\<close> for the derivation.\<close>

definition index_of :: "settings \<Rightarrow> 32 word" where
  "index_of ss = ucast (uint_flag ss ''index'' 0)"

definition cmdEthAddress :: "'k eth_lib \<Rightarrow> command" where
  "cmdEthAddress E H args a =
     (case parse_args address_flags args of
        Inl n \<Rightarrow> (Exited n, a)
      | Inr (ss, pos) \<Rightarrow>
          (case loadMnemonic H (OpenDir (h_environ H) (str_flag ss ''dir'' ''''))
                  (str_flag ss ''name'' ethDefaultName) a of
             (Inl e, a1) \<Rightarrow> (Failed e, a1)
           | (Inr mnemonic, a1) \<Rightarrow>
               (case DeriveAddress E mnemonic (index_of ss) of
                  Inl e \<Rightarrow> (Failed (from_eth e), a1)
                | Inr addr \<Rightarrow> (Returned, say [Text addr] a1))))"

definition show_flags :: flag_set where
  "show_flags = [(''dir'', StringFlag), (''name'', StringFlag), (''reveal-mnemonic'', BoolFlag), (''index'', UintFlag)]"

definition cmdEthShow :: "'k eth_lib \<Rightarrow> command" where
  "cmdEthShow E H args a =
     (case parse_args show_flags args of
        Inl n \<Rightarrow> (Exited n, a)
      | Inr (ss, pos) \<Rightarrow>
          (let dir = OpenDir (h_environ H) (str_flag ss ''dir'' ''''); name = str_flag ss ''name'' ethDefaultName;
               reveal = bool_flag ss ''reveal-mnemonic''
           in if reveal \<and> \<not> h_stdout_tty H then (Exited 1, a)
              else
                (case vault_load H dir a of
                   None \<Rightarrow> (Failed VaultUnreadable, a)
                 | Some v \<Rightarrow>
                     (case Get v name of
                        None \<Rightarrow> (Failed (NotFound name), a)
                      | Some entry \<Rightarrow>
                          (case loadMnemonic H dir name a of
                             (Inl e, a1) \<Rightarrow> (Failed e, a1)
                           | (Inr mnemonic, a1) \<Rightarrow>
                               (case DeriveAddress E mnemonic (index_of ss) of
                                  Inl e \<Rightarrow> (Failed (from_eth e), a1)
                                | Inr addr \<Rightarrow>
                                    (Returned,
                                     say ([Field ''Vault entry'' name, Field ''Set at'' (CreatedAt entry)] @
                                          (if Desc entry \<noteq> '''' then [Field ''Description'' (Desc entry)] else []) @
                                          [Field (''Address (idx '' @ nat_digits (unat (uint_flag ss ''index'' 0)) @ '')'') addr] @
                                          (if reveal then printWords mnemonic else [])) a1)))))))"

section \<open>alice eth list\<close>

definition eth_list_flags :: flag_set where
  "eth_list_flags = [(''dir'', StringFlag), (''include'', StringFlag), (''no-addr'', BoolFlag)]"

definition sortedVaultKeys :: "Vault \<Rightarrow> string list" where
  "sortedVaultKeys v = sort (map fst (Secrets v))"

definition wallets :: "Vault \<Rightarrow> string list \<Rightarrow> (string \<times> SecretEntry) list" where
  "wallets v incl =
     List.map_filter
       (\<lambda>name. case Get v name of
                 None \<Rightarrow> None
               | Some e \<Rightarrow> if Contains (Desc e) ''BIP-39 mnemonic'' \<or> name \<in> set incl then Some (name, e) else None)
       (sortedVaultKeys v)"

text \<open>The rows; a wallet whose address cannot be derived keeps its row. A panic ends the loop.\<close>

fun list_rows ::
  "'k eth_lib \<Rightarrow> host \<Rightarrow> string \<Rightarrow> bool \<Rightarrow> (string \<times> SecretEntry) list \<Rightarrow> alice \<Rightarrow> (failure + out_line list) \<times> alice" where
  "list_rows E H dir noAddr [] a = (Inr [], a)"
| "list_rows E H dir noAddr ((name, e) # ws) a =
     (if noAddr then
        (case list_rows E H dir noAddr ws a of
           (Inl x, a') \<Rightarrow> (Inl x, a')
         | (Inr rows, a') \<Rightarrow> (Inr (Wallet name (CreatedAt e) None # rows), a'))
      else
        (case loadMnemonic H dir name a of
           (r, a1) \<Rightarrow>
             (let addr = (case r of Inl x \<Rightarrow> (if x = Panic then Inl Panic else Inr None)
                          | Inr mnemonic \<Rightarrow>
                              (case DeriveAddress E mnemonic 0 of
                                 Inl EthPanic \<Rightarrow> Inl Panic
                               | Inl _ \<Rightarrow> Inr None
                               | Inr addr \<Rightarrow> Inr (Some addr)))
              in case addr of
                   Inl x \<Rightarrow> (Inl x, a1)
                 | Inr col \<Rightarrow>
                     (case list_rows E H dir noAddr ws a1 of
                        (Inl x, a') \<Rightarrow> (Inl x, a')
                      | (Inr rows, a') \<Rightarrow> (Inr (Wallet name (CreatedAt e) col # rows), a')))))"

definition cmdEthList :: "'k eth_lib \<Rightarrow> command" where
  "cmdEthList E H args a =
     (case parse_args eth_list_flags args of
        Inl n \<Rightarrow> (Exited n, a)
      | Inr (ss, pos) \<Rightarrow>
          (let dir = OpenDir (h_environ H) (str_flag ss ''dir'' '''');
               incl = map snd (filter (\<lambda>(n, v). n = ''include'') ss)
           in case vault_load H dir a of
                None \<Rightarrow> (Failed VaultUnreadable, a)
              | Some v \<Rightarrow>
                  if wallets v incl = [] then (Returned, a)
                  else
                    (case list_rows E H dir (bool_flag ss ''no-addr'') (wallets v incl) a of
                       (Inl x, a1) \<Rightarrow> (Failed x, a1)
                     | (Inr rows, a1) \<Rightarrow> (Returned, say rows a1))))"

section \<open>alice eth\<close>

definition cmdEth :: "'k eth_lib \<Rightarrow> command" where
  "cmdEth E H args a =
     (case args of
        [] \<Rightarrow> (Failed Usage, a)
      | sub # rest \<Rightarrow>
          if sub = ''new'' then cmdEthNew E H rest a
          else if sub = ''address'' then cmdEthAddress E H rest a
          else if sub = ''show'' then cmdEthShow E H rest a
          else if sub = ''import'' then cmdEthImport E H rest a
          else if sub \<in> set [''list'', ''ls''] then cmdEthList E H rest a
          else if sub \<in> set [''-h'', ''--help'', ''help''] then (Failed Usage, a)
          else (Failed (UnknownSubcommand sub), a))"

end
