(* ===== verification/Lint.thy ===== *)
theory Lint
  imports Aclrules
begin

text \<open>
  The linter of the rules file (\<open>internal/aclrules/lint.go\<close>) and the exit status of
  \<open>alice allowlist-check\<close> (\<open>cmd/alice/allowlist.go\<close>).
\<close>

section \<open>Findings\<close>

datatype Severity = SeverityDanger | SeverityWarning | SeverityInfo

text \<open>Severities are ordered by how much they matter.\<close>

instantiation Severity :: linorder
begin

fun severity_rank :: "Severity \<Rightarrow> nat" where
  "severity_rank SeverityInfo = 0"
| "severity_rank SeverityWarning = 1"
| "severity_rank SeverityDanger = 2"

definition less_eq_Severity :: "Severity \<Rightarrow> Severity \<Rightarrow> bool" where
  "less_eq_Severity a b \<longleftrightarrow> severity_rank a \<le> severity_rank b"

definition less_Severity :: "Severity \<Rightarrow> Severity \<Rightarrow> bool" where
  "less_Severity a b \<longleftrightarrow> severity_rank a < severity_rank b"

instance
proof
  fix a b c :: Severity
  show "a < b \<longleftrightarrow> a \<le> b \<and> \<not> b \<le> a" by (auto simp: less_eq_Severity_def less_Severity_def)
  show "a \<le> a" by (simp add: less_eq_Severity_def)
  show "a \<le> b \<Longrightarrow> b \<le> c \<Longrightarrow> a \<le> c" by (simp add: less_eq_Severity_def)
  show "a \<le> b \<Longrightarrow> b \<le> a \<Longrightarrow> a = b" by (cases a; cases b) (simp_all add: less_eq_Severity_def)
  show "a \<le> b \<or> b \<le> a" by (auto simp: less_eq_Severity_def)
qed

end

record Finding =
  F_ID :: string
  F_Severity :: Severity
  F_LineNo :: nat
  F_Rule :: string

definition finding :: "string \<Rightarrow> Severity \<Rightarrow> Rule \<Rightarrow> Finding" where
  "finding ident sev r = \<lparr>F_ID = ident, F_Severity = sev, F_LineNo = LineNo r, F_Rule = Raw r\<rparr>"

section \<open>The checks\<close>

definition trivialMatchSentinelsNonEmpty :: "string list" where
  "trivialMatchSentinelsNonEmpty =
     [''/'', ''/bin/sh'', ''../../etc/passwd'', ''a'', ''some random string'']"

definition trivialMatchSentinelsAll :: "string list" where
  "trivialMatchSentinelsAll = '''' # trivialMatchSentinelsNonEmpty"

definition lintTrivialMatch :: "Rule \<Rightarrow> Finding option" where
  "lintTrivialMatch r =
     (if list_all (MatchString (Regex r)) trivialMatchSentinelsAll
      then Some (finding ''trivial-match'' SeverityDanger r)
      else if \<not> list_all (MatchString (Regex r)) trivialMatchSentinelsNonEmpty then None
      else if MatchString (Regex r) ''/bin/echo hello'' \<and> MatchString (Regex r) ''curl https://example.com''
      then Some (finding ''trivial-match'' SeverityDanger r)
      else None)"

definition scriptHosts :: "string list" where
  "scriptHosts =
     [''/bin/sh'', ''/bin/bash'', ''/bin/zsh'', ''/bin/dash'', ''/bin/ksh'', ''/usr/bin/python'',
      ''/usr/bin/python3'', ''/opt/homebrew/bin/python3'', ''/usr/bin/perl'', ''/opt/homebrew/bin/perl'',
      ''/usr/bin/awk'', ''/usr/bin/gawk'', ''/opt/homebrew/bin/awk'']"

definition jqHosts :: "string list" where
  "jqHosts = [''/usr/bin/jq'', ''/opt/homebrew/bin/jq'']"

definition script_probes :: "string \<Rightarrow> string list" where
  "script_probes host =
     [host @ '' -c x'', host @ '' -c '' @ [SQ] @ ''echo evil'' @ [SQ], host @ '' -c any-thing-here'']"

definition jq_probes :: "string \<Rightarrow> string list" where
  "jq_probes host =
     [host @ '' -r .'', host @ '' -r '' @ [SQ] @ ''.foo'' @ [SQ], host @ '' -r any-expression'']"

definition lintScriptHost :: "Rule \<Rightarrow> Finding option" where
  "lintScriptHost r =
     (if list_ex (\<lambda>h. list_all (MatchString (Regex r)) (script_probes h)) scriptHosts \<or>
         list_ex (\<lambda>h. list_all (MatchString (Regex r)) (jq_probes h)) jqHosts
      then Some (finding ''script-host'' SeverityDanger r)
      else None)"

definition lintEnvWildcard :: "Rule \<Rightarrow> Finding option" where
  "lintEnvWildcard r = (if \<not> EnvAny r then None else Some (finding ''env-wildcard'' SeverityWarning r))"

text \<open>Looking for a slash at most 30 bytes away, up to a byte that ends the component.\<close>

fun slash_within :: "nat \<Rightarrow> char list \<Rightarrow> string \<Rightarrow> bool" where
  "slash_within 0 stops s = False"
| "slash_within (Suc n) stops [] = False"
| "slash_within (Suc n) stops (c # s) =
     (if c = CHR ''/'' then True else if c \<in> set stops then False else slash_within n stops s)"

definition unescaped_dot_at :: "string \<Rightarrow> nat \<Rightarrow> bool" where
  "unescaped_dot_at s i \<longleftrightarrow>
     s ! i = CHR ''.'' \<and> \<not> (0 < i \<and> s ! (i - 1) = BSL) \<and>
     slash_within 30 ['' '' ! 0, TAB] (rev (take i s)) \<and>
     slash_within 30 ['' '' ! 0, TAB, CHR ''$''] (drop (Suc i) s)"

definition lintUnescapedDot :: "Rule \<Rightarrow> Finding option" where
  "lintUnescapedDot r =
     (let regexCol = (case IndexByte (Raw r) TAB of None \<Rightarrow> Raw r | Some i \<Rightarrow> take i (Raw r)) in
      if list_ex (unescaped_dot_at regexCol) [0..<length regexCol]
      then Some (finding ''unescaped-dot'' SeverityWarning r)
      else None)"

definition lintNoLabel :: "Rule \<Rightarrow> Finding option" where
  "lintNoLabel r = (if Label r \<noteq> '''' then None else Some (finding ''no-label'' SeverityInfo r))"

definition lintChecks :: "(Rule \<Rightarrow> Finding option) list" where
  "lintChecks = [lintTrivialMatch, lintScriptHost, lintEnvWildcard, lintUnescapedDot, lintNoLabel]"

definition Lint :: "Rule list \<Rightarrow> Finding list" where
  "Lint rules = concat (map (\<lambda>r. List.map_filter (\<lambda>check. check r) lintChecks) rules)"

section \<open>The exit status of allowlist-check\<close>

definition allowlist_status :: "bool \<Rightarrow> rule_error list \<Rightarrow> Finding list \<Rightarrow> nat" where
  "allowlist_status strict parseErrs findings =
     (if parseErrs \<noteq> [] \<or> (\<exists>f \<in> set findings. F_Severity f = SeverityDanger) then 1
      else if strict \<and> (\<exists>f \<in> set findings. F_Severity f = SeverityWarning) then 2
      else 0)"

text \<open>\<open>None\<close> when the file cannot be opened.\<close>

definition allowlist_check :: "compiler \<Rightarrow> bool \<Rightarrow> file_bytes \<Rightarrow> nat option" where
  "allowlist_check compile strict f =
     (case f of
        Content s \<Rightarrow>
          (case Parse compile s of (rules, errs) \<Rightarrow> Some (allowlist_status strict errs (Lint rules)))
      | _ \<Rightarrow> None)"

section \<open>What the linter sees\<close>

lemma Lint_append: "Lint (xs @ ys) = Lint xs @ Lint ys"
  by (simp add: Lint_def)

lemma Lint_mem: "f \<in> set (Lint rules) \<longleftrightarrow> (\<exists>r \<in> set rules. \<exists>check \<in> set lintChecks. check r = Some f)"
proof -
  have m: "f \<in> set (List.map_filter g xs) \<longleftrightarrow> (\<exists>x \<in> set xs. g x = Some f)" for g :: "(Rule \<Rightarrow> Finding option) \<Rightarrow> Finding option" and xs
    by (induction xs) (auto simp: map_filter_simps split: option.splits)
  show ?thesis unfolding Lint_def set_concat set_map by (simp add: m)
qed

lemma Lint_single_Nil: "Lint [r] = [] \<longleftrightarrow> (\<forall>check \<in> set lintChecks. check r = None)"
proof -
  have m: "List.map_filter g xs = [] \<longleftrightarrow> (\<forall>x \<in> set xs. g x = None)" for g :: "(Rule \<Rightarrow> Finding option) \<Rightarrow> Finding option" and xs
    by (induction xs) (auto simp: map_filter_simps split: option.splits)
  show ?thesis by (simp add: Lint_def m)
qed

lemma single_string_not_trivial:
  assumes "\<And>t. MatchString (Regex r) t \<longleftrightarrow> t = c"
  shows "lintTrivialMatch r = None"
proof -
  have "\<not> (MatchString (Regex r) ''/'' \<and> MatchString (Regex r) ''a'')" unfolding assms by auto
  then have "\<not> list_all (MatchString (Regex r)) trivialMatchSentinelsNonEmpty"
    by (auto simp: trivialMatchSentinelsNonEmpty_def)
  then show ?thesis by (simp add: lintTrivialMatch_def trivialMatchSentinelsAll_def)
qed

lemma single_string_not_host:
  assumes "\<And>t. MatchString (Regex r) t \<longleftrightarrow> t = c"
  shows "lintScriptHost r = None"
proof -
  have "\<not> list_all (MatchString (Regex r)) (script_probes h)" for h
  proof
    assume "list_all (MatchString (Regex r)) (script_probes h)"
    then have "h @ '' -c x'' = c" "h @ '' -c any-thing-here'' = c"
      by (simp_all only: script_probes_def list.pred_inject assms)
    then have "h @ '' -c x'' = h @ '' -c any-thing-here''" by simp
    then show False by simp
  qed
  moreover have "\<not> list_all (MatchString (Regex r)) (jq_probes h)" for h
  proof
    assume "list_all (MatchString (Regex r)) (jq_probes h)"
    then have "h @ '' -r .'' = c" "h @ '' -r any-expression'' = c"
      by (simp_all only: jq_probes_def list.pred_inject assms)
    then have "h @ '' -r .'' = h @ '' -r any-expression''" by simp
    then show False by simp
  qed
  ultimately show ?thesis by (simp add: lintScriptHost_def list_ex_iff)
qed

text \<open>In an escaped expression every dot follows a backslash.\<close>

definition dots_escaped :: "string \<Rightarrow> bool" where
  "dots_escaped s \<longleftrightarrow> (\<forall>i < length s. s ! i = CHR ''.'' \<longrightarrow> 0 < i \<and> s ! (i - 1) = BSL)"

lemma dots_escaped_append: "dots_escaped a \<Longrightarrow> dots_escaped b \<Longrightarrow> dots_escaped (a @ b)"
  unfolding dots_escaped_def
proof (intro allI impI)
  fix i
  assume a: "\<forall>i < length a. a ! i = CHR ''.'' \<longrightarrow> 0 < i \<and> a ! (i - 1) = BSL"
    and b: "\<forall>i < length b. b ! i = CHR ''.'' \<longrightarrow> 0 < i \<and> b ! (i - 1) = BSL"
    and i: "i < length (a @ b)" "(a @ b) ! i = CHR ''.''"
  show "0 < i \<and> (a @ b) ! (i - 1) = BSL"
  proof (cases "i < length a")
    case True
    with a i(2) show ?thesis by (auto simp: nth_append)
  next
    case False
    with i have "b ! (i - length a) = CHR ''.''" "i - length a < length b" by (auto simp: nth_append)
    with b have "0 < i - length a" "b ! (i - length a - 1) = BSL" by blast+
    with False show ?thesis by (auto simp: nth_append diff_commute)
  qed
qed

lemma dots_escaped_other: "CHR ''.'' \<notin> set s \<Longrightarrow> dots_escaped s"
  by (auto simp: dots_escaped_def dest: nth_mem)

lemma dots_escaped_quoteBody: "dots_escaped (quoteBody s)"
proof -
  have q: "dots_escaped (quote_rx c)" for c
  proof (cases "c = CHR ''.''")
    case True
    then have "quote_rx c = [BSL, CHR ''.'']" by (simp add: quote_rx_def metachars_def)
    then show ?thesis by (simp add: dots_escaped_def nth_Cons split: nat.splits)
  qed (auto simp: quote_rx_def intro: dots_escaped_other)
  show ?thesis unfolding quoteBody_map
    by (induction s) (auto intro: dots_escaped_append q dots_escaped_other)
qed

lemma literal_regex_column:
  "(case IndexByte (LiteralRule cmd args es label) TAB of None \<Rightarrow> LiteralRule cmd args es label
     | Some i \<Rightarrow> take i (LiteralRule cmd args es label)) = ''^'' @ quoteBody (Canonicalize cmd args) @ ''$''"
proof -
  let ?b = "''^'' @ quoteBody (Canonicalize cmd args) @ ''$''"
  have t: "TAB \<notin> set ?b" using quoteBody_clean by simp
  consider "LiteralRule cmd args es label = ?b" | rest where "LiteralRule cmd args es label = ?b @ TAB # rest"
  proof (cases "sort es = [] \<and> label = []")
    case True
    then show thesis by (intro that(1)) (simp add: LiteralRule_def Let_def)
  next
    case False
    then show thesis by (cases "label = []") (auto simp: LiteralRule_def Let_def intro: that(2))
  qed
  then show ?thesis
  proof cases
    case 1
    have "IndexByte ?b TAB = None" using t IndexByte_None by blast
    with 1 show ?thesis by (simp only: option.case)
  next
    case 2
    then show ?thesis unfolding 2 IndexByte_append [OF t] by (simp only: option.case append_eq_conv_conj take_append) simp
  qed
qed

section \<open>Properties\<close>

text \<open>The linter has nothing against a blessed rule: for the line that the auto-bless prompt
  writes, with a label that is not blank, no check reports a finding.\<close>

theorem blessed_rules_lint_clean:
  assumes "compiles_quoted compile" and "is_ascii (Canonicalize cmd args)"
    and "\<forall>e \<in> set es. MatchString envNameRE e" and "TAB \<notin> set label" and "TrimSpace label \<noteq> []"
    and "parseLine compile (LiteralRule cmd args es label) n = Inr r"
  shows "Lint [r] = []"
proof -
  have names: "\<forall>e \<in> set es. env_name e" using assms(3) by (simp add: envNameRE_iff)
  obtain rx where r: "r = \<lparr>Regex = rx, EnvAllow = sort es, EnvAny = False, Label = TrimSpace label,
      Scope = [''cli''], LineNo = n, Raw = LiteralRule cmd args es label\<rparr>"
    and m: "\<And>t. MatchString rx t \<longleftrightarrow> t = Canonicalize cmd args"
    using parseLine_LiteralRule [OF assms(1,2) names assms(4), where n = n] assms(6) by (metis sum.inject(2))
  have "dots_escaped (''^'' @ quoteBody (Canonicalize cmd args) @ ''$'')"
    by (intro dots_escaped_append dots_escaped_quoteBody dots_escaped_other) simp_all
  then have "lintUnescapedDot r = None"
    unfolding lintUnescapedDot_def r Rule.simps literal_regex_column Let_def
    by (auto simp: unescaped_dot_at_def dots_escaped_def list_ex_iff simp del: append.simps)
  moreover have "lintTrivialMatch r = None" "lintScriptHost r = None"
    by (rule single_string_not_trivial [where c = "Canonicalize cmd args"] single_string_not_host [where c = "Canonicalize cmd args"];
        simp add: r m)+
  moreover have "lintEnvWildcard r = None" "lintNoLabel r = None"
    using assms(5) by (simp_all add: r lintEnvWildcard_def lintNoLabel_def)
  ultimately show ?thesis by (simp add: Lint_single_Nil lintChecks_def)
qed

text \<open>A rule that lets everything through is never silent: if some rule of a file matches every
  non-empty command line, \<open>allowlist-check\<close> fails with status 1, whatever else the file
  holds and whether or not warnings count.\<close>

theorem open_rule_fails_the_check:
  assumes "Parse compile s = (rules, errs)" and "r \<in> set rules"
    and "\<And>t. t \<noteq> [] \<Longrightarrow> MatchString (Regex r) t"
  shows "allowlist_check compile strict (Content s) = Some 1"
proof -
  have n: "list_all (MatchString (Regex r)) trivialMatchSentinelsNonEmpty"
    by (simp add: trivialMatchSentinelsNonEmpty_def assms(3))
  then have "lintTrivialMatch r = Some (finding ''trivial-match'' SeverityDanger r)"
    by (simp add: lintTrivialMatch_def assms(3))
  then have "finding ''trivial-match'' SeverityDanger r \<in> set (Lint rules)"
    unfolding Lint_mem using assms(2) by (auto simp: lintChecks_def intro!: bexI [of _ r])
  then have "\<exists>f \<in> set (Lint rules). F_Severity f = SeverityDanger"
    by (intro bexI) (simp_all add: finding_def)
  with assms(1) show ?thesis by (simp add: allowlist_check_def allowlist_status_def)
qed

theorem open_rule_fails_the_check_witness:
  "allowlist_check (\<lambda>p. if p = ''^(?:.*)$'' then Some (Star anyc) else None) False (Content (''.*'' @ [LF])) = Some 1"
proof -
  let ?c = "\<lambda>p. if p = ''^(?:.*)$'' then Some (Star anyc) else None"
  let ?r = "\<lparr>Regex = Star anyc, EnvAllow = [], EnvAny = False, Label = '''', Scope = [''cli''], LineNo = 1, Raw = ''.*''\<rparr>"
  have "scan_lines (''.*'' @ [LF]) = ([dropCR ''.*''], False)" by (rule scan_one_line) code_simp+
  moreover have "dropCR ''.*'' = ''.*''" by code_simp
  moreover have "TrimSpace ''.*'' = ''.*''" "HasPrefix ''.*'' ''#'' = False" "Split ''.*'' TAB = [''.*'']" by code_simp+
  moreover have "parseEnvColumn '''' 1 = Inr ([], False)" "parseLabelColumn '''' 1 = Inr ''''"
    "parseScopeColumn '''' 1 = Inr [''cli'']" by code_simp+
  ultimately have p: "Parse ?c (''.*'' @ [LF]) = ([?r], [])"
    by (simp add: Parse_def parseLine_def Let_def field_at_def)
  have m: "MatchString (Regex ?r) t" for t
  proof -
    have "t = [] @ [] @ t \<and> spans (Regex ?r) (length []) [] t" by simp
    then show ?thesis unfolding MatchString_iff by blast
  qed
  show ?thesis by (rule open_rule_fails_the_check [OF p _ m]) simp
qed

theorem blessed_rules_lint_clean_witness:
  "\<exists>r. parseLine literal_compile (LiteralRule ''/a.b/c'' [] [] ''x'') 1 = Inr r \<and> Lint [r] = []"
proof -
  have a: "is_ascii (Canonicalize ''/a.b/c'' [])" and l: "TAB \<notin> set ''x''" "TrimSpace ''x'' \<noteq> []" by code_simp+
  obtain rx where r: "parseLine literal_compile (LiteralRule ''/a.b/c'' [] [] ''x'') 1 =
      Inr \<lparr>Regex = rx, EnvAllow = sort [], EnvAny = False, Label = TrimSpace ''x'',
           Scope = [''cli''], LineNo = 1, Raw = LiteralRule ''/a.b/c'' [] [] ''x''\<rparr>"
    using parseLine_LiteralRule [OF literal_compile_ok a _ l(1), where es = "[]" and n = 1] by auto
  from blessed_rules_lint_clean [OF literal_compile_ok a _ l r] r show ?thesis by auto
qed

end
