(* ===== verification/Rules_Migrate.thy ===== *)
theory Rules_Migrate
  imports Aclrules
begin

text \<open>
  The one-shot conversion of a version 2 allowlist (\<open>internal/aclrules/migrate.go\<close>):
  literal rules for the entries of the JSON file, written atomically, and the original
  renamed. The strict decoding of the JSON file is the parameter \<open>decode\<close>.
\<close>

record LegacyEntry =
  Legacy_Label :: string
  Legacy_Cmd :: string
  Legacy_Args :: "string list"
  Legacy_Env :: "string list"

definition migrated_header :: "string list" where
  "migrated_header =
     [''# AnB exec-allowlist rules (migrated from v2.x exec-allowlist.json).'',
      ''# Original kept as exec-allowlist.json.bak.'',
      ''# One rule per line: <regex>'' @ [BSL] @ ''t<env-csv>'' @ [BSL] @ ''t#<label>. Implicit ^...$ anchor.'',
      '''']"

definition legacy_label :: "LegacyEntry \<Rightarrow> string" where
  "legacy_label e = (if Legacy_Label e = '''' then ''migrated'' else Legacy_Label e)"

definition legacy_line :: "LegacyEntry \<Rightarrow> string" where
  "legacy_line e = LiteralRule (Legacy_Cmd e) (Legacy_Args e) (Legacy_Env e) (legacy_label e)"

definition migrated_text :: "LegacyEntry list \<Rightarrow> string" where
  "migrated_text allow = concat (map (\<lambda>l. l @ [LF]) (migrated_header @ map legacy_line allow))"

datatype migrate_result = NothingToDo | Migrated nat | ReadError | ParseError | WriteError | RenameError

text \<open>The file system calls that can fail: the write of the temporary file, which may leave a
  part of it, and the two renames.\<close>

datatype migrate_fault = AllWell | TmpFails nat | FirstRenameFails | SecondRenameFails

definition MigrateLegacy ::
  "(bytes \<Rightarrow> LegacyEntry list option) \<Rightarrow> migrate_fault \<Rightarrow> string \<Rightarrow> disk \<Rightarrow> migrate_result \<times> disk" where
  "MigrateLegacy decode fault dir d =
     (let rulesPath = FilepathJoin [dir, ''exec-allowlist.rules''];
          jsonPath = FilepathJoin [dir, ''exec-allowlist.json''];
          bakPath = jsonPath @ ''.bak'';
          tmpPath = rulesPath @ ''.tmp''
      in if d rulesPath \<noteq> Missing then (NothingToDo, d)
         else
           (case d jsonPath of
              Missing \<Rightarrow> (NothingToDo, d)
            | Unopenable \<Rightarrow> (ReadError, d)
            | Content body \<Rightarrow>
                (case decode body of
                   None \<Rightarrow> (ParseError, d)
                 | Some allow \<Rightarrow>
                     (let text = migrated_text allow;
                          d1 = d(tmpPath := Content text);
                          d2 = d1(rulesPath := Content text, tmpPath := Missing);
                          d3 = d2(bakPath := Content body, jsonPath := Missing)
                      in case fault of
                           TmpFails n \<Rightarrow> (WriteError, d(tmpPath := Content (take n text)))
                         | FirstRenameFails \<Rightarrow> (RenameError, d1)
                         | SecondRenameFails \<Rightarrow> (RenameError, d2)
                         | AllWell \<Rightarrow> (Migrated (length allow), d3)))))"

section \<open>Loading the migrated rules\<close>

text \<open>An entry whose parts survive in a line of the rules file.\<close>

definition clean_entry :: "LegacyEntry \<Rightarrow> bool" where
  "clean_entry e \<longleftrightarrow> is_ascii (Canonicalize (Legacy_Cmd e) (Legacy_Args e)) \<and>
     (\<forall>n \<in> set (Legacy_Env e). MatchString envNameRE n) \<and>
     list_all (\<lambda>c. c \<noteq> TAB \<and> c \<noteq> LF \<and> c \<noteq> CR) (Legacy_Label e) \<and> length (legacy_line e) < scanBufSize"

lemma clean_entry_line:
  assumes "clean_entry e"
  shows "legacy_line e \<noteq> []" "hd (legacy_line e) = CHR ''^''" "LF \<notin> set (legacy_line e)"
    "CR \<notin> set (legacy_line e)" "length (legacy_line e) < scanBufSize" "TAB \<notin> set (legacy_label e)"
proof -
  have l: "TAB \<notin> set (legacy_label e)" "LF \<notin> set (legacy_label e)" "CR \<notin> set (legacy_label e)"
    using assms by (auto simp: clean_entry_def legacy_label_def list_all_iff)
  have n: "\<forall>n \<in> set (Legacy_Env e). env_name n"
    using assms by (simp add: clean_entry_def envNameRE_iff)
  from LiteralRule_line [OF n l(2,3), of "Legacy_Cmd e" "Legacy_Args e"]
  show "legacy_line e \<noteq> []" "hd (legacy_line e) = CHR ''^''" "LF \<notin> set (legacy_line e)" "CR \<notin> set (legacy_line e)"
    by (simp_all add: legacy_line_def)
  show "length (legacy_line e) < scanBufSize" using assms by (simp add: clean_entry_def)
  show "TAB \<notin> set (legacy_label e)" by (rule l(1))
qed

text \<open>The rule of an entry admits exactly its invocation.\<close>

definition rule_of :: "LegacyEntry \<Rightarrow> Rule \<Rightarrow> bool" where
  "rule_of e r \<longleftrightarrow> Scope r = [''cli''] \<and>
     (\<forall>cmd args ks. Matches r (Canonicalize cmd args) ks \<longleftrightarrow>
        cmd = Legacy_Cmd e \<and> args = Legacy_Args e \<and> set ks \<subseteq> set (Legacy_Env e))"

lemma load_legacy_line:
  assumes "LoadFile compile (Content s) = Inr rules" and "ends_line s" and "clean_entry e"
    and "compiles_quoted compile"
  shows "\<exists>r. LoadFile compile (Content (s @ legacy_line e @ [LF])) = Inr (rules @ [r]) \<and> rule_of e r"
proof -
  note c = clean_entry_line [OF assms(3)]
  have a: "is_ascii (Canonicalize (Legacy_Cmd e) (Legacy_Args e))" and n: "\<forall>n \<in> set (Legacy_Env e). env_name n"
    using assms(3) by (simp_all add: clean_entry_def envNameRE_iff)
  obtain rx where r: "parseLine compile (legacy_line e) (Suc (line_count s)) =
      Inr \<lparr>Regex = rx, EnvAllow = sort (Legacy_Env e), EnvAny = False, Label = TrimSpace (legacy_label e),
           Scope = [''cli''], LineNo = Suc (line_count s), Raw = legacy_line e\<rparr>" (is "_ = Inr ?r")
    and rx: "\<And>t. MatchString rx t \<longleftrightarrow> t = Canonicalize (Legacy_Cmd e) (Legacy_Args e)"
    unfolding legacy_line_def
    by (rule parseLine_LiteralRule [OF assms(4) a n c(6), where n = "Suc (line_count s)"]) (rule that [unfolded legacy_line_def])
  have t: "\<not> isTrivialMatchEverything (Regex ?r)" using literal_not_trivial [OF rx] by simp
  have g: "graph (hd (legacy_line e))" "hd (legacy_line e) \<noteq> CHR ''#''"
    unfolding c(2) by (simp_all add: graph_def)
  have "rule_of e ?r"
    unfolding rule_of_def using literal_rule_matches [of ?r "Legacy_Cmd e" "Legacy_Args e" "Legacy_Env e"] rx by simp
  with LoadFile_append_line [OF assms(1,2) c(3,4,5) g(1) c(1) g(2) r t] show ?thesis by blast
qed

lemma load_legacy_lines:
  assumes "LoadFile compile (Content s) = Inr rules" and "ends_line s" and "\<forall>e \<in> set allow. clean_entry e"
    and "compiles_quoted compile"
  shows "\<exists>rs. LoadFile compile (Content (s @ concat (map (\<lambda>e. legacy_line e @ [LF]) allow))) = Inr (rules @ rs) \<and>
    list_all2 rule_of allow rs"
  using assms(1,2,3)
proof (induction allow arbitrary: s rules)
  case (Cons e allow)
  from Cons.prems(3) have "clean_entry e" and cl: "\<forall>e \<in> set allow. clean_entry e" by simp_all
  from load_legacy_line [OF Cons.prems(1,2) this(1) assms(4)] obtain r where
    r: "LoadFile compile (Content (s @ legacy_line e @ [LF])) = Inr (rules @ [r])" "rule_of e r" by blast
  have "ends_line (s @ legacy_line e @ [LF])" by (simp add: ends_line_def)
  from Cons.IH [OF r(1) this cl] r(2) show ?case by auto
qed simp

lemma migrated_loads:
  assumes "\<forall>e \<in> set allow. clean_entry e" and "compiles_quoted compile"
  shows "\<exists>rs. LoadFile compile (Content (migrated_text allow)) = Inr rs \<and> list_all2 rule_of allow rs"
proof -
  have "list_all comment_line migrated_header" by code_simp
  then have h: "\<forall>l \<in> set migrated_header. comment_line l" by (simp only: list_all_iff)
  let ?h = "concat (map (\<lambda>l. l @ [LF]) migrated_header)"
  have "LoadFile compile (Content ?h) = Inr []"
    using comment_lines_load [OF h, of compile 1] by (simp add: LoadFile_Inr)
  from load_legacy_lines [OF this ends_lines assms]
  show ?thesis by (simp add: migrated_text_def comp_def)
qed

abbreviation "rulesFile dir \<equiv> FilepathJoin [dir, ''exec-allowlist.rules'']"
abbreviation "jsonFile dir \<equiv> FilepathJoin [dir, ''exec-allowlist.json'']"

lemma migrate_names:
  "rulesFile dir = dir_prefix dir @ ''exec-allowlist.rules''" "jsonFile dir = dir_prefix dir @ ''exec-allowlist.json''"
  by (simp_all add: FilepathJoin_name file_name_def)

lemma migrate_paths:
  "distinct [rulesFile dir, rulesFile dir @ ''.tmp'', jsonFile dir, jsonFile dir @ ''.bak'']"
  unfolding migrate_names by simp

section \<open>Properties\<close>


definition demo_legacy :: LegacyEntry where
  "demo_legacy = \<lparr>Legacy_Label = '''', Legacy_Cmd = ''/b'', Legacy_Args = [''x''], Legacy_Env = [''K'']\<rparr>"


text \<open>C28: Whatever call of the migration fails, the rules file is afterwards what it was or complete,
  and the entries of the old file are still on the disk, under the old name or as the
  backup; a directory with a rules file is left alone.\<close>

theorem migration_loses_nothing:
  assumes "MigrateLegacy decode fault dir d = (res, d')"
  shows "(d' (rulesFile dir) = d (rulesFile dir) \<or>
      (\<exists>body allow. d (jsonFile dir) = Content body \<and> decode body = Some allow \<and>
         d (rulesFile dir) = Missing \<and> d' (rulesFile dir) = Content (migrated_text allow))) \<and>
    (d' (jsonFile dir) = d (jsonFile dir) \<or>
      d' (jsonFile dir @ ''.bak'') = d (jsonFile dir) \<and> d' (rulesFile dir) \<noteq> Missing) \<and>
    (d (rulesFile dir) \<noteq> Missing \<longrightarrow> d' = d)"
proof (cases "d (rulesFile dir) \<noteq> Missing \<or> (\<forall>body. d (jsonFile dir) \<noteq> Content body) \<or>
    (\<exists>body. d (jsonFile dir) = Content body \<and> decode body = None)")
  case True
  then have "d' = d" using assms by (auto simp: MigrateLegacy_def Let_def split: file_bytes.splits if_splits)
  then show ?thesis by simp
next
  case False
  then obtain body allow where b: "d (rulesFile dir) = Missing" "d (jsonFile dir) = Content body" "decode body = Some allow"
    by auto
  note p = migrate_paths [of dir]
  from p have n: "rulesFile dir \<noteq> rulesFile dir @ ''.tmp''" "jsonFile dir \<noteq> rulesFile dir @ ''.tmp''"
    "rulesFile dir \<noteq> jsonFile dir" "rulesFile dir \<noteq> jsonFile dir @ ''.bak''" "jsonFile dir \<noteq> jsonFile dir @ ''.bak''"
    "jsonFile dir @ ''.bak'' \<noteq> rulesFile dir @ ''.tmp''" by auto
  show ?thesis
    using assms unfolding MigrateLegacy_def Let_def
    by (cases fault) (use b n in auto)
qed

theorem migration_loses_nothing_witness:
  "\<exists>res d'. MigrateLegacy (\<lambda>b. Some []) SecondRenameFails ''/d''
       (\<lambda>p. if p = ''/d/exec-allowlist.json'' then Content ''{}'' else Missing) = (res, d') \<and>
     res = RenameError \<and> d' (jsonFile ''/d'') = Content ''{}''"
proof -
  let ?d = "\<lambda>p. if p = ''/d/exec-allowlist.json'' then Content ''{}'' else Missing"
  obtain res d' where m: "MigrateLegacy (\<lambda>b. Some []) SecondRenameFails ''/d'' ?d = (res, d')" by (metis surj_pair)
  have j: "jsonFile ''/d'' = ''/d/exec-allowlist.json''" by code_simp
  have "fst (MigrateLegacy (\<lambda>b. Some []) SecondRenameFails ''/d'' ?d) = RenameError"
    "snd (MigrateLegacy (\<lambda>b. Some []) SecondRenameFails ''/d'' ?d) (jsonFile ''/d'' @ ''.bak'') = Missing" by code_simp+
  with m have r: "res = RenameError" "d' (jsonFile ''/d'' @ ''.bak'') = Missing" by simp_all
  from migration_loses_nothing [OF m] r(2) have "d' (jsonFile ''/d'') = ?d (jsonFile ''/d'')" by (auto simp: j)
  with m r(1) show ?thesis by (simp add: j)
qed

end
