(* ===== verification/Version.thy ===== *)
theory Version
  imports Prelude
begin

text \<open>
  The version banner of both programs (\<open>internal/version/version.go\<close>).
\<close>

section \<open>The version banner\<close>

text \<open>What \<open>debug.ReadBuildInfo\<close> returns: the module version and the build settings.\<close>

record build_stamp =
  bs_main :: string
  bs_settings :: "(string \<times> string) list"

record runtime_info =
  rt_version :: string
  rt_os :: string
  rt_arch :: string

record buildInfo =
  BI_Version :: string
  BI_Revision :: string
  BI_Modified :: bool
  BI_GoVer :: string
  BI_OS :: string
  BI_Arch :: string

fun apply_setting :: "string \<times> string \<Rightarrow> buildInfo \<Rightarrow> buildInfo" where
  "apply_setting (k, v) bi =
     (if k = ''vcs.revision'' then bi\<lparr>BI_Revision := v\<rparr>
      else if k = ''vcs.modified'' then bi\<lparr>BI_Modified := (v = ''true'')\<rparr>
      else bi)"

definition readBuildInfo :: "runtime_info \<Rightarrow> build_stamp option \<Rightarrow> buildInfo" where
  "readBuildInfo rt info =
     (let bi = \<lparr>BI_Version = ''(unknown)'', BI_Revision = '''', BI_Modified = False, BI_GoVer = rt_version rt,
                BI_OS = rt_os rt, BI_Arch = rt_arch rt\<rparr>
      in case info of
           None \<Rightarrow> bi
         | Some i \<Rightarrow>
             fold apply_setting (bs_settings i)
               (bi\<lparr>BI_Version := (if bs_main i \<noteq> '''' then bs_main i else ''(devel)'')\<rparr>))"

definition Tagline :: string where "Tagline = ''Keep your secrets hidden from AI agents.''"
definition URL :: string where "URL = ''https://github.com/kaka-milan-22/AnB''"

definition version_format :: "string \<Rightarrow> buildInfo \<Rightarrow> string" where
  "version_format tool bi =
     (let parts =
            (if BI_Revision bi \<noteq> ''''
             then [''commit '' @ take 12 (BI_Revision bi) @ (if BI_Modified bi then ''-dirty'' else '''')]
             else [])
            @ [''built with '' @ BI_GoVer bi, BI_OS bi @ ''/'' @ BI_Arch bi]
      in tool @ '' '' @ BI_Version bi @ '' ('' @ Join parts '', '' @ '')'' @ [LF, LF] @ Tagline @ [LF] @ URL)"

end
