(* ===== verification/Alice_Main.thy ===== *)
theory Alice_Main
  imports Alice_Files Alice_Admin Alice_Eth Lint Rules_Migrate Version
begin

text \<open>
  The program \<open>alice\<close> (\<open>cmd/alice/main.go\<close>): shell completion (\<open>cmd/alice/completion.go\<close>), the linter command (\<open>cmd/alice/allowlist.go\<close>), the
  table of commands and the exit status. The usage text is its exit status.
\<close>

section \<open>Completion\<close>

definition commandsForCompletion :: "string list" where
  "commandsForCompletion =
     [''read'', ''write'', ''has'', ''list'', ''status'', ''exec'',
      ''set'', ''get'', ''rm'', ''desc'', ''import'', ''gen'',
      ''init'', ''scan'', ''template'', ''shell'',
      ''rekey'', ''rekey-status'', ''backfill-meta'', ''audit'',
      ''enroll'', ''install-cert'', ''allowlist-check'', ''eth'',
      ''completion'']"

definition keyTakingCommands :: string where
  "keyTakingCommands = ''get|rm|desc|has''"

fun spaced :: "string list \<Rightarrow> string" where
  "spaced [] = ''''"
| "spaced [w] = w"
| "spaced (w # ws) = w @ '' '' @ spaced ws"

definition joinWords :: "string list \<Rightarrow> string" where
  "joinWords ws = spaced (sort ws)"

text \<open>Of the script, what is put into its two gaps: the commands and those that take a key.\<close>

definition cmdCompletion :: command where
  "cmdCompletion H args a =
     (case parse_args [] args of
        Inl n \<Rightarrow> (Exited n, a)
      | Inr (ss, pos) \<Rightarrow>
          (let shell = (if pos \<noteq> [] then hd pos else ''zsh'') in
           if shell = ''zsh'' \<or> shell = ''bash''
           then (Returned, say [Field shell (joinWords commandsForCompletion), Field ''keys'' keyTakingCommands] a)
           else (Failed (UnsupportedShell shell), a)))"

section \<open>alice allowlist-check\<close>

definition check_flags :: flag_set where
  "check_flags = [(''file'', StringFlag), (''strict'', BoolFlag), (''dir'', StringFlag)]"

definition rules_file :: "host \<Rightarrow> settings \<Rightarrow> string" where
  "rules_file H ss =
     (let path = str_flag ss ''file'' '''' in
      if path = '''' then FilepathJoin [OpenDir (h_environ H) (str_flag ss ''dir'' ''''), ''exec-allowlist.rules'']
      else path)"

text \<open>The flags end at the first argument that is none. Of the report, the number of rules and
  each finding with its line.\<close>

definition cmdAllowlistCheck :: command where
  "cmdAllowlistCheck H args a =
     (case FlagParse check_flags args of
        Inl n \<Rightarrow> (Exited n, a)
      | Inr (ss, pos) \<Rightarrow>
          (let f = a_disk a (rules_file H ss) in
           case allowlist_check (h_compile H) (bool_flag ss ''strict'') f of
             None \<Rightarrow> (Failed (FileNotFound (rules_file H ss)), a)
           | Some status \<Rightarrow>
               (case (case f of Content s \<Rightarrow> Parse (h_compile H) s | _ \<Rightarrow> ([], [])) of
                  (rules, errs) \<Rightarrow>
                    (if status = 0 then Returned else Exited status,
                     say (Total (length rules) # map (\<lambda>g. Issue (F_ID g) (F_Rule g) (int (F_LineNo g))) (Lint rules)) a))))"

section \<open>The commands\<close>

text \<open>What \<open>main\<close> reaches beyond the machine: the Ethereum and X.509 packages, the clock, the
  decoding of a version 2 allowlist with the faults of its migration, and the build stamp.\<close>

record 'k alice_env =
  ae_eth :: "'k eth_lib"
  ae_pki :: pki
  ae_now :: int
  ae_decode :: "bytes \<Rightarrow> LegacyEntry list option"
  ae_fault :: migrate_fault
  ae_runtime :: runtime_info
  ae_stamp :: "build_stamp option"

definition commands :: "'k alice_env \<Rightarrow> (string \<times> command) list" where
  "commands P =
     [(''read'', cmdRead), (''redact'', cmdRedact), (''write'', cmdWrite), (''has'', cmdHas),
      (''list'', cmdList), (''status'', cmdStatus), (''exec'', cmdExec),
      (''set'', cmdSet), (''get'', cmdGet), (''rm'', cmdRm), (''desc'', cmdDesc), (''import'', cmdImport),
      (''gen'', cmdGen),
      (''completion'', cmdCompletion), (''__complete-keys'', cmdCompleteKeys),
      (''init'', cmdInit), (''scan'', cmdScan), (''template'', cmdTemplate), (''shell'', cmdShell),
      (''rekey'', cmdRekey), (''rekey-status'', cmdRekeyStatus),
      (''backfill-meta'', cmdBackfillMeta), (''audit'', cmdAudit),
      (''enroll'', cmdEnroll), (''install-cert'', cmdInstallCert (ae_pki P) (ae_now P)),
      (''allowlist-check'', cmdAllowlistCheck),
      (''eth'', cmdEth (ae_eth P))]"

section \<open>The main function\<close>

text \<open>The directory whose allowlist is migrated; without \<open>HOME\<close> there is none.\<close>

definition migration_dir :: "string list \<Rightarrow> string" where
  "migration_dir environ =
     (let dir = Getenv environ ''ANB_ALICE_DIR''; home = Getenv environ ''HOME'' in
      if dir \<noteq> '''' then dir
      else if home \<noteq> '''' then FilepathJoin [home, ''.anb'', ''alice'']
      else '''')"

definition migrate_first :: "'k alice_env \<Rightarrow> host \<Rightarrow> alice \<Rightarrow> alice" where
  "migrate_first P H a =
     (let dir = migration_dir (h_environ H) in
      if dir = '''' then a
      else a\<lparr>a_disk := snd (MigrateLegacy (ae_decode P) (ae_fault P) dir (a_disk a))\<rparr>)"

text \<open>How an error is shown: not at all, as it is, or marked as a failure. Bob's own text reaches
  \<open>main\<close> unchanged.\<close>

datatype report = Silent | Plain | Marked

definition check_mark :: string where
  "check_mark = [CHR 0xE2, CHR 0x9C, CHR 0x93, CHR '' '']"

definition report_of :: "failure \<Rightarrow> report" where
  "report_of f =
     (case f of
        Declined \<Rightarrow> Silent
      | RuleAppended path \<Rightarrow> Plain
      | FromBob (OtherError s) \<Rightarrow> if HasPrefix s check_mark then Plain else Marked
      | _ \<Rightarrow> Marked)"

text \<open>The end of the process; a panic has status 2.\<close>

datatype process_end =
    Exit nat "report option"
  | Replaced string "string list" "string list"
  | Running

definition process_end :: "outcome \<Rightarrow> process_end" where
  "process_end x =
     (case x of
        Returned \<Rightarrow> Exit 0 None
      | Failed f \<Rightarrow> if f = Panic then Exit 2 None else Exit 1 (Some (report_of f))
      | Exited n \<Rightarrow> Exit n None
      | Execed path args env \<Rightarrow> Replaced path args env
      | NeverReturns \<Rightarrow> Running)"

definition alice_main :: "'k alice_env \<Rightarrow> host \<Rightarrow> string list \<Rightarrow> alice \<Rightarrow> process_end \<times> alice" where
  "alice_main P H argv a =
     (case argv of
        prog # name # args \<Rightarrow>
          if name \<in> set [''version'', ''--version'', ''-V'']
          then (Exit 0 None, say [Text (version_format ''alice'' (readBuildInfo (ae_runtime P) (ae_stamp P)))] a)
          else
            (let a1 = migrate_first P H a in
             case map_of (commands P) name of
               None \<Rightarrow> (Exit 2 None, a1)
             | Some cmd \<Rightarrow> (case cmd H args a1 of (x, a2) \<Rightarrow> (process_end x, a2)))
      | _ \<Rightarrow> (Exit 2 None, a))"

section \<open>Completion and dispatch\<close>

lemma spaced_Join: "spaced ws = Join ws '' ''"
  by (induction ws rule: spaced.induct) simp_all

lemma Split_joinWords:
  assumes "ws \<noteq> []" and "\<forall>w \<in> set ws. CHR '' '' \<notin> set w"
  shows "Split (joinWords ws) CHR '' '' = sort ws"
proof -
  have "sort ws \<noteq> []" using assms(1) by (metis set_empty set_sort)
  then show ?thesis unfolding joinWords_def spaced_Join by (rule Split_Join) (use assms(2) in simp)
qed

lemma completion_commands:
  "set commandsForCompletion = fst ` set (commands P) - {''redact'', ''__complete-keys''}"
proof -
  define names where "names = filter (\<lambda>n. n \<notin> {''redact'', ''__complete-keys''})
    [''read'', ''redact'', ''write'', ''has'', ''list'', ''status'', ''exec'', ''set'', ''get'', ''rm'', ''desc'', ''import'',
     ''gen'', ''completion'', ''__complete-keys'', ''init'', ''scan'', ''template'', ''shell'', ''rekey'', ''rekey-status'',
     ''backfill-meta'', ''audit'', ''enroll'', ''install-cert'', ''allowlist-check'', ''eth'']"
  have "fst ` set (commands P) - {''redact'', ''__complete-keys''} =
      set (filter (\<lambda>n. n \<notin> {''redact'', ''__complete-keys''}) (map fst (commands P)))" by auto
  also have "\<dots> = set names" unfolding commands_def names_def list.map fst_conv by (rule refl)
  also have "\<dots> = set commandsForCompletion"
  proof
    have "list_all (\<lambda>n. n \<in> set commandsForCompletion) names" unfolding names_def by code_simp
    then show "set names \<subseteq> set commandsForCompletion" by (auto simp: list_all_iff)
    have "list_all (\<lambda>n. n \<in> set names) commandsForCompletion" unfolding names_def by code_simp
    then show "set commandsForCompletion \<subseteq> set names" by (auto simp: list_all_iff)
  qed
  finally show ?thesis by (rule sym)
qed

text \<open>Every word the completion script offers is a command that \<open>main\<close> dispatches, and the
  keys it completes are taken by commands it offers; of the dispatched commands it leaves out
  the hidden helper and, by omission, \<open>redact\<close>.\<close>

theorem completion_offers_commands:
  "set (Split (joinWords commandsForCompletion) CHR '' '') = fst ` set (commands P) - {''redact'', ''__complete-keys''} \<and>
   set (Split keyTakingCommands CHR ''|'') \<subseteq> set (Split (joinWords commandsForCompletion) CHR '' '')"
proof -
  have "\<forall>w \<in> set commandsForCompletion. CHR '' '' \<notin> set w" by code_simp
  moreover have "commandsForCompletion \<noteq> []" by (simp add: commandsForCompletion_def)
  ultimately have "set (Split (joinWords commandsForCompletion) CHR '' '') = set commandsForCompletion"
    by (metis Split_joinWords set_sort)
  moreover have "set commandsForCompletion = fst ` set (commands P) - {''redact'', ''__complete-keys''}"
    by (rule completion_commands)
  moreover have "Split keyTakingCommands CHR ''|'' = [''get'', ''rm'', ''desc'', ''has'']" by code_simp
  moreover have "list_all (\<lambda>w. w \<in> set commandsForCompletion) [''get'', ''rm'', ''desc'', ''has'']" by code_simp
  ultimately show ?thesis by (auto simp: list_all_iff)
qed

end
