(* ===== verification/Wire.thy ===== *)
theory Wire
  imports Client
begin

text \<open>
  The wire between Alice and Bob (\<open>internal/proto\<close>): a request as the one line that
  \<open>Client.call\<close> sends (\<open>internal/client/client.go\<close>) and \<open>handleConn\<close> reads
  (\<open>internal/server/server.go\<close>), with what JSON does to the bytes of a string and the limit on
  the length of a line.
\<close>

section \<open>Strings in JSON\<close>

text \<open>\<open>encoding/json\<close> writes a string rune by rune; every byte that starts no valid encoding
  becomes U+FFFD.\<close>

function json_bytes :: "nat list \<Rightarrow> nat list" where
  "json_bytes bs =
     (if bs = [] then []
      else
        (case rune_of bs of
           (r, w) \<Rightarrow>
             (if r = 65533 \<and> w = 1 then [239, 191, 189] else take w bs) @ json_bytes (drop (max 1 w) bs)))"
  by pat_completeness auto
termination
  by (relation "measure length") auto

declare json_bytes.simps [simp del]

definition json_string :: "string \<Rightarrow> string" where
  "json_string s = map char_of (json_bytes (map of_char s))"

lemma rune_of_shape:
  assumes "rune_of bs = (r, w)" and "bs \<noteq> []" and "\<not> (r = 65533 \<and> w = 1)"
  shows "1 \<le> w \<and> w \<le> length bs \<and> rune_of (take w bs @ ts) = (r, w)"
  using assms
  by (cases bs rule: rune_of.cases) (auto split: if_splits list.splits)

lemma json_bytes_Nil [simp]: "json_bytes [] = []"
  by (simp add: json_bytes.simps)

lemma json_bytes_idem: "json_bytes (json_bytes bs) = json_bytes bs"
proof (induction bs rule: json_bytes.induct)
  case (1 bs)
  show ?case
  proof (cases "bs = []")
    case False
    obtain r w where r: "rune_of bs = (r, w)" by (cases "rune_of bs")
    note IH = "1.IH" [OF False r [symmetric]]
    show ?thesis
    proof (cases "r = 65533 \<and> w = 1")
      case True
      then have s: "json_bytes bs = 239 # 191 # 189 # json_bytes (drop 1 bs)"
        using False r by (subst json_bytes.simps) simp
      have "rune_of (239 # 191 # 189 # ts) = (65533, 3)" for ts by (simp add: cont_byte_def)
      then show ?thesis
        unfolding s using IH True by (subst json_bytes.simps) simp
    next
      case bad: False
      have sh: "1 \<le> w" "w \<le> length bs" and rn: "\<And>ts. rune_of (take w bs @ ts) = (r, w)"
        using rune_of_shape [OF r False bad] by blast+
      have s: "json_bytes bs = take w bs @ json_bytes (drop w bs)"
        using False r bad sh by (subst json_bytes.simps) (auto simp: max_def)
      have n: "take w bs \<noteq> []" using sh False by auto
      have "json_bytes (take w bs @ json_bytes (drop w bs)) = take w bs @ json_bytes (json_bytes (drop w bs))"
        using sh n bad rn by (subst json_bytes.simps) (auto simp: max_def)
      with s IH sh show ?thesis by (auto simp: max_def)
    qed
  qed simp
qed

lemma json_bytes_fixed: "\<forall>b \<in> set (json_bytes bs). b < 128 \<Longrightarrow> json_bytes bs = bs"
proof (induction bs rule: json_bytes.induct)
  case (1 bs)
  show ?case
  proof (cases "bs = []")
    case False
    obtain r w where r: "rune_of bs = (r, w)" by (cases "rune_of bs")
    have s: "json_bytes bs = (if r = 65533 \<and> w = 1 then [239, 191, 189] else take w bs) @ json_bytes (drop (max 1 w) bs)"
      using False r by (subst json_bytes.simps) simp
    with "1.prems" have g: "\<not> (r = 65533 \<and> w = 1)" by auto
    then have w: "1 \<le> w" using rune_of_shape [OF r False] by blast
    from "1.IH" [OF False r [symmetric]] s g "1.prems" have "json_bytes (drop (max 1 w) bs) = drop (max 1 w) bs"
      by (auto simp: max_def)
    with s g w show ?thesis by (auto simp: max_def)
  qed simp
qed

lemma json_bytes_small: "\<forall>b \<in> set bs. b < 256 \<Longrightarrow> \<forall>b \<in> set (json_bytes bs). b < 256"
proof (induction bs rule: json_bytes.induct)
  case (1 bs)
  show ?case
  proof (cases "bs = []")
    case False
    obtain r w where r: "rune_of bs = (r, w)" by (cases "rune_of bs")
    have "\<forall>b \<in> set (drop (max 1 w) bs). b < 256" "\<forall>b \<in> set (take w bs). b < 256"
      using "1.prems" by (auto dest: in_set_dropD in_set_takeD)
    with "1.IH" [OF False r [symmetric]] r False show ?thesis
      by (subst json_bytes.simps) auto
  qed simp
qed

lemma of_char_json: "map of_char (json_string s) = json_bytes (map of_char s)"
proof -
  have m: "map of_char (map (char_of :: nat \<Rightarrow> char) bs) = bs" if "\<forall>b \<in> set bs. b < 256" for bs
    using that by (induction bs) simp_all
  have "\<forall>b \<in> set (map (of_char :: char \<Rightarrow> nat) s). b < 256" by auto
  from m [OF json_bytes_small [OF this]] show ?thesis by (simp add: json_string_def)
qed

lemma json_string_idem: "json_string (json_string s) = json_string s"
  unfolding json_string_def [of "json_string s"] of_char_json json_bytes_idem by (simp add: json_string_def)

lemma json_string_ascii: "is_ascii s \<Longrightarrow> json_string s = s"
proof (induction s)
  case (Cons c s)
  then have "json_bytes (map of_char (c # s)) = of_char c # json_bytes (map of_char s)"
    by (subst json_bytes.simps) simp
  with Cons show ?case by (simp add: json_string_def)
qed (simp add: json_string_def)

lemma json_string_to_ascii: "is_ascii t \<Longrightarrow> json_string s = t \<longleftrightarrow> s = t"
proof
  assume t: "is_ascii t" and e: "json_string s = t"
  then have "\<forall>b \<in> set (json_bytes (map of_char s)). b < 128"
    unfolding of_char_json [symmetric] by (auto simp: is_ascii_def list_all_iff)
  from json_bytes_fixed [OF this] have "json_string s = map (char_of \<circ> of_char) s" by (simp add: json_string_def)
  also have "map (char_of \<circ> (of_char :: char \<Rightarrow> nat)) s = s" by (simp add: comp_def)
  finally show "s = t" using e by simp
qed (simp add: json_string_ascii)

section \<open>One call\<close>

definition wire_request :: "Request \<Rightarrow> Request" where
  "wire_request r =
     \<lparr>Req_Op = json_string (Req_Op r), Req_Key = json_string (Req_Key r), Req_Keys = map json_string (Req_Keys r),
      Req_Plaintext = json_string (Req_Plaintext r), Req_Packed = json_string (Req_Packed r),
      Req_PackedMany = map json_string (Req_PackedMany r), Req_Reason = json_string (Req_Reason r)\<rparr>"

definition wire_response :: "Response \<Rightarrow> Response" where
  "wire_response r =
     r\<lparr>Resp_Error := json_string (Resp_Error r), Resp_Code := json_string (Resp_Code r),
       Resp_Packed := json_string (Resp_Packed r), Resp_Plaintext := json_string (Resp_Plaintext r),
       Resp_PlaintextMany := map json_string (Resp_PlaintextMany r),
       Resp_RewrappedPacked := json_string (Resp_RewrappedPacked r),
       Resp_RewrappedPackedMany := map json_string (Resp_RewrappedPackedMany r)\<rparr>"

text \<open>The encoder and the decoder of requests, and what they promise: no line feed, the fields
  back, and an ASCII string in full.\<close>

record wire_codec =
  wc_encode :: "Request \<Rightarrow> bytes"
  wc_decode :: "bytes \<Rightarrow> Request option"

definition wire_ok :: "wire_codec \<Rightarrow> bool" where
  "wire_ok C \<longleftrightarrow>
     (\<forall>r. LF \<notin> set (wc_encode C r) \<and> wc_decode C (wc_encode C r @ [LF]) = Some (wire_request r) \<and>
          (is_ascii (Req_Packed r) \<longrightarrow> length (Req_Packed r) \<le> length (wc_encode C r)))"

text \<open>One connection with one line, as \<open>call\<close> makes it: what comes back, and the server after it.\<close>

definition wire_call ::
  "aead \<Rightarrow> wire_codec \<Rightarrow> world \<Rightarrow> string \<Rightarrow> Request \<Rightarrow> Server \<Rightarrow> net_result \<times> Server" where
  "wire_call G C w ident req sv =
     (case handleConn G (wc_decode C) (\<lambda>k. w) (Established ident (wc_encode C req @ [LF])) sv of
        (resps, evs, sv') \<Rightarrow> (case resps of [] \<Rightarrow> NetFailed | r # _ \<Rightarrow> Reply (wire_response r), sv'))"

lemma IndexByte_take_line:
  "LF \<notin> set line \<Longrightarrow> IndexByte (take n (line @ [LF])) LF = (if length line < n then Some (length line) else None)"
  by (auto simp: IndexByte_append IndexByte_None dest: in_set_takeD)

lemma wire_call_dispatch:
  assumes "wire_ok C" and "ident \<noteq> []"
  shows "wire_call G C w ident req sv =
    (if maxReqBytes \<le> length (wc_encode C req)
     then (Reply (failure CodeBadRequest ''request exceeds 1 MiB''), sv)
     else (Reply (wire_response (fst (dispatch G w ident (wire_request req) sv))),
           snd (snd (dispatch G w ident (wire_request req) sv))))"
proof -
  let ?l = "wc_encode C req"
  have w: "LF \<notin> set ?l" "wc_decode C (?l @ [LF]) = Some (wire_request req)" using assms(1) by (auto simp: wire_ok_def)
  have e: "conn_loop G (wc_decode C) (\<lambda>k. w) k ident [] s = ([], [], s)" for k s
    by (subst conn_loop.simps) (simp add: ReadSlice_def IndexByte_None maxReqBytes_def)
  show ?thesis
  proof (cases "maxReqBytes \<le> length ?l")
    case True
    then have "ReadSlice maxReqBytes (?l @ [LF]) = BufferFull"
      using IndexByte_take_line [OF w(1), of maxReqBytes] by (simp add: ReadSlice_def)
    moreover have "wire_response (failure CodeBadRequest ''request exceeds 1 MiB'') = failure CodeBadRequest ''request exceeds 1 MiB''"
      by (simp add: wire_response_def failure_def NoResponse_def code_defs json_string_ascii)
    ultimately show ?thesis
      using assms(2) True by (simp add: wire_call_def handleConn_def conn_loop.simps [of G _ _ _ _ "?l @ [LF]"])
  next
    case False
    then have r: "ReadSlice maxReqBytes (?l @ [LF]) = FullLine (?l @ [LF]) []"
      using IndexByte_take_line [OF w(1), of maxReqBytes] by (simp add: ReadSlice_def)
    obtain resp evs sv' where d: "dispatch G w ident (wire_request req) sv = (resp, evs, sv')" by (metis prod_cases3)
    have "conn_loop G (wc_decode C) (\<lambda>k. w) 0 ident (?l @ [LF]) sv = ([resp], evs, sv')"
      by (subst conn_loop.simps) (simp add: r serve_line_def w(2) d e)
    with assms(2) False d show ?thesis by (simp add: wire_call_def handleConn_def)
  qed
qed

section \<open>The client over the wire\<close>

fun wire_error :: "client_error \<Rightarrow> client_error" where
  "wire_error (OtherError s) = OtherError (json_string s)"
| "wire_error e = e"

lemma mapErr_wire: "mapErr (wire_response r) = wire_error (mapErr r)"
proof -
  have c: "json_string (Resp_Code r) = c \<longleftrightarrow> Resp_Code r = c"
    if "c \<in> {CodeLocked, CodeUnauthorized, CodeDecryptFailed, CodeRateLimit, CodeUnknownKeyVersion, ''''}" for c
    using that by (intro json_string_to_ascii) (auto simp: code_defs)
  have n: "json_string (Resp_Error r) = '''' \<longleftrightarrow> Resp_Error r = ''''" by (rule json_string_to_ascii) simp
  show ?thesis by (simp add: mapErr_def wire_response_def c n)
qed

definition too_large :: client_error where
  "too_large = OtherError ''request exceeds 1 MiB''"

definition encrypt_request :: "string \<Rightarrow> string \<Rightarrow> string \<Rightarrow> Request" where
  "encrypt_request reason key plaintext =
     NoRequest\<lparr>Req_Op := OpEncryptName, Req_Key := key, Req_Plaintext := plaintext, Req_Reason := reason\<rparr>"

definition decrypt_request :: "string \<Rightarrow> string \<Rightarrow> string \<Rightarrow> Request" where
  "decrypt_request reason key packed =
     NoRequest\<lparr>Req_Op := OpDecryptName, Req_Key := key, Req_Packed := packed, Req_Reason := reason\<rparr>"

lemma wire_requests:
  "wire_request (encrypt_request reason key p) = encrypt_request (json_string reason) (json_string key) (json_string p)"
  "wire_request (decrypt_request reason key p) = decrypt_request (json_string reason) (json_string key) (json_string p)"
  by (simp_all add: wire_request_def encrypt_request_def decrypt_request_def NoRequest_def op_defs json_string_ascii)

lemma mapErr_too_large: "mapErr (failure CodeBadRequest ''request exceeds 1 MiB'') = too_large"
  by (simp add: mapErr_def code_defs too_large_def)

lemma client_Encrypt_wire:
  assumes "wire_ok C" and "ident \<noteq> []"
  shows "client_Encrypt reason (\<lambda>req. fst (wire_call G C w ident req sv)) key p =
    (if maxReqBytes \<le> length (wc_encode C (encrypt_request reason key p)) then Inl too_large
     else map_sum wire_error json_string
       (client_Encrypt (json_string reason) (net_to G w ident sv) (json_string key) (json_string p)))"
  by (simp add: client_Encrypt_def client_call_def wire_call_dispatch [OF assms] net_to_def mapErr_too_large
      encrypt_request_def [symmetric] wire_requests mapErr_wire)
    (simp add: wire_response_def mapErr_too_large)

lemma client_Decrypt_wire:
  assumes "wire_ok C" and "ident \<noteq> []"
  shows "client_Decrypt reason (\<lambda>req. fst (wire_call G C w ident req sv)) key p =
    (if maxReqBytes \<le> length (wc_encode C (decrypt_request reason key p)) then Inl too_large
     else map_sum wire_error (map_prod json_string json_string)
       (client_Decrypt (json_string reason) (net_to G w ident sv) (json_string key) (json_string p)))"
  by (simp add: client_Decrypt_def client_call_def wire_call_dispatch [OF assms] net_to_def mapErr_too_large
      decrypt_request_def [symmetric] wire_requests mapErr_wire)
    (simp add: wire_response_def mapErr_too_large)

section \<open>An example\<close>

text \<open>A codec for every request: the strings with four characters escaped.\<close>

definition wire_fields :: "Request \<Rightarrow> string list list" where
  "wire_fields r =
     [[Req_Op r], [Req_Key r], Req_Keys r, [Req_Plaintext r], [Req_Packed r], Req_PackedMany r, [Req_Reason r]]"

fun esc :: "string \<Rightarrow> string" where
  "esc [] = []"
| "esc (c # s) =
     (if c = CHR ''.'' then ''%d'' else if c = CHR '';'' then ''%s'' else if c = CHR ''%'' then ''%p''
      else if c = LF then ''%n'' else [c]) @ esc s"

fun unesc :: "string \<Rightarrow> string" where
  "unesc (c # d # s) =
     (if c \<noteq> CHR ''%'' then c # unesc (d # s)
      else (if d = CHR ''d'' then CHR ''.'' else if d = CHR ''s'' then CHR '';'' else if d = CHR ''p'' then CHR ''%'' else LF)
           # unesc s)"
| "unesc s = s"

definition esc_list :: "string list \<Rightarrow> string" where
  "esc_list xs = concat (map (\<lambda>s. esc s @ ''.'') xs)"

definition unesc_list :: "string \<Rightarrow> string list" where
  "unesc_list s = map unesc (butlast (Split s CHR ''.''))"

definition demo_wire :: wire_codec where
  "demo_wire =
     \<lparr>wc_encode = (\<lambda>r. Join (map esc_list (wire_fields r)) '';''),
      wc_decode = (\<lambda>b. case map unesc_list (Split (butlast b) CHR '';'') of
        [[opn], [key], keys, [pt], [packed], many, [reason]] \<Rightarrow>
          Some (wire_request \<lparr>Req_Op = opn, Req_Key = key, Req_Keys = keys, Req_Plaintext = pt, Req_Packed = packed,
            Req_PackedMany = many, Req_Reason = reason\<rparr>)
      | _ \<Rightarrow> None)\<rparr>"

lemma unesc_esc [simp]: "unesc (esc s) = s"
proof (induction s)
  case (Cons c s)
  show ?case
  proof (cases "c \<in> {CHR ''.'', CHR '';'', CHR ''%'', LF}")
    case False
    with Cons show ?thesis by (cases "esc s") auto
  qed (use Cons in auto)
qed simp

lemma esc_chars: "CHR ''.'' \<notin> set (esc s) \<and> CHR '';'' \<notin> set (esc s) \<and> LF \<notin> set (esc s)"
  by (induction s) auto

lemma length_esc: "length s \<le> length (esc s)"
  and length_esc_plain: "set s \<inter> {CHR ''.'', CHR '';'', CHR ''%'', LF} = {} \<Longrightarrow> length (esc s) = length s"
  by (induction s) auto

lemma esc_list_chars: "CHR '';'' \<notin> set (esc_list xs) \<and> LF \<notin> set (esc_list xs)"
  using esc_chars by (induction xs) (auto simp: esc_list_def)

lemma unesc_esc_list [simp]: "unesc_list (esc_list xs) = xs"
proof -
  have "Split (esc_list xs) CHR ''.'' = map esc xs @ [[]]"
    by (induction xs) (simp_all add: esc_list_def Split_append_sep esc_chars)
  then show ?thesis by (simp add: unesc_list_def comp_def)
qed

lemma Join_mem: "p \<in> set ps \<Longrightarrow> length p \<le> length (Join ps sep)"
proof (induction ps)
  case (Cons q ps)
  then show ?case by (cases ps) auto
qed simp

lemma demo_wire_ok: "wire_ok demo_wire"
  unfolding wire_ok_def
proof (intro allI conjI impI)
  fix r
  let ?ps = "map esc_list (wire_fields r)"
  have e: "wc_encode demo_wire r = Join ?ps '';''" by (simp only: demo_wire_def wire_codec.simps)
  have p: "CHR '';'' \<notin> set p \<and> LF \<notin> set p" if "p \<in> set ?ps" for p
    using that esc_list_chars by (auto simp: wire_fields_def)
  have "set (Join ps '';'') \<subseteq> insert CHR '';'' (\<Union> (set ` set ps))" for ps
  proof (induction ps)
    case (Cons p ps)
    then show ?case by (cases ps) auto
  qed simp
  then have "set (Join ?ps '';'') \<subseteq> insert CHR '';'' (\<Union> (set ` set ?ps))" .
  moreover have "LF \<notin> insert CHR '';'' (\<Union> (set ` set ?ps))" using p by blast
  ultimately show "LF \<notin> set (wc_encode demo_wire r)" unfolding e by blast
  have "?ps \<noteq> []" by (simp add: wire_fields_def)
  moreover have "\<forall>q \<in> set ?ps. CHR '';'' \<notin> set q" using p by blast
  ultimately have "Split (Join ?ps '';'') CHR '';'' = ?ps" by (rule Split_Join)
  then have "map unesc_list (Split (butlast (wc_encode demo_wire r @ [LF])) CHR '';'') = wire_fields r"
    unfolding e butlast_snoc by (simp only: map_map comp_def unesc_esc_list list.map_ident)
  then show "wc_decode demo_wire (wc_encode demo_wire r @ [LF]) = Some (wire_request r)"
    by (simp add: demo_wire_def wire_fields_def wire_request_def)
  have "length (esc_list [Req_Packed r]) \<le> length (wc_encode demo_wire r)"
    unfolding e by (rule Join_mem) (simp add: wire_fields_def)
  then show "length (Req_Packed r) \<le> length (wc_encode demo_wire r)"
    using length_esc [of "Req_Packed r"] by (simp add: esc_list_def)
qed

text \<open>The length of an encryption request.\<close>

lemma demo_wire_length:
  "set p \<inter> {CHR ''.'', CHR '';'', CHR ''%'', LF} = {} \<Longrightarrow>
     length (wc_encode demo_wire (encrypt_request '''' ''a'' p)) = length p + 19"
  by (simp add: demo_wire_def wire_fields_def esc_list_def encrypt_request_def NoRequest_def op_defs length_esc_plain)

end
