(* ===== verification/Bob.thy ===== *)
theory Bob
  imports Envelope Localvault Ca "HOL-Library.Multiset"
begin

text \<open>
  What the operator commands of \<open>cmd/bob\<close> share: the machine they run on, the state directory
  (\<open>cmd/bob/main.go\<close>: \<open>bobDir\<close>, \<open>writeFile\<close>, \<open>readFile\<close>, \<open>exists\<close>), the master password,
  and the opening and closing of the key envelope (\<open>cmd/bob/rotate.go\<close>:
  \<open>loadAndUnwrapEnvelope\<close>, \<open>unwrapAll\<close>, \<open>rewrapAll\<close>, \<open>writeEnvelope\<close>).

  A command is a function from the state to a result, a failure or a value, and the state
  afterwards; \<open>andThen\<close> composes two of them, the second running when the first succeeds.
\<close>

section \<open>The machine\<close>

datatype bob_failure =
    BobUsage
  | BobExit nat
  | BobPanic
  | AlreadyThere string
  | NotThere string
  | FileUnreadable string
  | BadEnvelope envelope_error
  | PasswordNeeded
  | PromptFailed
  | SamePassword
  | NoCurrentKey int
  | CryptoFailed crypto_error
  | UnwrapFailed int crypto_error
  | RewrapFailed int crypto_error
  | NotReplaced string
  | NoSuchVersion int
  | RetiresCurrent int
  | EnvelopeRefused envelope_error
  | CAFailed ca_error
  | Aborted
  | VaultLoadFailed
  | BackupFailed
  | EntryFailed string crypto_error
  | EntryRetired string int
  | VaultSaveFailed
  | PolicyRefused
  | PolicyAbsent
  | NoPasswordFromParent
  | TLSFailed
  | ListenFailed
  | DaemonFailed

text \<open>Where \<open>writeFile\<close> fails; a short write leaves the first \<open>n\<close> bytes.\<close>

datatype replace_fault = Replaced | DirFails | TmpFails | ShortWrite nat | CloseError | RenameError

datatype bob_line =
    KeyRow int string string Params bool
  | Finalized int
  | AddedKey int
  | PasswordRotated bool
  | NotFinalized
  | CACreated string
  | Initialized "string list"
  | CertOut bytes
  | NothingToMigrate
  | AllBound nat
  | Migrated nat nat

record bob_host =
  bh_stdin_tty :: bool
  bh_stamp :: string
  bh_times :: "nat \<Rightarrow> int"
  bh_stampOf :: "int \<Rightarrow> string"
  bh_draw :: "nat \<Rightarrow> nat \<Rightarrow> bytes option"
  bh_order :: "(int \<times> bytes) list \<Rightarrow> (int \<times> bytes) list"
  bh_entries :: "(string \<times> SecretEntry) list \<Rightarrow> (string \<times> SecretEntry) list"
  bh_gcm :: aead
  bh_kdf :: kdf
  bh_pki :: pki
  bh_keypair :: "(bytes \<times> bytes) option"
  bh_code :: "nat option"
  bh_codec :: codec
  bh_readEnvelope :: "bytes \<Rightarrow> envelope_json"
  bh_printEnvelope :: "EnvelopeFile \<Rightarrow> bytes"
  bh_fault :: "nat \<Rightarrow> replace_fault"
  bh_vaultFault :: write_fault

record bob =
  b_environ :: "string list"
  b_disk :: disk
  b_draws :: nat
  b_writes :: nat
  b_stdin :: string
  b_typed :: "string option list"
  b_out :: "bob_line list"

type_synonym 'a bob_op = "bob \<Rightarrow> (bob_failure + 'a) \<times> bob"

section \<open>Sequences of operations\<close>

definition give :: "'a \<Rightarrow> 'a bob_op" where
  "give x b = (Inr x, b)"

definition fail :: "bob_failure \<Rightarrow> 'a bob_op" where
  "fail e b = (Inl e, b)"

definition andThen :: "'a bob_op \<Rightarrow> ('a \<Rightarrow> 'b bob_op) \<Rightarrow> 'b bob_op" where
  "andThen m f b = (case m b of (Inl e, b') \<Rightarrow> (Inl e, b') | (Inr x, b') \<Rightarrow> f x b')"

definition check :: "bool \<Rightarrow> bob_failure \<Rightarrow> unit bob_op" where
  "check ok e = (if ok then give () else fail e)"

definition tell :: "bob_line \<Rightarrow> unit bob_op" where
  "tell l b = (Inr (), b\<lparr>b_out := b_out b @ [l]\<rparr>)"

text \<open>The n-th random draw of the process, of \<open>k\<close> bytes.\<close>

definition sample :: "bob_host \<Rightarrow> nat \<Rightarrow> bytes option bob_op" where
  "sample H k b = (Inr (bh_draw H (b_draws b) k), b\<lparr>b_draws := Suc (b_draws b)\<rparr>)"

lemma give_iff [simp]: "give x b = (r, b') \<longleftrightarrow> r = Inr x \<and> b' = b"
  and fail_iff [simp]: "fail e b = (r', b') \<longleftrightarrow> r' = Inl e \<and> b' = b"
  by (auto simp: give_def fail_def)

lemma andThen_Inr:
  "andThen m f b = (Inr y, b') \<longleftrightarrow> (\<exists>x b1. m b = (Inr x, b1) \<and> f x b1 = (Inr y, b'))"
  by (auto simp: andThen_def split: prod.splits sum.splits)

lemma andThen_Inl:
  "andThen m f b = (Inl e, b') \<longleftrightarrow>
     m b = (Inl e, b') \<or> (\<exists>x b1. m b = (Inr x, b1) \<and> f x b1 = (Inl e, b'))"
  by (auto simp: andThen_def split: prod.splits sum.splits)

lemma andThen_step: "m b = (Inr x, b1) \<Longrightarrow> andThen m f b = f x b1"
  and andThen_stop: "m b = (Inl e, b1) \<Longrightarrow> andThen m f b = (Inl e, b1)"
  by (simp_all add: andThen_def)

lemma check_Inr: "check ok e b = (Inr u, b') \<longleftrightarrow> ok \<and> b' = b"
  and check_Inl: "check ok e b = (Inl e', b') \<longleftrightarrow> \<not> ok \<and> e' = e \<and> b' = b"
  by (auto simp: check_def)

lemma andThen_check:
  "andThen (check ok e) f b = (Inr y, b') \<longleftrightarrow> ok \<and> f () b = (Inr y, b')"
  by (auto simp: andThen_Inr check_Inr)

lemma sample_Inr [simp]:
  "sample H k b = (r, b') \<longleftrightarrow> r = Inr (bh_draw H (b_draws b) k) \<and> b' = b\<lparr>b_draws := Suc (b_draws b)\<rparr>"
  by (auto simp: sample_def)

lemmas bob_success = andThen_Inr check_Inr
lemmas bob_failing = andThen_Inl check_Inl

section \<open>The state directory\<close>

definition bobDir :: "string list \<Rightarrow> string \<Rightarrow> string" where
  "bobDir environ flagDir =
     (if flagDir \<noteq> '''' then flagDir
      else if Getenv environ ''ANB_BOB_DIR'' \<noteq> '''' then Getenv environ ''ANB_BOB_DIR''
      else FilepathJoin [Getenv environ ''HOME'', ''.anb'', ''bob''])"

definition exists_file :: "string \<Rightarrow> string \<Rightarrow> disk \<Rightarrow> bool" where
  "exists_file dir name d \<longleftrightarrow> d (FilepathJoin [dir, name]) \<noteq> Missing"

text \<open>\<open>readFile\<close> where its error is dropped: the nil slice.\<close>

definition bytes_at :: "string \<Rightarrow> string \<Rightarrow> disk \<Rightarrow> bytes" where
  "bytes_at dir name d = (case d (FilepathJoin [dir, name]) of Content c \<Rightarrow> c | _ \<Rightarrow> [])"

definition readFile :: "string \<Rightarrow> string \<Rightarrow> disk \<Rightarrow> bytes option" where
  "readFile dir name d = (case d (FilepathJoin [dir, name]) of Content c \<Rightarrow> Some c | _ \<Rightarrow> None)"

text \<open>\<open>writeFile\<close>: a temporary file, then a rename, without a sync; every disk on the way, the
  final one last. Nothing is cleaned up.\<close>

definition replace :: "replace_fault \<Rightarrow> string \<Rightarrow> bytes \<Rightarrow> disk \<Rightarrow> bool \<times> disk list" where
  "replace fault path dat d =
     (let tmp = path @ ''.tmp'';
          opened = d(tmp := Content []);
          written = d(tmp := Content dat)
      in case fault of
           DirFails \<Rightarrow> (False, [d])
         | TmpFails \<Rightarrow> (False, [d])
         | ShortWrite n \<Rightarrow> (False, [d, opened, d(tmp := Content (take n dat))])
         | CloseError \<Rightarrow> (False, [d, opened, written])
         | RenameError \<Rightarrow> (False, [d, opened, written])
         | Replaced \<Rightarrow> (True, [d, opened, written, written(path := Content dat, tmp := Missing)]))"

interpretation rp: atomic_file replace
proof unfold_locales
  fix f :: replace_fault and path p :: string and dat :: bytes and d d' :: disk and ok and ds
  assume w: "replace f path dat d = (ok, ds)"
  then show "ds \<noteq> [] \<and> hd ds = d" and "last ds path = (if ok then Content dat else d path)"
    by (cases f; auto simp: replace_def Let_def)+
  assume "d' \<in> set ds"
  with w show "d' path = d path \<or> d' path = Content dat"
    and "p \<noteq> path \<Longrightarrow> p \<noteq> path @ ''.tmp'' \<Longrightarrow> d' p = d p"
    by (cases f; auto simp: replace_def Let_def)+
qed

definition writeFile :: "bob_host \<Rightarrow> string \<Rightarrow> string \<Rightarrow> bytes \<Rightarrow> unit bob_op" where
  "writeFile H dir name dat b =
     (case replace (bh_fault H (b_writes b)) (FilepathJoin [dir, name]) dat (b_disk b) of
        (ok, ds) \<Rightarrow>
          (if ok then Inr () else Inl (NotReplaced name),
           b\<lparr>b_disk := last ds, b_writes := Suc (b_writes b)\<rparr>))"

section \<open>The master password\<close>

definition Unsetenv :: "string \<Rightarrow> string list \<Rightarrow> string list" where
  "Unsetenv name environ = filter (\<lambda>kv. \<not> HasPrefix kv (name @ ''='')) environ"

text \<open>The password of the environment, pruned once it was read; then the terminal, with the
  prompt of the caller.\<close>

definition prompt_with ::
  "(string option list \<Rightarrow> string option \<times> string option list) \<Rightarrow> string bob_op" where
  "prompt_with read b =
     (case read (b_typed b) of
        (None, ps) \<Rightarrow> (Inl PromptFailed, b\<lparr>b_typed := ps\<rparr>)
      | (Some p, ps) \<Rightarrow> (Inr p, b\<lparr>b_typed := ps\<rparr>))"

definition masterPassword ::
  "bob_host \<Rightarrow> (string option list \<Rightarrow> string option \<times> string option list) \<Rightarrow> string bob_op" where
  "masterPassword H read b =
     (let p = Getenv (b_environ b) ''ANB_BOB_PASSWORD'' in
      if p \<noteq> '''' then (Inr p, b\<lparr>b_environ := Unsetenv ''ANB_BOB_PASSWORD'' (b_environ b)\<rparr>)
      else if \<not> bh_stdin_tty H then (Inl PasswordNeeded, b)
      else prompt_with read b)"

section \<open>Opening and closing the envelope\<close>

definition loadAndUnwrapEnvelope :: "bob_host \<Rightarrow> string \<Rightarrow> (EnvelopeFile \<times> string) bob_op" where
  "loadAndUnwrapEnvelope H dir b =
     (if \<not> exists_file dir ''envelope.json'' (b_disk b) then (Inl (NotThere ''envelope.json''), b)
      else
        (case readFile dir ''envelope.json'' (b_disk b) of
           None \<Rightarrow> (Inl (FileUnreadable ''envelope.json''), b)
         | Some envJSON \<Rightarrow>
             (case LoadEnvelopeFile (bh_stamp H) (bh_readEnvelope H envJSON) of
                Inl e \<Rightarrow> (Inl (BadEnvelope e), b)
              | Inr envFile \<Rightarrow>
                  andThen (masterPassword H ReadPassword)
                    (\<lambda>pass.
                       case FindKey envFile (EF_Current envFile) of
                         None \<Rightarrow> fail (NoCurrentKey (EF_Current envFile))
                       | Some cur \<Rightarrow>
                           (case Unwrap (bh_gcm H) (bh_kdf H) cur pass of
                              Inl e \<Rightarrow> fail (CryptoFailed e)
                            | Inr mk \<Rightarrow> give (envFile, pass))) b)))"

fun unwrap_keys ::
  "aead \<Rightarrow> kdf \<Rightarrow> string \<Rightarrow> Envelope list \<Rightarrow> (int \<times> bytes) list \<Rightarrow> bob_failure + (int \<times> bytes) list" where
  "unwrap_keys G K pass [] out = Inr out"
| "unwrap_keys G K pass (e # es) out =
     (case Unwrap G K e pass of
        Inl x \<Rightarrow> Inl (UnwrapFailed (Env_ID e) x)
      | Inr k \<Rightarrow> unwrap_keys G K pass es (AList.update (Env_ID e) k out))"

definition unwrapAll :: "bob_host \<Rightarrow> EnvelopeFile \<Rightarrow> string \<Rightarrow> bob_failure + (int \<times> bytes) list" where
  "unwrapAll H envFile password = unwrap_keys (bh_gcm H) (bh_kdf H) password (EF_Keys envFile) []"

text \<open>The exchange sort of \<open>rewrapAll\<close>: one run of the inner loop carries the least element of
  the rest to the front, exchanging in place.\<close>

fun exchange_pass :: "Envelope \<Rightarrow> Envelope list \<Rightarrow> Envelope \<times> Envelope list" where
  "exchange_pass x [] = (x, [])"
| "exchange_pass x (y # ys) =
     (if Env_ID y < Env_ID x then (case exchange_pass y ys of (m, r) \<Rightarrow> (m, x # r))
      else (case exchange_pass x ys of (m, r) \<Rightarrow> (m, y # r)))"

lemma exchange_pass_mset: "exchange_pass x ys = (m, r) \<Longrightarrow> mset (m # r) = mset (x # ys)"
proof (induction ys arbitrary: x m r)
  case (Cons y ys)
  show ?case
  proof (cases "Env_ID y < Env_ID x")
    case True
    with Cons.prems obtain r' where "exchange_pass y ys = (m, r')" "r = x # r'"
      by (auto split: prod.splits)
    with Cons.IH [of y m r'] show ?thesis by simp
  next
    case False
    with Cons.prems obtain r' where "exchange_pass x ys = (m, r')" "r = y # r'"
      by (auto split: prod.splits)
    with Cons.IH [of x m r'] show ?thesis by simp
  qed
qed auto

lemma exchange_pass_length: "exchange_pass x ys = (m, r) \<Longrightarrow> length r = length ys"
  by (drule exchange_pass_mset, drule arg_cong [where f = size]) simp

function exchange_sort :: "Envelope list \<Rightarrow> Envelope list" where
  "exchange_sort [] = []"
| "exchange_sort (x # xs) = (case exchange_pass x xs of (m, r) \<Rightarrow> m # exchange_sort r)"
  by pat_completeness auto
termination
  by (relation "measure length") (auto dest: sym [THEN exchange_pass_length])

text \<open>The creation times to keep, by id; a repeated id counts with its last entry.\<close>

definition created_at :: "EnvelopeFile \<Rightarrow> int \<Rightarrow> string option" where
  "created_at envFile = map_of (rev (map (\<lambda>k. (Env_ID k, Env_Created k)) (EF_Keys envFile)))"

fun wrap_keys ::
  "bob_host \<Rightarrow> (int \<Rightarrow> string option) \<Rightarrow> string \<Rightarrow> (int \<times> bytes) list \<Rightarrow> Envelope list bob_op" where
  "wrap_keys H created password [] = give []"
| "wrap_keys H created password ((i, k) # ks) =
     andThen (sample H saltLen) (\<lambda>salt. andThen (sample H gcmNonceLen) (\<lambda>iv.
       case Wrap (bh_gcm H) (bh_kdf H) salt iv k password of
         Inl e \<Rightarrow> fail (RewrapFailed i e)
       | Inr ne \<Rightarrow>
           andThen (wrap_keys H created password ks)
             (\<lambda>newKeys. give
                (ne\<lparr>Env_ID := i,
                   Env_Created := (case created i of
                                     Some c \<Rightarrow> if c \<noteq> '''' then c else bh_stamp H
                                   | None \<Rightarrow> bh_stamp H)\<rparr> # newKeys))))"

definition rewrapAll ::
  "bob_host \<Rightarrow> EnvelopeFile \<Rightarrow> (int \<times> bytes) list \<Rightarrow> string \<Rightarrow> EnvelopeFile bob_op" where
  "rewrapAll H envFile mks password =
     andThen (wrap_keys H (created_at envFile) password (bh_order H mks))
       (\<lambda>newKeys. give (envFile\<lparr>EF_Keys := exchange_sort newKeys\<rparr>))"

definition writeEnvelope :: "bob_host \<Rightarrow> string \<Rightarrow> EnvelopeFile \<Rightarrow> unit bob_op" where
  "writeEnvelope H dir envFile =
     writeFile H dir ''envelope.json'' (bh_printEnvelope H (MarshalEnvelopeFile envFile))"

end
