(* ===== verification/Bob_Rotate.thy ===== *)
theory Bob_Rotate
  imports Bob
begin

text \<open>
  Key rotation (\<open>cmd/bob/rotate.go\<close>): \<open>rotate-master-password\<close>, \<open>rotate-master-key\<close> with
  \<open>--finalize\<close>, and \<open>list-keys\<close>.

  The abstract state of an envelope under a password is the map of the key versions it
  holds; each command is shown to act on it by one map update, or to leave the file as it
  was.
\<close>

section \<open>The commands\<close>

definition password_flags :: flag_set where
  "password_flags = [(''dir'', StringFlag), (''keep-key'', BoolFlag)]"

text \<open>\<open>parse\<close> ends the process on a bad flag.\<close>

definition parsed :: "flag_set \<Rightarrow> string list \<Rightarrow> (settings \<times> string list) bob_op" where
  "parsed fs args = (case parse_args fs args of Inl n \<Rightarrow> fail (BobExit n) | Inr r \<Rightarrow> give r)"

definition newPassword :: "bob_host \<Rightarrow> string bob_op" where
  "newPassword H b =
     (let p = Getenv (b_environ b) ''ANB_BOB_NEW_PASSWORD'' in
      if p \<noteq> '''' then (Inr p, b)
      else if \<not> bh_stdin_tty H then (Inl PasswordNeeded, b)
      else prompt_with ReadNewPassword b)"

text \<open>Adding a fresh key under the next id and making it current.\<close>

definition add_key ::
  "bob_host \<Rightarrow> EnvelopeFile \<Rightarrow> (int \<times> bytes) list \<Rightarrow> (EnvelopeFile \<times> (int \<times> bytes) list) bob_op" where
  "add_key H envFile mks =
     andThen (sample H MasterKeyLen) (\<lambda>rnd.
       case NewMasterKey rnd of
         Inl e \<Rightarrow> fail (CryptoFailed e)
       | Inr fresh \<Rightarrow>
           give (envFile\<lparr>EF_Current := NextID envFile\<rparr>, AList.update (NextID envFile) fresh mks))"

definition lift :: "bob_failure + 'a \<Rightarrow> 'a bob_op" where
  "lift r = (case r of Inl e \<Rightarrow> fail e | Inr x \<Rightarrow> give x)"

definition cmdRotateMasterPassword :: "bob_host \<Rightarrow> string list \<Rightarrow> unit bob_op" where
  "cmdRotateMasterPassword H args b =
     andThen (parsed password_flags args) (\<lambda>(ss, pos).
       let d = bobDir (b_environ b) (str_flag ss ''dir'' ''''); keepKey = bool_flag ss ''keep-key'' in
       andThen (loadAndUnwrapEnvelope H d) (\<lambda>(envFile, oldPass).
       andThen (newPassword H) (\<lambda>newPass.
       andThen (check (newPass \<noteq> oldPass) SamePassword) (\<lambda>_.
       andThen (lift (unwrapAll H envFile oldPass)) (\<lambda>mks.
       andThen (if keepKey then give (envFile, mks) else add_key H envFile mks) (\<lambda>(envFile1, mks1).
       andThen (rewrapAll H envFile1 mks1 newPass) (\<lambda>envFile2.
       andThen (writeEnvelope H d envFile2) (\<lambda>_.
       tell (PasswordRotated keepKey))))))))) b"

definition key_flags :: flag_set where
  "key_flags = [(''dir'', StringFlag), (''finalize'', IntFlag), (''yes'', BoolFlag)]"

text \<open>The typed confirmation of \<open>--finalize\<close>.\<close>

definition typed_yes :: "bool bob_op" where
  "typed_yes b =
     (case readLine (b_stdin b) of
        (line, eof, rest) \<Rightarrow> (Inr (TrimSpace (ToLower line) = ''yes''), b\<lparr>b_stdin := rest\<rparr>))"

definition doFinalize ::
  "bob_host \<Rightarrow> string \<Rightarrow> EnvelopeFile \<Rightarrow> string \<Rightarrow> int \<Rightarrow> bool \<Rightarrow> unit bob_op" where
  "doFinalize H dir envFile pass i yes =
     andThen (check (FindKey envFile i \<noteq> None) (NoSuchVersion i)) (\<lambda>_.
     andThen (check (i \<noteq> EF_Current envFile) (RetiresCurrent i)) (\<lambda>_.
     andThen (if yes then give True else typed_yes) (\<lambda>go.
       if \<not> go then tell NotFinalized
       else
         (case RemoveKey envFile i of
            Inl e \<Rightarrow> fail (EnvelopeRefused e)
          | Inr envFile1 \<Rightarrow>
              andThen (lift (unwrapAll H envFile1 pass)) (\<lambda>mks.
              andThen (rewrapAll H envFile1 mks pass) (\<lambda>envFile2.
              andThen (writeEnvelope H dir envFile2) (\<lambda>_.
              tell (Finalized i))))))))"

definition rotate_key :: "bob_host \<Rightarrow> string \<Rightarrow> EnvelopeFile \<Rightarrow> string \<Rightarrow> unit bob_op" where
  "rotate_key H dir envFile pass =
     andThen (lift (unwrapAll H envFile pass)) (\<lambda>mks.
     andThen (add_key H envFile mks) (\<lambda>(envFile1, mks1).
     andThen (rewrapAll H envFile1 mks1 pass) (\<lambda>envFile2.
     andThen (writeEnvelope H dir envFile2) (\<lambda>_.
     tell (AddedKey (EF_Current envFile1))))))"

definition cmdRotateMasterKey :: "bob_host \<Rightarrow> string list \<Rightarrow> unit bob_op" where
  "cmdRotateMasterKey H args b =
     andThen (parsed key_flags args) (\<lambda>(ss, pos).
       let d = bobDir (b_environ b) (str_flag ss ''dir'' ''''); finalize = int_flag ss [''finalize''] 0 in
       andThen (loadAndUnwrapEnvelope H d) (\<lambda>(envFile, pass).
         if 0 < finalize then doFinalize H d envFile pass finalize (bool_flag ss ''yes'')
         else rotate_key H d envFile pass)) b"

definition cmdListKeys :: "bob_host \<Rightarrow> string list \<Rightarrow> unit bob_op" where
  "cmdListKeys H args b =
     andThen (parsed [(''dir'', StringFlag)] args) (\<lambda>(ss, pos) b.
       let d = bobDir (b_environ b) (str_flag ss ''dir'' '''') in
       if \<not> exists_file d ''envelope.json'' (b_disk b) then (Inl (NotThere ''envelope.json''), b)
       else
         (case readFile d ''envelope.json'' (b_disk b) of
            None \<Rightarrow> (Inl (FileUnreadable ''envelope.json''), b)
          | Some envJSON \<Rightarrow>
              (case LoadEnvelopeFile (bh_stamp H) (bh_readEnvelope H envJSON) of
                 Inl e \<Rightarrow> (Inl (BadEnvelope e), b)
               | Inr envFile \<Rightarrow>
                   (Inr (), b\<lparr>b_out := b_out b @
                      map (\<lambda>k. KeyRow (Env_ID k) (Env_Created k) (Env_KDF k) (Env_Params k)
                                 (Env_ID k = EF_Current envFile)) (EF_Keys envFile)\<rparr>)))) b"

lemma andThen_give [simp]: "andThen (give x) f = f x"
  and andThen_fail [simp]: "andThen (fail e) g = fail e"
  by (simp_all add: andThen_def give_def fail_def fun_eq_iff)

section \<open>The exchange sort\<close>

lemma exchange_pass_least:
  "exchange_pass x ys = (m, r) \<Longrightarrow> \<forall>z \<in> set (x # ys). Env_ID m \<le> Env_ID z"
proof (induction ys arbitrary: x m r)
  case (Cons y ys)
  show ?case
  proof (cases "Env_ID y < Env_ID x")
    case True
    with Cons.prems obtain r' where "exchange_pass y ys = (m, r')" by (auto split: prod.splits)
    from Cons.IH [OF this] True show ?thesis by auto
  next
    case False
    with Cons.prems obtain r' where "exchange_pass x ys = (m, r')" by (auto split: prod.splits)
    from Cons.IH [OF this] False show ?thesis by auto
  qed
qed simp

lemma exchange_sort_mset: "mset (exchange_sort xs) = mset xs"
proof (induction xs rule: exchange_sort.induct)
  case (2 x xs)
  obtain m r where e: "exchange_pass x xs = (m, r)" by (metis surj_pair)
  from 2 [OF e [symmetric]] exchange_pass_mset [OF e] e show ?case by simp
qed simp

lemma exchange_sort_set [simp]: "set (exchange_sort xs) = set xs"
  using exchange_sort_mset by (metis set_mset_mset)

lemma exchange_sort_sorted: "sorted (map Env_ID (exchange_sort xs))"
proof (induction xs rule: exchange_sort.induct)
  case (2 x xs)
  obtain m r where e: "exchange_pass x xs = (m, r)" by (metis surj_pair)
  from exchange_pass_mset [OF e] have "set r \<subseteq> set (x # xs)" by (metis set_mset_mset set_subset_Cons)
  with 2 [OF e [symmetric]] exchange_pass_least [OF e] e show ?case by auto
qed simp

text \<open>On distinct ids it is the sort of the library.\<close>

lemma exchange_sort_distinct:
  "distinct (map Env_ID (exchange_sort xs)) \<longleftrightarrow> distinct (map Env_ID xs)"
  by (metis exchange_sort_mset mset_map mset_eq_imp_distinct_iff)

lemma exchange_sort_eq:
  assumes "distinct (map Env_ID xs)"
  shows "exchange_sort xs = sort_key Env_ID xs"
proof (rule map_sorted_distinct_set_unique [where f = Env_ID])
  show "distinct (map Env_ID (sort_key Env_ID xs))"
    using assms by (metis mset_sort mset_map mset_eq_imp_distinct_iff)
  show "inj_on Env_ID (set (exchange_sort xs) \<union> set (sort_key Env_ID xs))"
    using assms by (simp add: distinct_map)
qed (simp_all add: assms exchange_sort_sorted exchange_sort_distinct)

section \<open>What an envelope holds under a password\<close>

definition held :: "bob_host \<Rightarrow> string \<Rightarrow> EnvelopeFile \<Rightarrow> (int \<Rightarrow> bytes option) option" where
  "held H pass envFile =
     (case unwrapAll H envFile pass of Inl _ \<Rightarrow> None | Inr mks \<Rightarrow> Some (map_of mks))"

text \<open>The library: GCM, a random source that gives what is asked, and a map iteration that
  visits every entry once.\<close>

definition bob_ok :: "bob_host \<Rightarrow> bool" where
  "bob_ok H \<longleftrightarrow> aead_ok (bh_gcm H) \<and> (\<forall>i n s. bh_draw H i n = Some s \<longrightarrow> length s = n) \<and>
     (\<forall>xs. mset (bh_order H xs) = mset xs)"

lemma bob_ok_order: "bob_ok H \<Longrightarrow> set (bh_order H xs) = set xs"
  unfolding bob_ok_def by (metis set_mset_mset)

lemma bob_ok_order_fst: "bob_ok H \<Longrightarrow> distinct (map fst (bh_order H xs)) \<longleftrightarrow> distinct (map fst xs)"
  unfolding bob_ok_def by (metis mset_map mset_eq_imp_distinct_iff)

lemma Unwrap_stamp [simp]: "Unwrap G K (e\<lparr>Env_ID := i, Env_Created := c\<rparr>) pass = Unwrap G K e pass"
  by (simp add: Unwrap_def Let_def cong: option.case_cong sum.case_cong)

lemma wrap_keys_Inr:
  assumes "bob_ok H" and "wrap_keys H cr pass ks b = (Inr es, b')"
    and "\<forall>(i, k) \<in> set ks. length k = 32"
  shows "list_all2 (\<lambda>(i, k) e. Env_ID e = i \<and> Unwrap (bh_gcm H) (bh_kdf H) e pass = Inr k) ks es \<and>
    b' = b\<lparr>b_draws := b_draws b'\<rparr>"
  using assms(2,3)
proof (induction ks arbitrary: es b)
  case (Cons a ks)
  obtain i k where a: "a = (i, k)" by (cases a)
  let ?salt = "bh_draw H (b_draws b) saltLen" and ?iv = "bh_draw H (Suc (b_draws b)) gcmNonceLen"
  let ?b = "b\<lparr>b_draws := Suc (Suc (b_draws b))\<rparr>"
  from Cons.prems(1) obtain ne es' where w: "Wrap (bh_gcm H) (bh_kdf H) ?salt ?iv k pass = Inr ne"
    and r: "wrap_keys H cr pass ks ?b = (Inr es', b')"
    and es: "\<exists>c. es = ne\<lparr>Env_ID := i, Env_Created := c\<rparr> # es'"
    by (auto simp: a andThen_Inr split: sum.splits)
  from w obtain iv where iv: "?iv = Some iv" by (elim Wrap_cases)
  with assms(1) have "length iv = 12" by (auto simp: bob_ok_def gcmNonceLen_def)
  moreover from Cons.prems(2) a have "length k = 32" by auto
  ultimately have "Unwrap (bh_gcm H) (bh_kdf H) ne pass = Inr k"
    using assms(1) w iv by (intro Unwrap_Wrap) (auto simp: bob_ok_def)
  moreover from Cons.IH [OF r] Cons.prems(2) a have
    "list_all2 (\<lambda>(i, k) e. Env_ID e = i \<and> Unwrap (bh_gcm H) (bh_kdf H) e pass = Inr k) ks es'"
    "b' = ?b\<lparr>b_draws := b_draws b'\<rparr>" by auto
  ultimately show ?case using es a by auto
qed simp

lemma unwrap_keys_all:
  assumes "\<forall>e \<in> set es. Unwrap G K e pass = Inr (f (Env_ID e))"
  shows "\<exists>mks. unwrap_keys G K pass es out = Inr mks \<and>
    map_of mks = (\<lambda>i. if i \<in> Env_ID ` set es then Some (f i) else map_of out i)"
  using assms
proof (induction es arbitrary: out)
  case (Cons e es)
  from Cons.IH [of "AList.update (Env_ID e) (f (Env_ID e)) out"] Cons.prems show ?case
    by (auto simp: update_conv' fun_eq_iff)
qed simp

lemma update_elem: "p \<in> set (AList.update i k out) \<Longrightarrow> p = (i, k) \<or> p \<in> set out"
  by (induction out) (auto split: if_splits)

lemma unwrap_keys_shape:
  assumes "unwrap_keys G K pass es out = Inr mks"
    and "distinct (map fst out)" and "\<forall>(i, k) \<in> set out. length k = 32"
  shows "distinct (map fst mks) \<and> (\<forall>(i, k) \<in> set mks. length k = 32) \<and>
    fst ` set mks = fst ` set out \<union> Env_ID ` set es"
  using assms
proof (induction es arbitrary: out)
  case (Cons e es)
  from Cons.prems(1) obtain k where u: "Unwrap G K e pass = Inr k"
    and r: "unwrap_keys G K pass es (AList.update (Env_ID e) k out) = Inr mks"
    by (auto split: sum.splits)
  from u have "length k = 32"
    by (auto simp: Unwrap_def Let_def MasterKeyLen_def split: option.splits sum.splits if_splits)
  with Cons.prems(3) have "\<forall>(i, k') \<in> set (AList.update (Env_ID e) k out). length k' = 32"
    by (auto dest: update_elem)
  with Cons.IH [OF r] Cons.prems(2) show ?case by (auto simp: distinct_update dom_update)
qed simp

lemma unwrapAll_shape:
  assumes "unwrapAll H envFile pass = Inr mks"
  shows "distinct (map fst mks)" and "\<forall>(i, k) \<in> set mks. length k = 32"
    and "fst ` set mks = Env_ID ` set (EF_Keys envFile)"
  using unwrap_keys_shape [OF assms [unfolded unwrapAll_def]] by auto

lemma rewrapAll_held:
  assumes "bob_ok H" and "rewrapAll H envFile mks pass b = (Inr envFile', b')"
    and "distinct (map fst mks)" and "\<forall>(i, k) \<in> set mks. length k = 32"
  shows "held H pass envFile' = Some (map_of mks)"
    and "EF_Current envFile' = EF_Current envFile" and "b' = b\<lparr>b_draws := b_draws b'\<rparr>"
    and "map Env_ID (EF_Keys envFile') = sort (map fst mks)"
proof -
  let ?ks = "bh_order H mks"
  from assms(2) obtain es where w: "wrap_keys H (created_at envFile) pass ?ks b = (Inr es, b')"
    and f': "envFile' = envFile\<lparr>EF_Keys := exchange_sort es\<rparr>"
    by (auto simp: rewrapAll_def andThen_Inr)
  have l: "\<forall>(i, k) \<in> set ?ks. length k = 32" using assms(1,4) by (simp add: bob_ok_order)
  from wrap_keys_Inr [OF assms(1) w l]
  have a: "list_all2 (\<lambda>(i, k) e. Env_ID e = i \<and> Unwrap (bh_gcm H) (bh_kdf H) e pass = Inr k) ?ks es"
    and b: "b' = b\<lparr>b_draws := b_draws b'\<rparr>" by auto
  have ids: "map Env_ID es = map fst ?ks"
    using a by (induction rule: list_all2_induct) auto
  have d: "distinct (map fst ?ks)" using assms(1,3) by (simp add: bob_ok_order_fst)
  have "\<forall>e \<in> set es. Unwrap (bh_gcm H) (bh_kdf H) e pass = Inr (the (map_of mks (Env_ID e)))"
  proof
    fix e
    assume "e \<in> set es"
    with a obtain i k where "(i, k) \<in> set ?ks" "Env_ID e = i" "Unwrap (bh_gcm H) (bh_kdf H) e pass = Inr k"
      by (fastforce simp: list_all2_conv_all_nth in_set_conv_nth)
    with assms(1,3) show "Unwrap (bh_gcm H) (bh_kdf H) e pass = Inr (the (map_of mks (Env_ID e)))"
      by (simp add: bob_ok_order map_of_is_SomeI)
  qed
  then have "\<forall>e \<in> set (exchange_sort es). Unwrap (bh_gcm H) (bh_kdf H) e pass = Inr (the (map_of mks (Env_ID e)))"
    by simp
  from unwrap_keys_all [OF this, of "[]"] obtain mks' where
    u: "unwrap_keys (bh_gcm H) (bh_kdf H) pass (exchange_sort es) [] = Inr mks'"
    and m: "map_of mks' = (\<lambda>i. if i \<in> Env_ID ` set es then Some (the (map_of mks i)) else None)" by (auto simp: fun_eq_iff)
  have "Env_ID ` set es = fst ` set mks"
    using ids assms(1) by (metis bob_ok_order list.set_map)
  then have "i \<in> Env_ID ` set es \<longleftrightarrow> map_of mks i \<noteq> None" for i
    by (simp add: map_of_eq_None_iff)
  then have "map_of mks' i = map_of mks i" for i
    unfolding m by (cases "map_of mks i") simp_all
  then have "map_of mks' = map_of mks" by (simp add: fun_eq_iff)
  with u f' show "held H pass envFile' = Some (map_of mks)" by (simp add: held_def unwrapAll_def)
  from f' b show "EF_Current envFile' = EF_Current envFile" "b' = b\<lparr>b_draws := b_draws b'\<rparr>" by simp_all
  have "mset (map Env_ID (exchange_sort es)) = mset (map fst mks)"
    using ids assms(1) exchange_sort_mset unfolding bob_ok_def by (metis mset_map)
  then show "map Env_ID (EF_Keys envFile') = sort (map fst mks)"
    using f' by (intro sym [OF properties_for_sort]) (simp_all add: exchange_sort_sorted)
qed

section \<open>What leaves the disk alone, and what fails cleanly\<close>

definition keeps_disk :: "'a bob_op \<Rightarrow> bool" where
  "keeps_disk m \<longleftrightarrow> (\<forall>b r b'. m b = (r, b') \<longrightarrow> b_disk b' = b_disk b)"

definition clean_failure :: "string \<Rightarrow> 'a bob_op \<Rightarrow> bool" where
  "clean_failure path m \<longleftrightarrow> (\<forall>b e b'. m b = (Inl e, b') \<longrightarrow> b_disk b' path = b_disk b path)"

named_theorems keeps_intros "operations that keep the disk"

lemma keeps_andThen [keeps_intros]:
  "keeps_disk m \<Longrightarrow> (\<And>x. keeps_disk (f x)) \<Longrightarrow> keeps_disk (andThen m f)"
  unfolding keeps_disk_def andThen_def by (fastforce split: prod.splits sum.splits)

lemma keeps_basic [keeps_intros]:
  "keeps_disk (give x)" "keeps_disk (fail e)" "keeps_disk (check ok e)" "keeps_disk (tell l)"
  "keeps_disk (sample H n)" "keeps_disk (prompt_with r)" "keeps_disk typed_yes"
  by (auto simp: keeps_disk_def check_def tell_def prompt_with_def typed_yes_def
      split: option.splits prod.splits if_splits)

lemma keeps_lift [keeps_intros]: "keeps_disk (lift r)"
  by (cases r) (auto simp: lift_def intro: keeps_intros)

lemma keeps_parsed [keeps_intros]: "keeps_disk (parsed fs args)"
  by (cases "parse_args fs args") (auto simp: parsed_def intro: keeps_intros)

lemma keeps_password [keeps_intros]:
  assumes "keeps_disk (prompt_with r)"
  shows "keeps_disk (masterPassword H r)"
  using assms by (auto simp: keeps_disk_def masterPassword_def Let_def split: if_splits)

lemma keeps_newPassword [keeps_intros]: "keeps_disk (newPassword H)"
  using keeps_basic(6) by (fastforce simp: keeps_disk_def newPassword_def Let_def split: if_splits)

lemma keeps_load [keeps_intros]: "keeps_disk (loadAndUnwrapEnvelope H d)"
proof -
  have k: "keeps_disk (andThen (masterPassword H ReadPassword) (\<lambda>pass.
      case FindKey f (EF_Current f) of None \<Rightarrow> fail (NoCurrentKey (EF_Current f))
      | Some cur \<Rightarrow> (case Unwrap (bh_gcm H) (bh_kdf H) cur pass of Inl e \<Rightarrow> fail (CryptoFailed e)
         | Inr mk \<Rightarrow> give (f, pass))))" for f
    by (auto intro!: keeps_intros split: option.split sum.split)
  then show ?thesis
    unfolding keeps_disk_def loadAndUnwrapEnvelope_def by (auto split: if_splits option.splits sum.splits)
qed

lemma keeps_wrap [keeps_intros]: "keeps_disk (wrap_keys H cr pass ks)"
  by (induction ks) (auto intro!: keeps_intros split: sum.split)

lemma keeps_rewrapAll [keeps_intros]: "keeps_disk (rewrapAll H f mks pass)"
  by (simp add: rewrapAll_def keeps_intros)

lemma keeps_add_key [keeps_intros]: "keeps_disk (add_key H f mks)"
  by (auto simp: add_key_def intro!: keeps_intros split: sum.split)

text \<open>A replaced file is the old one or the new one.\<close>

lemma writeFile_clean: "clean_failure (FilepathJoin [d, n]) (writeFile H d n dat)"
  by (auto simp: clean_failure_def writeFile_def split: prod.splits if_splits dest: rp.refused)

lemma clean_keeps: "keeps_disk m \<Longrightarrow> clean_failure path m"
  by (auto simp: keeps_disk_def clean_failure_def)

lemma clean_andThen:
  assumes "keeps_disk m" and "\<And>x. clean_failure path (f x)"
  shows "clean_failure path (andThen m f)"
  unfolding clean_failure_def
proof (intro allI impI)
  fix b e b'
  assume "andThen m f b = (Inl e, b')"
  then consider "m b = (Inl e, b')" | x b1 where "m b = (Inr x, b1)" "f x b1 = (Inl e, b')"
    by (auto simp: andThen_Inl)
  then show "b_disk b' path = b_disk b path"
  proof cases
    case 1
    with assms(1) show ?thesis by (simp add: keeps_disk_def)
  next
    case (2 x b1)
    from 2(1) assms(1) have "b_disk b1 = b_disk b" by (simp add: keeps_disk_def)
    moreover from 2(2) assms(2) have "b_disk b' path = b_disk b1 path" by (simp add: clean_failure_def)
    ultimately show ?thesis by simp
  qed
qed

lemma clean_write: "clean_failure path m \<Longrightarrow> clean_failure path (andThen m (\<lambda>_. tell l))"
  by (auto simp: clean_failure_def andThen_Inl tell_def)

lemma clean_seal:
  "clean_failure (FilepathJoin [d, ''envelope.json''])
     (andThen (rewrapAll H f mks pass) (\<lambda>f2. andThen (writeEnvelope H d f2) (\<lambda>_. tell l)))"
  unfolding writeEnvelope_def by (intro clean_andThen keeps_intros clean_write writeFile_clean)

lemma clean_rotate_key: "clean_failure (FilepathJoin [d, ''envelope.json'']) (rotate_key H d f pass)"
  unfolding rotate_key_def
  by (intro clean_andThen keeps_intros) (simp add: clean_seal split: prod.split)

lemma clean_doFinalize: "clean_failure (FilepathJoin [d, ''envelope.json'']) (doFinalize H d f pass i yes)"
proof -
  have "clean_failure (FilepathJoin [d, ''envelope.json''])
      (if \<not> go then tell NotFinalized
       else (case RemoveKey f i of Inl e \<Rightarrow> fail (EnvelopeRefused e)
         | Inr f1 \<Rightarrow> andThen (lift (unwrapAll H f1 pass)) (\<lambda>mks.
              andThen (rewrapAll H f1 mks pass) (\<lambda>f2. andThen (writeEnvelope H d f2) (\<lambda>_. tell (Finalized i))))))" for go
    by (auto intro!: clean_keeps [OF keeps_basic(2)] clean_keeps [OF keeps_basic(4)]
        clean_andThen [OF keeps_lift] clean_seal split: sum.split)
  then show ?thesis
    unfolding doFinalize_def by (intro clean_andThen keeps_intros) (simp_all add: keeps_intros)
qed

section \<open>Rotation on the abstract envelope\<close>

text \<open>The envelope file of a directory, and a file that was written with the map \<open>K\<close> of
  versions under a password and a current version.\<close>

definition envelope_of :: "bob_host \<Rightarrow> string \<Rightarrow> disk \<Rightarrow> EnvelopeFile option" where
  "envelope_of H d dsk =
     (case readFile d ''envelope.json'' dsk of
        None \<Rightarrow> None
      | Some c \<Rightarrow> (case LoadEnvelopeFile (bh_stamp H) (bh_readEnvelope H c) of Inl _ \<Rightarrow> None | Inr f \<Rightarrow> Some f))"

definition seals ::
  "bob_host \<Rightarrow> string \<Rightarrow> disk \<Rightarrow> string \<Rightarrow> (int \<Rightarrow> bytes option) \<Rightarrow> int \<Rightarrow> bool" where
  "seals H d dsk pass K cur \<longleftrightarrow>
     (\<exists>f. dsk (FilepathJoin [d, ''envelope.json'']) = Content (bh_printEnvelope H f) \<and>
        EF_Version f = EnvelopeSchemaVersion \<and> EF_Current f = cur \<and> held H pass f = Some K \<and>
        sorted_wrt (<) (map Env_ID (EF_Keys f)))"

text \<open>The envelope file as a stored value.\<close>

interpretation ev: stored_value replace "FilepathJoin [d, ''envelope.json'']"
    "\<lambda>f. bh_printEnvelope H (MarshalEnvelopeFile f)" "envelope_of H d"
    "\<lambda>f. LoadEnvelopeFile (bh_stamp H) (bh_readEnvelope H (bh_printEnvelope H (MarshalEnvelopeFile f)))
       = Inr (MarshalEnvelopeFile f)"
    "\<lambda>f. Some (MarshalEnvelopeFile f)" for d :: string and H :: bob_host
  by unfold_locales (simp_all add: envelope_of_def readFile_def)

lemma writeEnvelope_loads:
  assumes "writeEnvelope H d f b = (Inr u, b')"
    and "LoadEnvelopeFile (bh_stamp H) (bh_readEnvelope H (bh_printEnvelope H (MarshalEnvelopeFile f)))
      = Inr (MarshalEnvelopeFile f)"
  shows "envelope_of H d (b_disk b') = Some (MarshalEnvelopeFile f)"
  using assms(1) ev.saved [OF assms(2)]
  by (auto simp: writeEnvelope_def writeFile_def split: prod.splits if_splits)

lemma load_Inr:
  assumes "loadAndUnwrapEnvelope H d b = (Inr (f, pass), b1)"
  shows "envelope_of H d (b_disk b) = Some f" and "b_disk b1 = b_disk b"
    and "fst (masterPassword H ReadPassword b) = Inr pass"
proof -
  show "b_disk b1 = b_disk b" using keeps_load assms by (auto simp: keeps_disk_def)
  from assms obtain c f' where c: "readFile d ''envelope.json'' (b_disk b) = Some c"
    "LoadEnvelopeFile (bh_stamp H) (bh_readEnvelope H c) = Inr f'"
    and a: "andThen (masterPassword H ReadPassword) (\<lambda>pass.
      case FindKey f' (EF_Current f') of None \<Rightarrow> fail (NoCurrentKey (EF_Current f'))
      | Some cur \<Rightarrow> (case Unwrap (bh_gcm H) (bh_kdf H) cur pass of Inl e \<Rightarrow> fail (CryptoFailed e)
         | Inr mk \<Rightarrow> give (f', pass))) b = (Inr (f, pass), b1)"
    unfolding loadAndUnwrapEnvelope_def by (auto split: if_splits option.splits sum.splits)
  from a obtain p b2 where p: "masterPassword H ReadPassword b = (Inr p, b2)"
    and g: "(case FindKey f' (EF_Current f') of None \<Rightarrow> fail (NoCurrentKey (EF_Current f'))
      | Some cur \<Rightarrow> (case Unwrap (bh_gcm H) (bh_kdf H) cur p of Inl e \<Rightarrow> fail (CryptoFailed e)
         | Inr mk \<Rightarrow> give (f', p))) b2 = (Inr (f, pass), b1)"
    unfolding andThen_Inr by blast
  from g have "f' = f \<and> p = pass" by (auto split: option.splits sum.splits)
  with c p show "envelope_of H d (b_disk b) = Some f" "fst (masterPassword H ReadPassword b) = Inr pass"
    by (simp_all add: envelope_of_def)
qed

lemma held_marshalled [simp]: "held H pass (f\<lparr>EF_Version := v\<rparr>) = held H pass f"
  by (simp add: held_def unwrapAll_def)

lemma writeFile_done:
  assumes "writeFile H d n dat b = (Inr u, b')"
  shows "b_disk b' (FilepathJoin [d, n]) = Content dat"
  using assms by (auto simp: writeFile_def split: prod.splits if_splits dest: rp.written)

lemma reseal:
  assumes "bob_ok H" and "distinct (map fst mks)" and "\<forall>(i, k) \<in> set mks. length k = 32"
    and "rewrapAll H f mks pass b = (Inr f', b1)" and "writeEnvelope H d f' b1 = (Inr u, b2)"
  shows "seals H d (b_disk b2) pass (map_of mks) (EF_Current f)"
proof -
  note r = rewrapAll_held [OF assms(1,4,2,3)]
  from writeFile_done [OF assms(5) [unfolded writeEnvelope_def]]
  have "b_disk b2 (FilepathJoin [d, ''envelope.json'']) = Content (bh_printEnvelope H (MarshalEnvelopeFile f'))"
    by simp
  moreover have "sorted_wrt (<) (map Env_ID (EF_Keys f'))"
    unfolding r(4) strict_sorted_iff using assms(2) by simp
  ultimately show ?thesis
    unfolding seals_def using r(1,2)
    by (intro exI [of _ "MarshalEnvelopeFile f'"]) (simp add: MarshalEnvelopeFile_def)
qed

lemma add_key_Inr:
  assumes "add_key H f mks b = (Inr (f1, mks1), b1)" and "bob_ok H"
    and "distinct (map fst mks)" and "\<forall>(i, k) \<in> set mks. length k = 32"
  shows "\<exists>fresh. length fresh = 32 \<and> map_of mks1 = (map_of mks)(NextID f \<mapsto> fresh)"
    and "EF_Current f1 = NextID f" and "distinct (map fst mks1)" and "\<forall>(i, k) \<in> set mks1. length k = 32"
proof -
  from assms(1) obtain fresh where r: "bh_draw H (b_draws b) MasterKeyLen = Some fresh"
    and f1: "f1 = f\<lparr>EF_Current := NextID f\<rparr>" and m: "mks1 = AList.update (NextID f) fresh mks"
    by (auto simp: add_key_def andThen_Inr NewMasterKey_def split: option.splits sum.splits)
  from r assms(2) have l: "length fresh = 32" by (auto simp: bob_ok_def MasterKeyLen_def)
  with m show "\<exists>fresh. length fresh = 32 \<and> map_of mks1 = (map_of mks)(NextID f \<mapsto> fresh)"
    by (intro exI [of _ fresh]) (simp add: update_conv')
  from f1 m assms(3,4) l show "EF_Current f1 = NextID f" "distinct (map fst mks1)"
    "\<forall>(i, k) \<in> set mks1. length k = 32"
    by (auto simp: distinct_update dest: update_elem)
qed

lemma unwrapAll_held: "unwrapAll H f pass = Inr mks \<Longrightarrow> held H pass f = Some (map_of mks)"
  by (simp add: held_def)

lemma lift_Inr [simp]: "lift r b = (Inr x, b') \<longleftrightarrow> r = Inr x \<and> b' = b"
  by (cases r) (auto simp: lift_def)

lemma parsed_Inr [simp]: "parsed fs args b = (Inr r, b') \<longleftrightarrow> parse_args fs args = Inr r \<and> b' = b"
  by (cases "parse_args fs args") (auto simp: parsed_def)

lemma rotate_key_Inr:
  assumes "bob_ok H" and "rotate_key H d f pass b = (Inr u, b')"
  shows "\<exists>K fresh. held H pass f = Some K \<and> length fresh = 32 \<and> NextID f \<notin> dom K \<and>
    seals H d (b_disk b') pass (K(NextID f \<mapsto> fresh)) (NextID f)"
proof -
  from assms(2) obtain mks b1 f1 mks1 b2 f2 b3 b4 where u: "unwrapAll H f pass = Inr mks"
    and a: "add_key H f mks b1 = (Inr (f1, mks1), b2)"
    and r: "rewrapAll H f1 mks1 pass b2 = (Inr f2, b3)" and w: "writeEnvelope H d f2 b3 = (Inr (), b4)"
    and b': "b_disk b' = b_disk b4"
    by (auto simp: rotate_key_def andThen_Inr tell_def)
  note s = unwrapAll_shape [OF u]
  note k = add_key_Inr [OF a assms(1) s(1,2)]
  from reseal [OF assms(1) k(3,4) r w] k(1,2) b' have
    "\<exists>fresh. length fresh = 32 \<and> seals H d (b_disk b') pass ((map_of mks)(NextID f \<mapsto> fresh)) (NextID f)"
    by auto
  moreover have "NextID f \<notin> dom (map_of mks)"
    using NextID_fresh [of f] s(3) by (simp add: dom_map_of_conv_image_fst)
  ultimately show ?thesis using unwrapAll_held [OF u] by blast
qed

text \<open>What an envelope holds, entry by entry when its ids are distinct.\<close>

lemma unwrap_keys_each:
  assumes "unwrap_keys G K pass es out = Inr mks" and "distinct (map Env_ID es)"
  shows "(\<forall>e \<in> set es. \<exists>k. Unwrap G K e pass = Inr k \<and> map_of mks (Env_ID e) = Some k) \<and>
    (\<forall>i. i \<notin> Env_ID ` set es \<longrightarrow> map_of mks i = map_of out i)"
  using assms
proof (induction es arbitrary: out)
  case (Cons e es)
  from Cons.prems(1) obtain k where u: "Unwrap G K e pass = Inr k"
    and r: "unwrap_keys G K pass es (AList.update (Env_ID e) k out) = Inr mks"
    by (auto split: sum.splits)
  from Cons.IH [OF r] Cons.prems(2) u show ?case by (auto simp: update_conv')
qed simp

lemma unwrapAll_FindKey:
  assumes "unwrapAll H f pass = Inr mks" and "ef_wf f"
  shows "map_of mks i = Option.bind (FindKey f i)
    (\<lambda>e. case Unwrap (bh_gcm H) (bh_kdf H) e pass of Inl _ \<Rightarrow> None | Inr k \<Rightarrow> Some k)"
proof -
  from assms(2) have "distinct (map Env_ID (EF_Keys f))" by (simp add: ef_wf_def)
  note e = unwrap_keys_each [OF assms(1) [unfolded unwrapAll_def] this]
  show ?thesis
  proof (cases "FindKey f i")
    case None
    with FindKey_None [of f i] e show ?thesis by simp
  next
    case (Some k)
    from FindKey_Some [OF Some] e obtain m where
      "Unwrap (bh_gcm H) (bh_kdf H) k pass = Inr m" "map_of mks i = Some m" by blast
    with Some show ?thesis by simp
  qed
qed

lemma held_RemoveKey:
  assumes "ef_wf f" and "RemoveKey f i = Inr f1" and "unwrapAll H f1 pass = Inr mks"
    and "held H pass f = Some K0"
  shows "map_of mks = K0(i := None)"
proof -
  from assms(4) obtain mks0 where u: "unwrapAll H f pass = Inr mks0" "K0 = map_of mks0"
    by (auto simp: held_def split: sum.splits)
  from assms(2) have "ef_wf f1" and "FindKey f1 j = (if j = i then None else FindKey f j)" for j
    using ef.retire_ok [OF assms(1), of i f1] ef.retire_look [OF assms(1), of i f1 j] by simp_all
  with unwrapAll_FindKey [OF assms(3)] unwrapAll_FindKey [OF u(1) assms(1)] show ?thesis
    by (simp add: u(2) fun_eq_iff)
qed

text \<open>C17: Rotating the master key adds exactly one key. After a successful
  \<open>rotate-master-key\<close> the envelope file, opened with the same password, holds every version
  it held before under its old key, and one fresh key of 32 bytes under the next id, which was
  in no use and is now the current one.\<close>

theorem rotation_adds_one_key:
  assumes "bob_ok H" and "cmdRotateMasterKey H args b = (Inr (), b')"
    and "parse_args key_flags args = Inr (ss, pos)" and "int_flag ss [''finalize''] 0 \<le> 0"
    and "d = bobDir (b_environ b) (str_flag ss ''dir'' '''')"
  shows "\<exists>f pass K fresh. envelope_of H d (b_disk b) = Some f \<and>
    fst (masterPassword H ReadPassword b) = Inr pass \<and> held H pass f = Some K \<and>
    length fresh = 32 \<and> NextID f \<notin> dom K \<and>
    seals H d (b_disk b') pass (K(NextID f \<mapsto> fresh)) (NextID f)"
proof -
  from assms(2-5) obtain f pass b1 where l: "loadAndUnwrapEnvelope H d b = (Inr (f, pass), b1)"
    and r: "rotate_key H d f pass b1 = (Inr (), b')"
    by (auto simp: cmdRotateMasterKey_def andThen_Inr Let_def)
  from load_Inr [OF l] rotate_key_Inr [OF assms(1) r] show ?thesis by blast
qed

section \<open>Rotation succeeds\<close>

text \<open>With a random source that never fails and a disk that takes the writes, nothing but the
  password can stop a rotation.\<close>

definition smooth :: "bob_host \<Rightarrow> bool" where
  "smooth H \<longleftrightarrow> kdf_ok (bh_kdf H) \<and> (\<forall>i n. bh_draw H i n \<noteq> None) \<and> (\<forall>n. bh_fault H n = Replaced)"

lemma andThen_total:
  "fst (m b) = Inr x \<Longrightarrow> (\<And>b1. \<exists>y. fst (f x b1) = Inr y) \<Longrightarrow> \<exists>y. fst (andThen m f b) = Inr y"
  by (cases "m b") (auto simp: andThen_def)

lemma Wrap_total:
  assumes "kdf_ok K"
  shows "\<exists>e. Wrap G K (Some salt) (Some iv) mk pw = Inr e"
proof -
  from assms have "length (K pw salt DefaultParams) = 32" by (simp add: kdf_ok_def MasterKeyLen_def)
  from sealAAD_total [OF this, of G iv mk "[]"] obtain c where
    "Seal G (Some iv) (K pw salt DefaultParams) mk = Inr c" by (auto simp: Seal_def)
  then show ?thesis
    by (cases "splitPacked c") (auto simp: Wrap_def Let_def DeriveKEK_def split: prod.splits)
qed

lemma wrap_keys_total:
  assumes "smooth H"
  shows "\<exists>es. fst (wrap_keys H cr pass ks b) = Inr es"
proof (induction ks arbitrary: b)
  case (Cons a ks)
  obtain i k where a: "a = (i, k)" by (cases a)
  obtain s iv where d: "bh_draw H (b_draws b) saltLen = Some s"
    "bh_draw H (Suc (b_draws b)) gcmNonceLen = Some iv"
    using assms unfolding smooth_def by blast
  obtain e where e: "Wrap (bh_gcm H) (bh_kdf H) (Some s) (Some iv) k pass = Inr e"
    using Wrap_total assms unfolding smooth_def by blast
  show ?case
    unfolding a wrap_keys.simps
    by (simp add: andThen_def [of "sample H n" for n] sample_def d e)
      (rule exE [OF Cons.IH], erule andThen_total, simp add: give_def)
qed (simp add: give_def)

lemma rewrapAll_total: "smooth H \<Longrightarrow> \<exists>f'. fst (rewrapAll H f mks pass b) = Inr f'"
  unfolding rewrapAll_def by (rule exE [OF wrap_keys_total], assumption, erule andThen_total) (simp add: give_def)

lemma writeEnvelope_total: "smooth H \<Longrightarrow> fst (writeEnvelope H d f b) = Inr ()"
  by (simp add: writeEnvelope_def writeFile_def smooth_def replace_def Let_def split: prod.splits)

lemma seal_total:
  assumes "smooth H"
  shows "fst (andThen (rewrapAll H f mks pass) (\<lambda>f2. andThen (writeEnvelope H d f2) (\<lambda>_. tell l)) b) = Inr ()"
proof -
  obtain f2 where "fst (rewrapAll H f mks pass b) = Inr f2" using rewrapAll_total [OF assms] by blast
  then have "\<exists>y. fst (andThen (rewrapAll H f mks pass) (\<lambda>f2. andThen (writeEnvelope H d f2) (\<lambda>_. tell l)) b) = Inr y"
    by (rule andThen_total) (rule andThen_total [OF writeEnvelope_total [OF assms]], simp add: tell_def)
  then show ?thesis by simp
qed

lemma rotate_key_total:
  assumes "smooth H" and "held H pass f = Some K"
  shows "fst (rotate_key H d f pass b) = Inr ()"
proof -
  from assms(2) obtain mks where u: "unwrapAll H f pass = Inr mks"
    by (auto simp: held_def split: sum.splits)
  obtain k where k: "bh_draw H (b_draws b) MasterKeyLen = Some k" using assms(1) unfolding smooth_def by blast
  have "fst (add_key H f mks b) = Inr (f\<lparr>EF_Current := NextID f\<rparr>, AList.update (NextID f) k mks)"
    by (simp add: add_key_def andThen_def sample_def k NewMasterKey_def give_def)
  then have "\<exists>y. fst (rotate_key H d f pass b) = Inr y"
    unfolding rotate_key_def u lift_def sum.case andThen_give
    by (rule andThen_total) (simp add: seal_total [OF assms(1)])
  then show ?thesis by simp
qed

text \<open>A concrete machine with two keys in its envelope.\<close>

definition demo_kdf :: kdf where
  "demo_kdf pw salt p = replicate 32 CHR ''h''"

definition demo_env :: "int \<Rightarrow> Envelope" where
  "demo_env i =
     (case Wrap demo_aead demo_kdf (Some (replicate 16 CHR ''s'')) (Some (replicate 12 CHR ''i''))
             (replicate 32 CHR ''k'') ''pw'' of
        Inr e \<Rightarrow> e\<lparr>Env_ID := i, Env_Created := ''2025''\<rparr>
      | Inl _ \<Rightarrow> \<lparr>Env_ID = 0, Env_Created = [], Env_KDF = [], Env_Salt = [], Env_Params = DefaultParams,
                  Env_IV = [], Env_Tag = [], Env_Wrapped = []\<rparr>)"

text \<open>A vault with one entry sealed under version 2 without a name.\<close>

definition demo_sealed :: string where
  "demo_sealed =
     (case Seal demo_aead (Some (replicate 12 CHR ''i'')) (replicate 32 CHR ''k'') ''secret'' of
        Inr c \<Rightarrow> c | Inl _ \<Rightarrow> '''')"

definition demo_entry :: SecretEntry where
  "demo_entry = \<lparr>Value = PackVersion 2 demo_sealed, Desc = ''d'', CreatedAt = ''2024'', UpdatedAt = ''2024'',
     KeyEpoch = 2, LenBytes = 6, EntropyBits = 24\<rparr>"

definition demo_vault :: Vault where
  "demo_vault = \<lparr>Vault_Version = 1, Secrets = [(''a'', demo_entry)]\<rparr>"

definition demo_bob :: "EnvelopeFile \<Rightarrow> bob_host" where
  "demo_bob f =
     \<lparr>bh_stdin_tty = False, bh_stamp = ''2026'', bh_times = (\<lambda>n. int n), bh_stampOf = (\<lambda>t. ''t''),
      bh_draw = (\<lambda>i n. Some (replicate n CHR ''r'')), bh_order = (\<lambda>xs. xs), bh_entries = (\<lambda>xs. xs),
      bh_gcm = demo_aead, bh_kdf = demo_kdf, bh_pki = demo_pki, bh_keypair = None, bh_code = None,
      bh_codec = \<lparr>marshal = (\<lambda>v. ''v''), unmarshal = (\<lambda>c. Some demo_vault), marshal_config = (\<lambda>c. ''''),
                  unmarshal_config = (\<lambda>c. None)\<rparr>,
      bh_readEnvelope = (\<lambda>c. WithKeys (Some f)), bh_printEnvelope = (\<lambda>f. ''new''),
      bh_fault = (\<lambda>n. Replaced), bh_vaultFault = NoFault\<rparr>"

definition demo_state :: bob where
  "demo_state =
     \<lparr>b_environ = [''ANB_BOB_PASSWORD=pw'', ''ANB_BOB_NEW_PASSWORD=other''],
      b_disk = (\<lambda>p. if p = ''d/envelope.json'' \<or> p = ''v/vault.json'' then Content ''old'' else Missing),
      b_draws = 0, b_writes = 0, b_stdin = '''', b_typed = [], b_out = []\<rparr>"

definition demo_file :: EnvelopeFile where
  "demo_file = \<lparr>EF_Version = 3, EF_Keys = [demo_env 1, demo_env 2], EF_Current = 2\<rparr>"

lemma demo_bob_ok: "bob_ok (demo_bob f)" and demo_smooth: "smooth (demo_bob f)"
  by (simp_all add: bob_ok_def smooth_def demo_bob_def demo_aead_ok kdf_ok_def demo_kdf_def MasterKeyLen_def)

lemma demo_env_opens:
  "Unwrap demo_aead demo_kdf (demo_env i) ''pw'' = Inr (replicate 32 CHR ''k'') \<and> Env_ID (demo_env i) = i"
proof -
  have "kdf_ok demo_kdf" by (simp add: kdf_ok_def demo_kdf_def MasterKeyLen_def)
  from Wrap_total [OF this] obtain e where
    e: "Wrap demo_aead demo_kdf (Some (replicate 16 CHR ''s'')) (Some (replicate 12 CHR ''i''))
      (replicate 32 CHR ''k'') ''pw'' = Inr e" by blast
  from Unwrap_Wrap [OF demo_aead_ok e] e show ?thesis by (simp add: demo_env_def)
qed

lemma demo_held:
  "\<exists>K. held (demo_bob f) ''pw'' demo_file = Some K \<and> dom K = {1, 2} \<and> K 2 = Some (replicate 32 CHR ''k'')"
proof -
  have "\<forall>e \<in> set [demo_env 1, demo_env 2]. Unwrap demo_aead demo_kdf e ''pw'' = Inr (replicate 32 CHR ''k'')"
    using demo_env_opens by simp
  from unwrap_keys_all [OF this, of "[]"] demo_env_opens show ?thesis
    by (auto simp: held_def unwrapAll_def demo_bob_def demo_file_def dom_def)
qed

lemma demo_load:
  "\<exists>b1. loadAndUnwrapEnvelope (demo_bob demo_file) ''d'' demo_state = (Inr (demo_file, ''pw''), b1)"
proof -
  have p: "fst (masterPassword (demo_bob demo_file) ReadPassword demo_state) = Inr ''pw''"
    by (simp add: demo_state_def masterPassword_def Let_def Getenv_def HasPrefix_def)
  have "exists_file ''d'' ''envelope.json'' (b_disk demo_state)"
    "readFile ''d'' ''envelope.json'' (b_disk demo_state) = Some ''old''" by code_simp+
  moreover have "FindKey demo_file (EF_Current demo_file) = Some (demo_env 2)"
    using demo_env_opens by (simp add: FindKey_def demo_file_def)
  ultimately show ?thesis
    using p demo_env_opens
    by (cases "masterPassword (demo_bob demo_file) ReadPassword demo_state")
      (simp add: loadAndUnwrapEnvelope_def LoadEnvelopeFile_def demo_bob_def andThen_def give_def demo_file_def)
qed

theorem rotation_adds_one_key_witness:
  "\<exists>b' pass K fresh. cmdRotateMasterKey (demo_bob demo_file) [''--dir'', ''d''] demo_state = (Inr (), b') \<and>
    3 \<notin> dom K \<and> seals (demo_bob demo_file) ''d'' (b_disk b') pass (K(3 \<mapsto> fresh)) 3"
proof -
  let ?H = "demo_bob demo_file" and ?a = "[''--dir'', ''d'']"
  have p: "parse_args key_flags ?a = Inr ([(''dir'', ''d'')], [])" by code_simp
  have i: "int_flag [(''dir'', ''d'')] [''finalize''] 0 = 0" by code_simp
  have d: "bobDir (b_environ demo_state) (str_flag [(''dir'', ''d'')] ''dir'' '''') = ''d''" by code_simp
  obtain b1 where l: "loadAndUnwrapEnvelope ?H ''d'' demo_state = (Inr (demo_file, ''pw''), b1)"
    using demo_load by blast
  obtain K where K: "held ?H ''pw'' demo_file = Some K" using demo_held by blast
  obtain b' where b': "rotate_key ?H ''d'' demo_file ''pw'' b1 = (Inr (), b')"
    using rotate_key_total [OF demo_smooth K] by (metis prod.collapse)
  have r: "cmdRotateMasterKey ?H ?a demo_state = (Inr (), b')"
    unfolding cmdRotateMasterKey_def andThen_Inr using p i d l b' by (auto simp: Let_def andThen_Inr)
  from i have i': "int_flag [(''dir'', ''d'')] [''finalize''] 0 \<le> 0" by simp
  from rotation_adds_one_key [OF demo_bob_ok r p i' d [symmetric]] obtain f pass K fresh where
    f: "envelope_of ?H ''d'' (b_disk demo_state) = Some f" and k: "NextID f \<notin> dom K"
    and s: "seals ?H ''d'' (b_disk b') pass (K(NextID f \<mapsto> fresh)) (NextID f)" by blast
  have "NextID demo_file = 3"
    using demo_env_opens by (simp add: NextID_def max_id_def demo_file_def)
  with f load_Inr(1) [OF l] have "NextID f = 3" by simp
  with k s r show ?thesis by metis
qed

text \<open>C18: Changing the master password loses no key. After a successful
  \<open>rotate-master-password\<close> the envelope opens with the new password, which differs from the
  old one, and holds every version under its old key; with \<open>--keep-key\<close> nothing else and the
  same current version, without it one fresh current key under the next id.\<close>

theorem password_rotation_keeps_keys:
  assumes "bob_ok H" and "cmdRotateMasterPassword H args b = (Inr (), b')"
    and "parse_args password_flags args = Inr (ss, pos)"
    and "d = bobDir (b_environ b) (str_flag ss ''dir'' '''')"
  shows "\<exists>f old new K. envelope_of H d (b_disk b) = Some f \<and>
    fst (masterPassword H ReadPassword b) = Inr old \<and> new \<noteq> old \<and> held H old f = Some K \<and>
    (if bool_flag ss ''keep-key'' then seals H d (b_disk b') new K (EF_Current f)
     else \<exists>fresh. length fresh = 32 \<and> NextID f \<notin> dom K \<and>
            seals H d (b_disk b') new (K(NextID f \<mapsto> fresh)) (NextID f))"
proof -
  let ?keep = "bool_flag ss ''keep-key''"
  from assms(2-4) obtain f old b1 new b2 mks f1 mks1 b3 f2 b4 b5 where
    l: "loadAndUnwrapEnvelope H d b = (Inr (f, old), b1)" and ne: "new \<noteq> old"
    and u: "unwrapAll H f old = Inr mks"
    and a: "(if ?keep then give (f, mks) else add_key H f mks) b2 = (Inr (f1, mks1), b3)"
    and r: "rewrapAll H f1 mks1 new b3 = (Inr f2, b4)" and w: "writeEnvelope H d f2 b4 = (Inr (), b5)"
    and b': "b_disk b' = b_disk b5"
    unfolding cmdRotateMasterPassword_def
    by (auto simp: andThen_Inr Let_def check_Inr tell_def simp del: split_paired_Ex)
  note s = unwrapAll_shape [OF u]
  have n: "NextID f \<notin> dom (map_of mks)"
    using NextID_fresh [of f] s(3) by (simp add: dom_map_of_conv_image_fst)
  show ?thesis
  proof (cases ?keep)
    case True
    with a have "f1 = f" "mks1 = mks" by auto
    with reseal [OF assms(1) s(1,2)] r w b' have "seals H d (b_disk b') new (map_of mks) (EF_Current f)" by simp
    with True load_Inr [OF l] ne unwrapAll_held [OF u] show ?thesis by auto
  next
    case False
    with a have "add_key H f mks b2 = (Inr (f1, mks1), b3)" by simp
    note k = add_key_Inr [OF this assms(1) s(1,2)]
    from reseal [OF assms(1) k(3,4) r w] k(1,2) b' have
      "\<exists>fresh. length fresh = 32 \<and> seals H d (b_disk b') new ((map_of mks)(NextID f \<mapsto> fresh)) (NextID f)"
      by auto
    with False load_Inr [OF l] ne unwrapAll_held [OF u] n show ?thesis by auto
  qed
qed

text \<open>A finalization that succeeds was declined, or it has removed the key and written the file.\<close>

lemma doFinalize_Inr:
  assumes "doFinalize H d f pass i yes b = (Inr (), b')"
  shows "i \<noteq> EF_Current f \<and> FindKey f i \<noteq> None \<and>
    (\<not> yes \<and> b_disk b' = b_disk b \<or>
     (\<exists>b2 f1 mks f2 b3 b4. RemoveKey f i = Inr f1 \<and> unwrapAll H f1 pass = Inr mks \<and>
        rewrapAll H f1 mks pass b2 = (Inr f2, b3) \<and> writeEnvelope H d f2 b3 = (Inr (), b4) \<and> b_disk b' = b_disk b4))"
proof -
  let ?rest = "\<lambda>go. if \<not> go then tell NotFinalized
     else (case RemoveKey f i of Inl e \<Rightarrow> fail (EnvelopeRefused e)
       | Inr f1 \<Rightarrow> andThen (lift (unwrapAll H f1 pass)) (\<lambda>mks.
            andThen (rewrapAll H f1 mks pass) (\<lambda>f2. andThen (writeEnvelope H d f2) (\<lambda>_. tell (Finalized i)))))"
  from assms have ne: "i \<noteq> EF_Current f" "FindKey f i \<noteq> None"
    and "andThen (if yes then give True else typed_yes) ?rest b = (Inr (), b')"
    unfolding doFinalize_def andThen_check by simp_all
  then obtain go b2 where go: "(if yes then give True else typed_yes) b = (Inr go, b2)"
    and rest: "?rest go b2 = (Inr (), b')"
    unfolding andThen_Inr by blast
  have "keeps_disk (if yes then give True else typed_yes)" by (simp add: keeps_intros)
  with go have b2: "b_disk b2 = b_disk b" unfolding keeps_disk_def by blast
  show ?thesis
  proof (cases go)
    case False
    with go have "\<not> yes" by auto
    moreover from False rest b2 have "b_disk b' = b_disk b" by (auto simp: tell_def)
    ultimately show ?thesis using ne by blast
  next
    case True
    with rest obtain f1 mks f2 b3 b4 where "RemoveKey f i = Inr f1" "unwrapAll H f1 pass = Inr mks"
      "rewrapAll H f1 mks pass b2 = (Inr f2, b3)" "writeEnvelope H d f2 b3 = (Inr (), b4)" "b_disk b' = b_disk b4"
      by (auto simp: andThen_Inr tell_def split: sum.splits)
    with ne show ?thesis by blast
  qed
qed

text \<open>C19: Retiring a version destroys that key and no other. After a successful
  \<open>rotate-master-key --finalize i\<close> either the operator did not confirm and the file is
  unchanged, or the envelope holds exactly the other versions, the current one among them;
  the version retired was there and was not the current one.\<close>

theorem finalize_retires_one_key:
  assumes "bob_ok H" and "cmdRotateMasterKey H args b = (Inr (), b')"
    and "parse_args key_flags args = Inr (ss, pos)" and "int_flag ss [''finalize''] 0 = i" and "0 < i"
    and "d = bobDir (b_environ b) (str_flag ss ''dir'' '''')"
    and "envelope_of H d (b_disk b) = Some f" and "ef_wf f"
  shows "b_disk b' = b_disk b \<and> \<not> bool_flag ss ''yes'' \<or>
    i \<noteq> EF_Current f \<and> i \<in> Env_ID ` set (EF_Keys f) \<and>
    (\<exists>pass K. fst (masterPassword H ReadPassword b) = Inr pass \<and>
       dom K = Env_ID ` set (EF_Keys f) - {i} \<and> EF_Current f \<in> dom K \<and>
       (\<forall>K0. held H pass f = Some K0 \<longrightarrow> K = K0(i := None)) \<and>
       seals H d (b_disk b') pass K (EF_Current f))"
proof -
  from assms(2-6) obtain f0 pass b1 where l: "loadAndUnwrapEnvelope H d b = (Inr (f0, pass), b1)"
    and fin: "doFinalize H d f0 pass i (bool_flag ss ''yes'') b1 = (Inr (), b')"
    by (auto simp: cmdRotateMasterKey_def andThen_Inr Let_def)
  note L = load_Inr [OF l]
  with assms(7) have "f0 = f" by simp
  note F = doFinalize_Inr [OF fin [unfolded this]]
  show ?thesis
  proof (cases "\<not> bool_flag ss ''yes'' \<and> b_disk b' = b_disk b1")
    case True
    with L(2) show ?thesis by simp
  next
    case False
    with F obtain b2 f1 mks f2 b3 b4 where rm: "RemoveKey f i = Inr f1"
      and u: "unwrapAll H f1 pass = Inr mks" and r: "rewrapAll H f1 mks pass b2 = (Inr f2, b3)"
      and w: "writeEnvelope H d f2 b3 = (Inr (), b4)" and b': "b_disk b' = b_disk b4" by blast
    note s = unwrapAll_shape [OF u]
    from reseal [OF assms(1) s(1,2) r w] RemoveKey_wf [OF assms(8) rm] b'
    have seal: "seals H d (b_disk b') pass (map_of mks) (EF_Current f)" by simp
    have dom: "dom (map_of mks) = Env_ID ` set (EF_Keys f) - {i}"
      using s(3) RemoveKey_wf [OF assms(8) rm] by (simp add: dom_map_of_conv_image_fst)
    have "map_of mks = K0(i := None)" if "held H pass f = Some K0" for K0
      using held_RemoveKey [OF assms(8) rm u that] .
    moreover have "EF_Current f \<in> dom (map_of mks)" using dom F assms(8) by (simp add: ef_wf_def)
    moreover have "i \<in> Env_ID ` set (EF_Keys f)" using F by (simp add: FindKey_None)
    ultimately show ?thesis using seal dom F L(3) by blast
  qed
qed

text \<open>Running the commands on the concrete machine.\<close>

lemma demo_args:
  "parse_args key_flags [''--dir'', ''d'', ''--finalize'', ''1'', ''--yes''] =
     Inr ([(''dir'', ''d''), (''finalize'', ''1''), (''yes'', ''true'')], [])"
  "parse_args key_flags [''--dir'', ''d'', ''--finalize'', ''2''] =
     Inr ([(''dir'', ''d''), (''finalize'', ''2'')], [])"
  "parse_args password_flags [''--dir'', ''d'', ''--keep-key''] = Inr ([(''dir'', ''d''), (''keep-key'', ''true'')], [])"
  by code_simp+

lemma demo_password: "newPassword (demo_bob f) b = (Inr ''other'', b)"
  if "b_environ b = [''ANB_BOB_NEW_PASSWORD=other'']"
  using that by (simp add: newPassword_def Let_def Getenv_def HasPrefix_def)

lemma demo_load_environ:
  "loadAndUnwrapEnvelope (demo_bob demo_file) ''d'' demo_state = (Inr (demo_file, ''pw''), b1) \<Longrightarrow>
     b_environ b1 = [''ANB_BOB_NEW_PASSWORD=other'']"
proof -
  have m: "masterPassword (demo_bob demo_file) ReadPassword demo_state =
      (Inr ''pw'', demo_state\<lparr>b_environ := [''ANB_BOB_NEW_PASSWORD=other'']\<rparr>)"
    by (simp add: demo_state_def masterPassword_def Let_def Getenv_def HasPrefix_def Unsetenv_def)
  have "exists_file ''d'' ''envelope.json'' (b_disk demo_state)"
    "readFile ''d'' ''envelope.json'' (b_disk demo_state) = Some ''old''" by code_simp+
  moreover have "FindKey demo_file (EF_Current demo_file) = Some (demo_env 2)"
    using demo_env_opens by (simp add: FindKey_def demo_file_def)
  moreover have "LoadEnvelopeFile (bh_stamp (demo_bob demo_file)) (bh_readEnvelope (demo_bob demo_file) ''old'') = Inr demo_file"
    by (simp add: LoadEnvelopeFile_def demo_bob_def demo_file_def)
  moreover have "Unwrap (bh_gcm (demo_bob demo_file)) (bh_kdf (demo_bob demo_file)) (demo_env 2) ''pw'' = Inr (replicate 32 CHR ''k'')"
    using demo_env_opens by (simp add: demo_bob_def)
  ultimately show "loadAndUnwrapEnvelope (demo_bob demo_file) ''d'' demo_state = (Inr (demo_file, ''pw''), b1) \<Longrightarrow>
      b_environ b1 = [''ANB_BOB_NEW_PASSWORD=other'']"
    unfolding loadAndUnwrapEnvelope_def by (auto simp: andThen_def m give_def)
qed

theorem password_rotation_keeps_keys_witness:
  "\<exists>b' new K. cmdRotateMasterPassword (demo_bob demo_file) [''--dir'', ''d'', ''--keep-key''] demo_state = (Inr (), b') \<and>
    new \<noteq> ''pw'' \<and> seals (demo_bob demo_file) ''d'' (b_disk b') new K 2"
proof -
  let ?H = "demo_bob demo_file" and ?ss = "[(''dir'', ''d''), (''keep-key'', ''true'')]"
  have d: "bobDir (b_environ demo_state) (str_flag ?ss ''dir'' '''') = ''d''" by code_simp
  have k: "bool_flag ?ss ''keep-key''" by code_simp
  obtain b1 where l: "loadAndUnwrapEnvelope ?H ''d'' demo_state = (Inr (demo_file, ''pw''), b1)"
    using demo_load by blast
  obtain K where "held ?H ''pw'' demo_file = Some K" using demo_held by blast
  then obtain mks where u: "unwrapAll ?H demo_file ''pw'' = Inr mks"
    by (auto simp: held_def split: sum.splits)
  obtain b' where b': "andThen (rewrapAll ?H demo_file mks ''other'') (\<lambda>f2. andThen (writeEnvelope ?H ''d'' f2)
      (\<lambda>_. tell (PasswordRotated True))) b1 = (Inr (), b')"
    using seal_total [OF demo_smooth] by (metis prod.collapse)
  have "newPassword ?H b1 = (Inr ''other'', b1)" using demo_password demo_load_environ [OF l] .
  with b' u have "andThen (newPassword ?H) (\<lambda>newPass. andThen (check (newPass \<noteq> ''pw'') SamePassword) (\<lambda>_.
       andThen (lift (unwrapAll ?H demo_file ''pw'')) (\<lambda>mks.
       andThen (give (demo_file, mks)) (\<lambda>(envFile1, mks1).
       andThen (rewrapAll ?H envFile1 mks1 newPass) (\<lambda>envFile2.
       andThen (writeEnvelope ?H ''d'' envFile2) (\<lambda>_. tell (PasswordRotated True))))))) b1 = (Inr (), b')"
    by (simp add: andThen_def [of "newPassword ?H"] check_def lift_def)
  with l d k demo_args(3) have r: "cmdRotateMasterPassword ?H [''--dir'', ''d'', ''--keep-key''] demo_state = (Inr (), b')"
    unfolding cmdRotateMasterPassword_def andThen_Inr [of "parsed fs as" for fs as]
    by (auto simp: Let_def andThen_Inr [of "loadAndUnwrapEnvelope H d" for H d] simp del: andThen_give)
  from password_rotation_keeps_keys [OF demo_bob_ok r demo_args(3) d [symmetric]] k
  obtain f old new K where f: "envelope_of ?H ''d'' (b_disk demo_state) = Some f"
    "fst (masterPassword ?H ReadPassword demo_state) = Inr old" "new \<noteq> old"
    "seals ?H ''d'' (b_disk b') new K (EF_Current f)" by auto
  with load_Inr [OF l] have "f = demo_file" "old = ''pw''" by simp_all
  with f(3,4) have "new \<noteq> ''pw''" "seals ?H ''d'' (b_disk b') new K 2" by (simp_all add: demo_file_def)
  with r show ?thesis by blast
qed

lemma demo_file_wf: "ef_wf demo_file"
  using demo_env_opens by (simp add: ef_wf_def demo_file_def)

theorem finalize_retires_one_key_witness:
  "\<exists>b' K. cmdRotateMasterKey (demo_bob demo_file) [''--dir'', ''d'', ''--finalize'', ''1'', ''--yes''] demo_state = (Inr (), b') \<and>
    dom K = {2} \<and> seals (demo_bob demo_file) ''d'' (b_disk b') ''pw'' K 2"
proof -
  let ?H = "demo_bob demo_file" and ?ss = "[(''dir'', ''d''), (''finalize'', ''1''), (''yes'', ''true'')]"
  have d: "bobDir (b_environ demo_state) (str_flag ?ss ''dir'' '''') = ''d''" by code_simp
  have i: "int_flag ?ss [''finalize''] 0 = 1" and y: "bool_flag ?ss ''yes''" by code_simp+
  have ids: "Env_ID (demo_env i) = i" for i using demo_env_opens by simp
  obtain b1 where l: "loadAndUnwrapEnvelope ?H ''d'' demo_state = (Inr (demo_file, ''pw''), b1)"
    using demo_load by blast
  have rm: "RemoveKey demo_file 1 = Inr (demo_file\<lparr>EF_Keys := [demo_env 2]\<rparr>)"
    by (simp add: RemoveKey_def demo_file_def ids)
  obtain mks where u: "unwrapAll ?H (demo_file\<lparr>EF_Keys := [demo_env 2]\<rparr>) ''pw'' = Inr mks"
    using demo_env_opens by (simp add: unwrapAll_def demo_bob_def)
  obtain b' where b': "andThen (rewrapAll ?H (demo_file\<lparr>EF_Keys := [demo_env 2]\<rparr>) mks ''pw'')
      (\<lambda>f2. andThen (writeEnvelope ?H ''d'' f2) (\<lambda>_. tell (Finalized 1))) b1 = (Inr (), b')"
    using seal_total [OF demo_smooth] by (metis prod.collapse)
  have "FindKey demo_file 1 \<noteq> None" by (simp add: FindKey_def demo_file_def ids)
  with b' u rm have "doFinalize ?H ''d'' demo_file ''pw'' 1 True b1 = (Inr (), b')"
    unfolding doFinalize_def andThen_check by (simp add: lift_def demo_file_def)
  with l d i y demo_args(1)
  have r: "cmdRotateMasterKey ?H [''--dir'', ''d'', ''--finalize'', ''1'', ''--yes''] demo_state = (Inr (), b')"
    unfolding cmdRotateMasterKey_def andThen_Inr by (auto simp: Let_def andThen_Inr)
  note t = finalize_retires_one_key [OF demo_bob_ok r demo_args(1) i _ d [symmetric] load_Inr(1) [OF l] demo_file_wf]
  have "fst (masterPassword ?H ReadPassword demo_state) = Inr ''pw''" using load_Inr(3) [OF l] .
  with t y r show ?thesis
    by (auto simp: demo_file_def ids)
qed

lemma clean_password:
  "clean_failure (FilepathJoin [d, ''envelope.json''])
     (andThen (loadAndUnwrapEnvelope H d) (\<lambda>(envFile, oldPass).
       andThen (newPassword H) (\<lambda>newPass.
       andThen (check (newPass \<noteq> oldPass) SamePassword) (\<lambda>_.
       andThen (lift (unwrapAll H envFile oldPass)) (\<lambda>mks.
       andThen (if keepKey then give (envFile, mks) else add_key H envFile mks) (\<lambda>(envFile1, mks1).
       andThen (rewrapAll H envFile1 mks1 newPass) (\<lambda>envFile2.
       andThen (writeEnvelope H d envFile2) (\<lambda>_.
       tell (PasswordRotated keepKey)))))))))"
  by (intro clean_andThen keeps_intros) (auto intro!: clean_andThen clean_seal keeps_intros split: prod.split)

text \<open>C20: A rotation that fails leaves the envelope file as it was, whichever step failed: the
  password, an entry that does not open, the random source, or the replacement of the file
  itself.\<close>

theorem failed_rotation_keeps_envelope:
  assumes "cmdRotateMasterPassword H args b = (Inl e, b') \<and> parse_args password_flags args = Inr (ss, pos) \<or>
      cmdRotateMasterKey H args b = (Inl e, b') \<and> parse_args key_flags args = Inr (ss, pos)"
    and "path = FilepathJoin [bobDir (b_environ b) (str_flag ss ''dir'' ''''), ''envelope.json'']"
  shows "b_disk b' path = b_disk b path"
  using assms(1)
proof
  assume "cmdRotateMasterPassword H args b = (Inl e, b') \<and> parse_args password_flags args = Inr (ss, pos)"
  then have p: "parse_args password_flags args = Inr (ss, pos)"
    and c: "cmdRotateMasterPassword H args b = (Inl e, b')" by simp_all
  from clean_password [of "bobDir (b_environ b) (str_flag ss ''dir'' '''')" H "bool_flag ss ''keep-key''"] c
  show ?thesis
    unfolding clean_failure_def cmdRotateMasterPassword_def parsed_def assms(2) p
    by (simp add: Let_def)
next
  assume c: "cmdRotateMasterKey H args b = (Inl e, b') \<and> parse_args key_flags args = Inr (ss, pos)"
  let ?d = "bobDir (b_environ b) (str_flag ss ''dir'' '''')"
  have "clean_failure (FilepathJoin [?d, ''envelope.json''])
      (andThen (loadAndUnwrapEnvelope H ?d) (\<lambda>(f, pass). if 0 < i then doFinalize H ?d f pass i yes
         else rotate_key H ?d f pass))" for i yes
    by (intro clean_andThen keeps_intros) (auto simp: clean_doFinalize clean_rotate_key split: prod.split)
  from this [of "int_flag ss [''finalize''] 0" "bool_flag ss ''yes''"] c show ?thesis
    unfolding clean_failure_def cmdRotateMasterKey_def parsed_def assms(2) conjunct2 [OF c]
    by (simp add: Let_def)
qed

theorem failed_rotation_keeps_envelope_witness:
  "\<exists>b'. cmdRotateMasterKey (demo_bob demo_file) [''--dir'', ''d'', ''--finalize'', ''2''] demo_state =
      (Inl (RetiresCurrent 2), b') \<and> b_disk b' ''d/envelope.json'' = Content ''old''"
proof -
  let ?H = "demo_bob demo_file" and ?ss = "[(''dir'', ''d''), (''finalize'', ''2'')]"
  let ?a = "[''--dir'', ''d'', ''--finalize'', ''2'']"
  have d: "bobDir (b_environ demo_state) (str_flag ?ss ''dir'' '''') = ''d''" by code_simp
  have i: "int_flag ?ss [''finalize''] 0 = 2" by code_simp
  obtain b1 where l: "loadAndUnwrapEnvelope ?H ''d'' demo_state = (Inr (demo_file, ''pw''), b1)"
    using demo_load by blast
  have "FindKey demo_file 2 \<noteq> None" using demo_env_opens by (simp add: FindKey_def demo_file_def)
  then have "doFinalize ?H ''d'' demo_file ''pw'' 2 yes b1 = (Inl (RetiresCurrent 2), b1)" for yes
    by (simp add: doFinalize_def check_def demo_file_def)
  with l d i have r: "cmdRotateMasterKey ?H ?a demo_state = (Inl (RetiresCurrent 2), b1)"
    unfolding cmdRotateMasterKey_def parsed_def demo_args(2)
    by (simp add: Let_def andThen_def [of "loadAndUnwrapEnvelope H d" for H d])
  have p: "''d/envelope.json'' = FilepathJoin [bobDir (b_environ demo_state) (str_flag ?ss ''dir'' ''''), ''envelope.json'']"
    by code_simp
  have "b_disk b1 ''d/envelope.json'' = b_disk demo_state ''d/envelope.json''"
    using r demo_args(2) by (intro failed_rotation_keeps_envelope [OF _ p]) blast
  with r show ?thesis by (auto simp: demo_state_def)
qed

end
