(* ===== verification/Mtls.thy ===== *)
theory Mtls
  imports Prelude
begin

text \<open>
  The TLS configurations of both ends (\<open>internal/mtls/mtls.go\<close>). Parsing of PEM certificates
  and keys is the record \<open>tls_lib\<close>; a configuration keeps what \<open>crypto/tls\<close> acts on.
\<close>

record tls_lib =
  x509_pair :: "bytes \<Rightarrow> bytes \<Rightarrow> bytes option"
  append_certs :: "bytes \<Rightarrow> bytes list option"

datatype client_auth = NoClientAuth | RequireAndVerify

record tls_config =
  Certificates :: "bytes list"
  ClientCAs :: "bytes list"
  RootCAs :: "bytes list"
  TLS_ServerName :: string
  ClientAuthMode :: client_auth
  MinVersion :: nat

definition VersionTLS13 :: nat where "VersionTLS13 = 772"

definition caPool :: "tls_lib \<Rightarrow> bytes \<Rightarrow> bytes list option" where
  "caPool L caPEM = append_certs L caPEM"

definition ServerConfig :: "tls_lib \<Rightarrow> bytes \<Rightarrow> bytes \<Rightarrow> bytes \<Rightarrow> tls_config option" where
  "ServerConfig L serverCertPEM serverKeyPEM caPEM =
     (case x509_pair L serverCertPEM serverKeyPEM of
        None \<Rightarrow> None
      | Some cert \<Rightarrow>
          (case caPool L caPEM of
             None \<Rightarrow> None
           | Some pool \<Rightarrow>
               Some \<lparr>Certificates = [cert], ClientCAs = pool, RootCAs = [], TLS_ServerName = '''',
                     ClientAuthMode = RequireAndVerify, MinVersion = VersionTLS13\<rparr>))"

definition ClientConfig :: "tls_lib \<Rightarrow> bytes \<Rightarrow> bytes \<Rightarrow> bytes \<Rightarrow> string \<Rightarrow> tls_config option" where
  "ClientConfig L clientCertPEM clientKeyPEM caPEM serverName =
     (case x509_pair L clientCertPEM clientKeyPEM of
        None \<Rightarrow> None
      | Some cert \<Rightarrow>
          (case caPool L caPEM of
             None \<Rightarrow> None
           | Some pool \<Rightarrow>
               Some \<lparr>Certificates = [cert], ClientCAs = [], RootCAs = pool, TLS_ServerName = serverName,
                     ClientAuthMode = NoClientAuth, MinVersion = VersionTLS13\<rparr>))"

text \<open>Bob's side always demands a client certificate under the given authority.\<close>

lemma ServerConfig_mutual:
  "ServerConfig L crt key caPEM = Some c \<Longrightarrow>
     ClientAuthMode c = RequireAndVerify \<and> MinVersion c = VersionTLS13 \<and> append_certs L caPEM = Some (ClientCAs c)"
  by (auto simp: ServerConfig_def caPool_def split: option.splits)

end
