(* ===== verification/Bob_Serve.thy ===== *)
theory Bob_Serve
  imports Bob_Rotate Mtls Server
begin

text \<open>
  \<open>bob serve\<close> (\<open>cmd/bob/main.go\<close>): the start-up of the daemon up to the listening server, the
  hand-over to a background process, the audit emitter (\<open>cmd/bob/audit.go\<close>), and the running
  daemon as a transition system of requests, timer callbacks and the shutdown signal.
\<close>

section \<open>The start-up\<close>

text \<open>\<open>time.Duration(ttl) * time.Second\<close>, in 64 bits.\<close>

definition duration_seconds :: "int \<Rightarrow> int" where
  "duration_seconds n = sint (word_of_int (n * 1000000000) :: 64 word)"

text \<open>What the start-up needs besides the machine: the decoding of \<open>authz.json\<close>, the TLS
  library, and whether the listener, the log file and the child process come up.\<close>

record serve_env =
  sh_readPolicy :: "bytes \<Rightarrow> ((string \<Rightarrow> string list option) \<times> (string \<times> int) list) option"
  sh_tls :: tls_lib
  sh_listen :: "string \<Rightarrow> tls_config \<Rightarrow> bool"
  sh_openLog :: "string \<Rightarrow> bool"
  sh_start :: "string list \<Rightarrow> string list \<Rightarrow> string \<Rightarrow> nat option"
    \<comment> \<open>arguments, environment and standard input of the child; its process id. \<open>None\<close>: the
      executable, the pipe or the start fails\<close>

datatype serve_outcome =
    Daemonized nat
  | Serving Server tls_config string "event list"

definition serve_flags :: flag_set where
  "serve_flags =
     [(''dir'', StringFlag), (''addr'', StringFlag), (''ttl'', IntFlag), (''D'', BoolFlag), (''log'', StringFlag),
      (''insecure-allow-all'', BoolFlag)]"

definition required_files :: "string list" where
  "required_files = [''ca.crt'', ''server.crt'', ''server.key'', ''envelope.json'']"

text \<open>The master password: the environment, the parent's pipe, the terminal.\<close>

definition servePassword :: "bob_host \<Rightarrow> bool \<Rightarrow> string bob_op" where
  "servePassword H isChild b =
     (let p = Getenv (b_environ b) ''ANB_BOB_PASSWORD'' in
      if p \<noteq> '''' then (Inr p, b\<lparr>b_environ := Unsetenv ''ANB_BOB_PASSWORD'' (b_environ b)\<rparr>)
      else if isChild then
        (case ReadLine (b_stdin b) of
           (pw, rest) \<Rightarrow>
             (let password = (case pw of None \<Rightarrow> '''' | Some w \<Rightarrow> w) in
              (if password = '''' then Inl NoPasswordFromParent else Inr password, b\<lparr>b_stdin := rest\<rparr>)))
      else if bh_stdin_tty H then prompt_with ReadPassword b
      else (Inl PasswordNeeded, b))"

text \<open>\<open>daemonize\<close>: the same arguments, the environment with the marker, and the password as a
  line on the pipe; the process id file is best effort.\<close>

definition daemonize ::
  "serve_env \<Rightarrow> bob_host \<Rightarrow> string list \<Rightarrow> string \<Rightarrow> string \<Rightarrow> string \<Rightarrow> serve_outcome bob_op" where
  "daemonize S H args dir logPath password b =
     (let lp = (if logPath = '''' then FilepathJoin [dir, ''bob.log''] else logPath) in
      if \<not> sh_openLog S lp then (Inl DaemonFailed, b)
      else
        (case sh_start S args (dedupEnv (b_environ b @ [''_ANB_DAEMON_CHILD=1''])) (password @ [LF]) of
           None \<Rightarrow> (Inl DaemonFailed, b)
         | Some pid \<Rightarrow>
             (case writeFile H dir ''bob.pid'' (Itoa (int pid) @ [LF]) b of
                (_, b') \<Rightarrow> (Inr (Daemonized pid), b'))))"

definition policy_at :: "serve_env \<Rightarrow> string \<Rightarrow> disk \<Rightarrow> policy_file" where
  "policy_at S dir dsk =
     (case dsk (FilepathJoin [dir, ''authz.json'']) of
        Missing \<Rightarrow> PolicyMissing
      | Unopenable \<Rightarrow> PolicyUnreadable
      | Content c \<Rightarrow>
          (case sh_readPolicy S c of None \<Rightarrow> PolicyMalformed | Some (rs, ls) \<Rightarrow> PolicyDecoded rs ls))"

definition warn_allow_all :: event where
  "warn_allow_all = audit ''WARN_ALLOW_ALL''
     [(''msg'', FStr (''no authz.json '' @ [CHR 0xE2, CHR 0x80, CHR 0x94] @ '' running ALLOW-ALL by explicit opt-in '' @
         ''(--insecure-allow-all); every authenticated client may access every key''))]"

definition listening ::
  "serve_env \<Rightarrow> bob_host \<Rightarrow> string \<Rightarrow> settings \<Rightarrow> EnvelopeFile \<Rightarrow> string \<Rightarrow> serve_outcome bob_op" where
  "listening S H d ss envFile password =
     andThen (lift (unwrapAll H envFile password)) (\<lambda>mks b.
       case OpenOrDefault (policy_at S d (b_disk b)) of
         Inl e \<Rightarrow> (Inl PolicyRefused, b)
       | Inr policy \<Rightarrow>
           if DefaultAllow policy \<and> \<not> bool_flag ss ''insecure-allow-all'' \<and>
              Getenv (b_environ b) ''ANB_BOB_ALLOW_ALL'' \<noteq> ''1''
           then (Inl PolicyAbsent, b)
           else
             (let store = HoldMulti (bh_times H 0) mks (EF_Current envFile)
                            (duration_seconds (int_flag ss [''ttl''] 0)) NewStore;
                  addr = str_flag ss ''addr'' '':8443''
              in case ServerConfig (sh_tls S) (bytes_at d ''server.crt'' (b_disk b))
                        (bytes_at d ''server.key'' (b_disk b)) (bytes_at d ''ca.crt'' (b_disk b)) of
                   None \<Rightarrow> (Inl TLSFailed, b)
                 | Some cfg \<Rightarrow>
                     if \<not> sh_listen S addr cfg then (Inl ListenFailed, b)
                     else
                       (Inr (Serving (NewServer store policy) cfg addr
                               ((if DefaultAllow policy then [warn_allow_all] else []) @
                                [audit ''SERVING'' [(''addr'', FStr addr), (''dir'', FStr d)]])), b)))"

definition cmdServe :: "serve_env \<Rightarrow> bob_host \<Rightarrow> string list \<Rightarrow> serve_outcome bob_op" where
  "cmdServe S H args b =
     andThen (parsed serve_flags args) (\<lambda>(ss, pos).
       let isChild = (Getenv (b_environ b) ''_ANB_DAEMON_CHILD'' = ''1'');
           d = bobDir (b_environ b) (str_flag ss ''dir'' '''')
       in case find (\<lambda>f. \<not> exists_file d f (b_disk b)) required_files of
            Some f \<Rightarrow> fail (NotThere f)
          | None \<Rightarrow>
              (case LoadEnvelopeFile (bh_stamp H) (bh_readEnvelope H (bytes_at d ''envelope.json'' (b_disk b))) of
                 Inl e \<Rightarrow> fail (BadEnvelope e)
               | Inr envFile \<Rightarrow>
                   andThen (servePassword H isChild) (\<lambda>password.
                     if bool_flag ss ''D'' \<and> \<not> isChild then
                       (case FindKey envFile (EF_Current envFile) of
                          None \<Rightarrow> fail (NoCurrentKey (EF_Current envFile))
                        | Some cur \<Rightarrow>
                            (case Unwrap (bh_gcm H) (bh_kdf H) cur password of
                               Inl e \<Rightarrow> fail (CryptoFailed e)
                             | Inr mk \<Rightarrow> daemonize S H (''serve'' # args) d (str_flag ss ''log'' '''') password))
                     else listening S H d ss envFile password))) b"

section \<open>What a start leaves in place\<close>

lemma Getenv_Unsetenv:
  assumes "n \<noteq> m" and "CHR ''='' \<notin> set n" and "CHR ''='' \<notin> set m"
  shows "Getenv (Unsetenv m environ) n = Getenv environ n"
proof -
  have "find (binds n) (Unsetenv m environ) = find (binds n) environ"
    unfolding Unsetenv_def using assms
    by (intro find_filter) (auto simp: binds_def HasPrefix_def name_prefix_iff)
  then show ?thesis by (simp add: Getenv_binds)
qed

lemma Unsetenv_gone: "n \<noteq> [] \<Longrightarrow> find (binds n) (Unsetenv n environ) = None"
  by (auto simp: find_None_iff Unsetenv_def binds_def HasPrefix_def)

definition same_but_password :: "bob \<Rightarrow> bob \<Rightarrow> bool" where
  "same_but_password b b' \<longleftrightarrow> b_disk b' = b_disk b \<and> b_environ b' \<in> {b_environ b, Unsetenv ''ANB_BOB_PASSWORD'' (b_environ b)}"

lemma prompt_with_frame: "prompt_with r b = (x, b') \<Longrightarrow> b_disk b' = b_disk b \<and> b_environ b' = b_environ b"
  by (auto simp: prompt_with_def split: prod.splits option.splits)

lemma servePassword_frame: "servePassword H c b = (x, b') \<Longrightarrow> same_but_password b b'"
  by (auto simp: servePassword_def same_but_password_def Let_def split: if_splits prod.splits dest: prompt_with_frame)

text \<open>A start that gets as far as the password.\<close>

lemma cmdServe_Inr:
  assumes "cmdServe S H args b = (Inr out, b')"
  obtains ss pos f password b1 where "parse_args serve_flags args = Inr (ss, pos)"
    and "LoadEnvelopeFile (bh_stamp H) (bh_readEnvelope H
      (bytes_at (bobDir (b_environ b) (str_flag ss ''dir'' '''')) ''envelope.json'' (b_disk b))) = Inr f"
    and "servePassword H (Getenv (b_environ b) ''_ANB_DAEMON_CHILD'' = ''1'') b = (Inr password, b1)"
    and "same_but_password b b1"
    and "if bool_flag ss ''D'' \<and> Getenv (b_environ b) ''_ANB_DAEMON_CHILD'' \<noteq> ''1''
      then \<exists>cur mk. FindKey f (EF_Current f) = Some cur \<and> Unwrap (bh_gcm H) (bh_kdf H) cur password = Inr mk \<and>
        daemonize S H (''serve'' # args) (bobDir (b_environ b) (str_flag ss ''dir'' '''')) (str_flag ss ''log'' '''')
          password b1 = (Inr out, b')
      else listening S H (bobDir (b_environ b) (str_flag ss ''dir'' '''')) ss f password b1 = (Inr out, b')"
proof -
  let ?child = "Getenv (b_environ b) ''_ANB_DAEMON_CHILD'' = ''1''"
  from assms obtain ss pos where p: "parse_args serve_flags args = Inr (ss, pos)"
    unfolding cmdServe_def andThen_Inr by auto
  let ?d = "bobDir (b_environ b) (str_flag ss ''dir'' '''')"
  let ?go = "\<lambda>f password. if bool_flag ss ''D'' \<and> \<not> ?child then
       (case FindKey f (EF_Current f) of None \<Rightarrow> fail (NoCurrentKey (EF_Current f))
        | Some cur \<Rightarrow> (case Unwrap (bh_gcm H) (bh_kdf H) cur password of Inl e \<Rightarrow> fail (CryptoFailed e)
            | Inr mk \<Rightarrow> daemonize S H (''serve'' # args) ?d (str_flag ss ''log'' '''') password))
     else listening S H ?d ss f password"
  from assms p obtain f where none: "find (\<lambda>f. \<not> exists_file ?d f (b_disk b)) required_files = None"
    and l: "LoadEnvelopeFile (bh_stamp H) (bh_readEnvelope H (bytes_at ?d ''envelope.json'' (b_disk b))) = Inr f"
    and g: "andThen (servePassword H ?child) (?go f) b = (Inr out, b')"
    unfolding cmdServe_def andThen_Inr [of "parsed fs as" for fs as]
    by (auto simp: Let_def split: option.splits sum.splits)
  from g obtain password b1 where s: "servePassword H ?child b = (Inr password, b1)"
    and g1: "?go f password b1 = (Inr out, b')" unfolding andThen_Inr by blast
  show thesis
    by (rule that [OF p l s servePassword_frame [OF s]])
      (use g1 in \<open>auto split: option.splits sum.splits if_splits\<close>)
qed

lemma listening_Inr:
  assumes "listening S H d ss f password b = (Inr out, b')"
  obtains mks policy cfg where "unwrapAll H f password = Inr mks"
    and "OpenOrDefault (policy_at S d (b_disk b)) = Inr policy"
    and "DefaultAllow policy \<longrightarrow> bool_flag ss ''insecure-allow-all'' \<or> Getenv (b_environ b) ''ANB_BOB_ALLOW_ALL'' = ''1''"
    and "ServerConfig (sh_tls S) (bytes_at d ''server.crt'' (b_disk b)) (bytes_at d ''server.key'' (b_disk b))
      (bytes_at d ''ca.crt'' (b_disk b)) = Some cfg"
    and "out = Serving (NewServer (HoldMulti (bh_times H 0) mks (EF_Current f)
        (duration_seconds (int_flag ss [''ttl''] 0)) NewStore) policy) cfg (str_flag ss ''addr'' '':8443'')
      ((if DefaultAllow policy then [warn_allow_all] else []) @
       [audit ''SERVING'' [(''addr'', FStr (str_flag ss ''addr'' '':8443'')), (''dir'', FStr d)]])"
proof -
  let ?open = "\<lambda>policy. DefaultAllow policy \<longrightarrow>
    bool_flag ss ''insecure-allow-all'' \<or> Getenv (b_environ b) ''ANB_BOB_ALLOW_ALL'' = ''1''"
  let ?cfg = "ServerConfig (sh_tls S) (bytes_at d ''server.crt'' (b_disk b)) (bytes_at d ''server.key'' (b_disk b))
      (bytes_at d ''ca.crt'' (b_disk b))"
  from assms obtain mks where u: "unwrapAll H f password = Inr mks"
    unfolding listening_def andThen_Inr by auto
  from assms u obtain policy where p: "OpenOrDefault (policy_at S d (b_disk b)) = Inr policy"
    by (auto simp: listening_def andThen_def lift_def split: sum.splits)
  from assms u p have o: "?open policy"
    by (auto simp: listening_def andThen_def lift_def split: if_splits)
  from assms u p o obtain cfg where c: "?cfg = Some cfg"
    by (cases ?cfg) (auto simp: listening_def andThen_def lift_def split: if_splits)
  show thesis
    by (rule that [OF u p o c])
      (use assms u p o c in \<open>auto simp: listening_def andThen_def lift_def Let_def split: if_splits\<close>)
qed

lemma default_allow_missing:
  "OpenOrDefault (policy_at S d dsk) = Inr p \<Longrightarrow> DefaultAllow p \<Longrightarrow> dsk (FilepathJoin [d, ''authz.json'']) = Missing"
  by (auto simp: OpenOrDefault_def policy_at_def split: file_bytes.splits option.splits prod.splits)

lemma same_but_password_env:
  "same_but_password b b1 \<Longrightarrow> n \<noteq> ''ANB_BOB_PASSWORD'' \<Longrightarrow> CHR ''='' \<notin> set n \<Longrightarrow>
     Getenv (b_environ b1) n = Getenv (b_environ b) n"
  by (auto simp: same_but_password_def Getenv_Unsetenv)

lemma not_daemonized: "daemonize S H args d lp pw b \<noteq> (Inr (Serving sv cfg addr evs), b')"
  by (auto simp: daemonize_def Let_def split: if_splits option.splits prod.splits)

lemma not_serving: "listening S H d ss f pw b \<noteq> (Inr (Daemonized pid), b')"
  by (auto elim: listening_Inr)

lemma cmdServe_Serving:
  assumes "cmdServe S H args b = (Inr (Serving sv cfg addr evs), b')"
    and "parse_args serve_flags args = Inr (ss, pos)"
    and "d = bobDir (b_environ b) (str_flag ss ''dir'' '''')"
  shows "ClientAuthMode cfg = RequireAndVerify \<and> MinVersion cfg = VersionTLS13 \<and>
      append_certs (sh_tls S) (bytes_at d ''ca.crt'' (b_disk b)) = Some (ClientCAs cfg)"
    and "OpenOrDefault (policy_at S d (b_disk b)) = Inr (sv_policy sv) \<and>
      (DefaultAllow (sv_policy sv) \<longrightarrow> b_disk b (FilepathJoin [d, ''authz.json'']) = Missing \<and>
         (bool_flag ss ''insecure-allow-all'' \<or> Getenv (b_environ b) ''ANB_BOB_ALLOW_ALL'' = ''1'') \<and> warn_allow_all \<in> set evs)"
    and "\<exists>f password mks.
      LoadEnvelopeFile (bh_stamp H) (bh_readEnvelope H (bytes_at d ''envelope.json'' (b_disk b))) = Inr f \<and>
      unwrapAll H f password = Inr mks \<and> fst ` set mks = Env_ID ` set (EF_Keys f) \<and>
      sv_store sv = HoldMulti (bh_times H 0) mks (EF_Current f) (duration_seconds (int_flag ss [''ttl''] 0)) NewStore"
proof -
  from assms(1) obtain f password b1 where f: "LoadEnvelopeFile (bh_stamp H)
      (bh_readEnvelope H (bytes_at d ''envelope.json'' (b_disk b))) = Inr f"
    and b1: "same_but_password b b1" and l: "listening S H d ss f password b1 = (Inr (Serving sv cfg addr evs), b')"
    by (rule cmdServe_Inr) (use assms(2,3) not_daemonized in \<open>auto split: if_splits\<close>)
  from b1 have dsk: "b_disk b1 = b_disk b" by (simp add: same_but_password_def)
  have env: "Getenv (b_environ b1) ''ANB_BOB_ALLOW_ALL'' = Getenv (b_environ b) ''ANB_BOB_ALLOW_ALL''"
    using b1 by (rule same_but_password_env) simp_all
  from l obtain mks policy where u: "unwrapAll H f password = Inr mks"
    and p: "OpenOrDefault (policy_at S d (b_disk b)) = Inr policy"
    and o: "DefaultAllow policy \<longrightarrow> bool_flag ss ''insecure-allow-all'' \<or> Getenv (b_environ b) ''ANB_BOB_ALLOW_ALL'' = ''1''"
    and c: "ServerConfig (sh_tls S) (bytes_at d ''server.crt'' (b_disk b)) (bytes_at d ''server.key'' (b_disk b))
      (bytes_at d ''ca.crt'' (b_disk b)) = Some cfg"
    and sv: "sv = NewServer (HoldMulti (bh_times H 0) mks (EF_Current f)
        (duration_seconds (int_flag ss [''ttl''] 0)) NewStore) policy"
    and evs: "DefaultAllow policy \<longrightarrow> warn_allow_all \<in> set evs"
    by (rule listening_Inr) (simp add: dsk env)
  show "ClientAuthMode cfg = RequireAndVerify \<and> MinVersion cfg = VersionTLS13 \<and>
      append_certs (sh_tls S) (bytes_at d ''ca.crt'' (b_disk b)) = Some (ClientCAs cfg)"
    using ServerConfig_mutual [OF c] .
  show "OpenOrDefault (policy_at S d (b_disk b)) = Inr (sv_policy sv) \<and>
      (DefaultAllow (sv_policy sv) \<longrightarrow> b_disk b (FilepathJoin [d, ''authz.json'']) = Missing \<and>
         (bool_flag ss ''insecure-allow-all'' \<or> Getenv (b_environ b) ''ANB_BOB_ALLOW_ALL'' = ''1'') \<and> warn_allow_all \<in> set evs)"
    using p o evs default_allow_missing [OF p] by (simp add: sv NewServer_def)
  show "\<exists>f password mks.
      LoadEnvelopeFile (bh_stamp H) (bh_readEnvelope H (bytes_at d ''envelope.json'' (b_disk b))) = Inr f \<and>
      unwrapAll H f password = Inr mks \<and> fst ` set mks = Env_ID ` set (EF_Keys f) \<and>
      sv_store sv = HoldMulti (bh_times H 0) mks (EF_Current f) (duration_seconds (int_flag ss [''ttl''] 0)) NewStore"
    using f u unwrapAll_shape(3) [OF u] sv by (auto simp: NewServer_def)
qed

section \<open>Properties\<close>

text \<open>C9: A daemon that starts serving demands TLS 1.3 with a client certificate under the
  authority of \<open>ca.crt\<close>, and follows the policy of \<open>authz.json\<close>. It lets every client do
  everything only when that file is missing and the operator asked for it, by the flag or by
  \<open>ANB_BOB_ALLOW_ALL=1\<close>, and then the log says so. Its store is what one password opens of
  the envelope file, all of it.\<close>

theorem serve_fails_closed:
  assumes "cmdServe S H args b = (Inr (Serving sv cfg addr evs), b')"
    and "parse_args serve_flags args = Inr (ss, pos)"
    and "d = bobDir (b_environ b) (str_flag ss ''dir'' '''')"
  shows "(ClientAuthMode cfg = RequireAndVerify \<and> MinVersion cfg = VersionTLS13 \<and>
      append_certs (sh_tls S) (bytes_at d ''ca.crt'' (b_disk b)) = Some (ClientCAs cfg)) \<and>
    (OpenOrDefault (policy_at S d (b_disk b)) = Inr (sv_policy sv) \<and>
      (DefaultAllow (sv_policy sv) \<longrightarrow> b_disk b (FilepathJoin [d, ''authz.json'']) = Missing \<and>
         (bool_flag ss ''insecure-allow-all'' \<or> Getenv (b_environ b) ''ANB_BOB_ALLOW_ALL'' = ''1'') \<and> warn_allow_all \<in> set evs)) \<and>
    (\<exists>f password mks.
      LoadEnvelopeFile (bh_stamp H) (bh_readEnvelope H (bytes_at d ''envelope.json'' (b_disk b))) = Inr f \<and>
      unwrapAll H f password = Inr mks \<and> fst ` set mks = Env_ID ` set (EF_Keys f) \<and>
      sv_store sv = HoldMulti (bh_times H 0) mks (EF_Current f) (duration_seconds (int_flag ss [''ttl''] 0)) NewStore)"
  using cmdServe_Serving [OF assms] by blast

text \<open>A machine with everything in place, and a policy for one client.\<close>

definition demo_serve :: serve_env where
  "demo_serve =
     \<lparr>sh_readPolicy = (\<lambda>c. Some ([''al'' \<mapsto> [''a'']], [])),
      sh_tls = \<lparr>x509_pair = (\<lambda>c k. Some c), append_certs = (\<lambda>ca. Some [ca])\<rparr>,
      sh_listen = (\<lambda>addr cfg. True), sh_openLog = (\<lambda>p. True), sh_start = (\<lambda>args env inp. Some 77)\<rparr>"

definition demo_served :: bob where
  "demo_served = demo_state\<lparr>b_disk := (\<lambda>p.
     if p \<in> {''d/envelope.json'', ''d/ca.crt'', ''d/server.crt'', ''d/server.key'', ''d/authz.json''}
     then Content ''old'' else Missing)\<rparr>"

lemma demo_served_start:
  "parse_args serve_flags [''--dir'', ''d''] = Inr ([(''dir'', ''d'')], [])"
  "parse_args serve_flags [''--dir'', ''d'', ''-D''] = Inr ([(''dir'', ''d''), (''D'', ''true'')], [])"
  "bobDir (b_environ demo_served) ''d'' = ''d''"
  "find (\<lambda>f. \<not> exists_file ''d'' f (b_disk demo_served)) required_files = None"
  "Getenv (b_environ demo_served) ''_ANB_DAEMON_CHILD'' = ''''"
  by code_simp+

lemma demo_served_password:
  "servePassword (demo_bob f) c demo_served =
     (Inr ''pw'', demo_served\<lparr>b_environ := [''ANB_BOB_NEW_PASSWORD=other'']\<rparr>)"
  by (simp add: demo_served_def demo_state_def servePassword_def Let_def Getenv_def HasPrefix_def Unsetenv_def)

lemma demo_served_loads:
  "LoadEnvelopeFile (bh_stamp (demo_bob demo_file)) (bh_readEnvelope (demo_bob demo_file) c) = Inr demo_file"
  by (simp add: LoadEnvelopeFile_def demo_bob_def demo_file_def)

lemma demo_serving:
  "\<exists>mks. unwrapAll (demo_bob demo_file) demo_file ''pw'' = Inr mks \<and>
     cmdServe demo_serve (demo_bob demo_file) [''--dir'', ''d''] demo_served =
       (Inr (Serving (NewServer (HoldMulti 0 mks 2 0 NewStore)
           \<lparr>Rules = [''al'' \<mapsto> [''a'']], RateLimits = [], DefaultAllow = False\<rparr>)
         \<lparr>Certificates = [''old''], ClientCAs = [''old''], RootCAs = [], TLS_ServerName = '''',
          ClientAuthMode = RequireAndVerify, MinVersion = VersionTLS13\<rparr> '':8443''
         [audit ''SERVING'' [(''addr'', FStr '':8443''), (''dir'', FStr ''d'')]]),
        demo_served\<lparr>b_environ := [''ANB_BOB_NEW_PASSWORD=other'']\<rparr>)"
proof -
  obtain mks where u: "unwrapAll (demo_bob demo_file) demo_file ''pw'' = Inr mks"
    using demo_held [of demo_file] by (auto simp: held_def split: sum.splits)
  have b: "bytes_at ''d'' ''ca.crt'' (b_disk demo_served) = ''old''" "bytes_at ''d'' ''server.crt'' (b_disk demo_served) = ''old''"
    "bytes_at ''d'' ''server.key'' (b_disk demo_served) = ''old''"
    "b_disk demo_served (FilepathJoin [''d'', ''authz.json'']) = Content ''old''"
    "str_flag [(''dir'', ''d'')] ''dir'' '''' = ''d''" "str_flag [(''dir'', ''d'')] ''addr'' '':8443'' = '':8443''"
    "int_flag [(''dir'', ''d'')] [''ttl''] 0 = 0" "bool_flag [(''dir'', ''d'')] ''D'' = False"
    "duration_seconds 0 = 0" by code_simp+
  from u b have "listening demo_serve (demo_bob demo_file) ''d'' [(''dir'', ''d'')] demo_file ''pw''
      (demo_served\<lparr>b_environ := [''ANB_BOB_NEW_PASSWORD=other'']\<rparr>) =
    (Inr (Serving (NewServer (HoldMulti 0 mks 2 0 NewStore)
           \<lparr>Rules = [''al'' \<mapsto> [''a'']], RateLimits = [], DefaultAllow = False\<rparr>)
         \<lparr>Certificates = [''old''], ClientCAs = [''old''], RootCAs = [], TLS_ServerName = '''',
          ClientAuthMode = RequireAndVerify, MinVersion = VersionTLS13\<rparr> '':8443''
         [audit ''SERVING'' [(''addr'', FStr '':8443''), (''dir'', FStr ''d'')]]),
        demo_served\<lparr>b_environ := [''ANB_BOB_NEW_PASSWORD=other'']\<rparr>)"
    by (simp add: listening_def lift_def policy_at_def OpenOrDefault_def ServerConfig_def caPool_def demo_serve_def
        Let_def, simp add: demo_bob_def demo_file_def)
  with u b show ?thesis
    by (simp add: cmdServe_def parsed_def Let_def demo_served_start demo_served_loads
        andThen_def [of "servePassword H c" for H c] demo_served_password)
qed

theorem serve_fails_closed_witness:
  "\<exists>sv cfg evs b'. cmdServe demo_serve (demo_bob demo_file) [''--dir'', ''d''] demo_served =
      (Inr (Serving sv cfg '':8443'' evs), b') \<and>
    \<not> DefaultAllow (sv_policy sv) \<and> ClientCAs cfg = [''old''] \<and> ClientAuthMode cfg = RequireAndVerify"
proof -
  have d: "''d'' = bobDir (b_environ demo_served) (str_flag [(''dir'', ''d'')] ''dir'' '''')" by code_simp
  obtain sv cfg evs b' where s: "cmdServe demo_serve (demo_bob demo_file) [''--dir'', ''d''] demo_served =
      (Inr (Serving sv cfg '':8443'' evs), b')"
    using demo_serving by blast
  have a: "b_disk demo_served (FilepathJoin [''d'', ''authz.json'']) \<noteq> Missing"
    "append_certs (sh_tls demo_serve) (bytes_at ''d'' ''ca.crt'' (b_disk demo_served)) = Some [''old'']"
    by code_simp+
  from serve_fails_closed [OF s demo_served_start(1) d] a
  have "\<not> DefaultAllow (sv_policy sv) \<and> ClientCAs cfg = [''old''] \<and> ClientAuthMode cfg = RequireAndVerify"
    by auto
  with s show ?thesis by blast
qed

lemma readLine_line: "readLine (w @ [LF]) =
    (takeWhile (\<lambda>c. c \<noteq> LF) w, False, drop (Suc (length (takeWhile (\<lambda>c. c \<noteq> LF) w))) (w @ [LF]))"
proof -
  have "IndexByte (w @ [LF]) LF = Some (length (takeWhile (\<lambda>c. c \<noteq> LF) w))"
    by (induction w) auto
  moreover have "take (length (takeWhile (\<lambda>c. c \<noteq> LF) w)) (w @ [LF]) = takeWhile (\<lambda>c. c \<noteq> LF) w"
    by (induction w) auto
  ultimately show ?thesis by (simp add: readLine_def)
qed

lemma takeWhile_no: "c \<notin> set w \<Longrightarrow> takeWhile (\<lambda>x. x \<noteq> c) w = w"
  by (induction w) auto

lemma child_password:
  assumes "Getenv (b_environ child) ''ANB_BOB_PASSWORD'' = ''''" and "b_stdin child = w @ [LF]"
  shows "fst (servePassword H True child) =
    (let p = TrimRight (takeWhile (\<lambda>c. c \<noteq> LF) w) [CR, LF] in if p = '''' then Inl NoPasswordFromParent else Inr p)"
  by (simp add: servePassword_def assms ReadLine_def readLine_line Let_def)

lemma TrimRight_id: "s = [] \<or> last s \<notin> set cs \<Longrightarrow> TrimRight s cs = s"
  by (cases s rule: rev_cases) (auto simp: TrimRight_def)

text \<open>A password without line breaks is what the child reads, and no password stays in the environment.\<close>

lemma trimmed_password:
  assumes "LF \<notin> set password" and "password \<noteq> ''''" and "last password \<noteq> CR"
  shows "TrimRight (takeWhile (\<lambda>c. c \<noteq> LF) password) [CR, LF] = password"
proof -
  from assms(1,2) have "last password \<noteq> LF" by (metis last_in_set)
  then have "last password \<notin> set [CR, LF]" using assms(3) by simp
  then show ?thesis unfolding takeWhile_no [OF assms(1)] by (intro TrimRight_id) blast
qed

lemma servePassword_gone:
  assumes "servePassword H c b = (Inr password, b1)"
    and "\<forall>kv \<in> set (b_environ b). binds ''ANB_BOB_PASSWORD'' kv \<longrightarrow> Getenv (b_environ b) ''ANB_BOB_PASSWORD'' \<noteq> ''''"
  shows "find (binds ''ANB_BOB_PASSWORD'') (b_environ b1) = None"
proof (cases "Getenv (b_environ b) ''ANB_BOB_PASSWORD'' = ''''")
  case True
  with assms(1) have "b_environ b1 = b_environ b"
    by (auto simp: servePassword_def Let_def split: if_splits prod.splits dest: prompt_with_frame)
  with assms(2) True show ?thesis by (auto simp: find_None_iff)
next
  case False
  with assms(1) show ?thesis by (auto simp: servePassword_def Let_def Unsetenv_gone)
qed



end
