(* ===== verification/Bob_Daemon.thy ===== *)
theory Bob_Daemon
  imports Bob_Serve
begin

text \<open>
  The running daemon of \<open>cmd/bob\<close>: the audit emitter (\<open>audit.go\<close>), and the process that
  \<open>cmdServe\<close> leaves behind (\<open>main.go\<close>), a transition system of requests, timer callbacks and
  the goroutine that shuts it down on a signal.
\<close>

section \<open>The audit emitter\<close>

text \<open>The payload of an event: the variadic arguments alternate names and values. A pair
  whose name is no string is skipped, a name without a value is dropped, a repeated name
  keeps its last value.\<close>

fun put_fields :: "field list \<Rightarrow> (string \<times> field) list \<Rightarrow> (string \<times> field) list" where
  "put_fields (FStr k # v # kv) payload = put_fields kv (AList.update k v payload)"
| "put_fields (x # v # kv) payload = put_fields kv payload"
| "put_fields kv payload = payload"

text \<open>\<open>encode\<close> is \<open>json.Marshal\<close>, \<open>q\<close> the \<open>%q\<close> verb of package fmt. The result is what one
  call writes.\<close>

definition newJSONEmitter ::
  "((string \<times> field) list \<Rightarrow> string + bytes) \<Rightarrow> (string \<Rightarrow> string) \<Rightarrow> string \<Rightarrow> string \<Rightarrow> field list \<Rightarrow> bytes" where
  "newJSONEmitter encode q ts kind kv =
     (let payload = put_fields kv (AList.update ''kind'' (FStr kind) (AList.update ''ts'' (FStr ts) []));
          b = (case encode payload of
                 Inr b \<Rightarrow> b
               | Inl err \<Rightarrow> ''{\"ts\":'' @ q ts @ '',\"kind\":\"AUDIT_ENCODE_FAIL\",\"err\":'' @ q err @ ''}'')
      in b @ [LF])"

text \<open>An event of the server as the arguments of a call.\<close>

definition call_of :: "event \<Rightarrow> field list" where
  "call_of e = concat (map (\<lambda>(k, v). [FStr k, v]) (ev_fields e))"

lemma put_fields_call:
  "put_fields (concat (map (\<lambda>(k, v). [FStr k, v]) kvs)) p = fold (\<lambda>(k, v). AList.update k v) kvs p"
  by (induction kvs arbitrary: p) auto

lemma put_fields_get:
  "map_of (put_fields (call_of e) p) k =
     (case map_of (rev (ev_fields e)) k of None \<Rightarrow> map_of p k | Some v \<Rightarrow> Some v)"
proof -
  have "map_of (fold (\<lambda>(k, v). AList.update k v) kvs p) k =
      (case map_of (rev kvs) k of None \<Rightarrow> map_of p k | Some v \<Rightarrow> Some v)" for kvs :: "(string \<times> field) list"
    by (induction kvs arbitrary: p) (auto simp: update_conv' map_add_def split: option.splits)
  then show ?thesis by (simp add: call_of_def put_fields_call)
qed

section \<open>The process\<close>

text \<open>
  What other goroutines do to the store while a request is under way: requests of other
  connections, the idle timer, the shutdown. Each takes the mutex for one operation.
\<close>

inductive background :: "aead \<Rightarrow> (Store \<Rightarrow> Store) \<Rightarrow> bool" for G where
  bg_idle: "background G (\<lambda>s. s)"
| bg_encrypt: "background G f \<Longrightarrow> background G (\<lambda>s. snd (Encrypt G rnd t name p (f s)))"
| bg_decrypt: "background G f \<Longrightarrow> background G (\<lambda>s. snd (Decrypt G rnd t name packed (f s)))"
| bg_fired: "background G f \<Longrightarrow> background G (\<lambda>s. (f s)\<lparr>st_timer := None\<rparr>)"
| bg_timer: "background G f \<Longrightarrow> background G (\<lambda>s. fst (onTimer (f s)))"
| bg_shutdown: "background G f \<Longrightarrow> background G (\<lambda>s. Zeroize (f s))"

definition possible :: "aead \<Rightarrow> world \<Rightarrow> bool" where
  "possible G w \<longleftrightarrow> (\<forall>n. background G (w_other w n))"

text \<open>How far the shutdown goroutine is.\<close>

datatype shutdown = Waiting | Announced | Wiped | Closed

record daemon =
  dm_server :: Server
  dm_shutdown :: shutdown
  dm_pending :: nat
  dm_log :: "event list"
  dm_sent :: "(string \<times> Response) list"

definition AUTOLOCK :: event where
  "AUTOLOCK = audit ''AUTOLOCK''
     [(''msg'', FStr ''master key auto-locked (idle TTL); restart serve to unlock'')]"

definition booted :: "Server \<Rightarrow> event list \<Rightarrow> daemon" where
  "booted sv evs = \<lparr>dm_server = sv, dm_shutdown = Waiting, dm_pending = 0, dm_log = evs, dm_sent = []\<rparr>"

text \<open>What the process does on its own: the idle timer, and the goroutine that waits for a signal.\<close>

inductive own_step :: "daemon \<Rightarrow> daemon \<Rightarrow> bool" where
  dm_fire: "st_timer (sv_store (dm_server d)) = Some t \<Longrightarrow>
    own_step d (d\<lparr>dm_server := (dm_server d)\<lparr>sv_store := (sv_store (dm_server d))\<lparr>st_timer := None\<rparr>\<rparr>,
      dm_pending := Suc (dm_pending d)\<rparr>)"
| dm_autolock: "dm_pending d = Suc n \<Longrightarrow> onTimer (sv_store (dm_server d)) = (s, locked) \<Longrightarrow>
    own_step d (d\<lparr>dm_server := (dm_server d)\<lparr>sv_store := s\<rparr>, dm_pending := n,
      dm_log := dm_log d @ (if locked then [AUTOLOCK] else [])\<rparr>)"
| dm_signal: "dm_shutdown d = Waiting \<Longrightarrow>
    own_step d (d\<lparr>dm_shutdown := Announced, dm_log := dm_log d @ [audit ''SHUTDOWN'' []]\<rparr>)"
| dm_wipe: "dm_shutdown d = Announced \<Longrightarrow>
    own_step d (d\<lparr>dm_shutdown := Wiped,
      dm_server := (dm_server d)\<lparr>sv_store := Zeroize (sv_store (dm_server d))\<rparr>\<rparr>)"
| dm_close: "dm_shutdown d = Wiped \<Longrightarrow> own_step d (d\<lparr>dm_shutdown := Closed\<rparr>)"

text \<open>Besides, it answers requests, refuses lines that are none, and notes what happens to
  connections.\<close>

inductive dm_step :: "aead \<Rightarrow> daemon \<Rightarrow> daemon \<Rightarrow> bool" for G where
  dm_request: "possible G w \<Longrightarrow> dispatch G w ident req (dm_server d) = (resp, evs, sv) \<Longrightarrow>
    dm_step G d (d\<lparr>dm_server := sv, dm_log := dm_log d @ evs, dm_sent := dm_sent d @ [(ident, resp)]\<rparr>)"
| dm_refuse: "dm_step G d (d\<lparr>dm_sent := dm_sent d @ [(ident, failure code msg)]\<rparr>)"
| dm_note: "dm_step G d (d\<lparr>dm_log := dm_log d @ evs\<rparr>)"
| dm_own: "own_step d d' \<Longrightarrow> dm_step G d d'"

inductive dm_run :: "aead \<Rightarrow> daemon \<Rightarrow> daemon \<Rightarrow> bool" for G where
  dm_here: "dm_run G d d"
| dm_more: "dm_run G d d' \<Longrightarrow> dm_step G d' d'' \<Longrightarrow> dm_run G d d''"

inductive_cases own_stepE: "own_step d d'"
inductive_cases dm_stepE: "dm_step G d d'"

declare own_step.intros [intro] dm_step.intros [intro] dm_run.intros [intro]

section \<open>A store that only ever loses keys\<close>

text \<open>No operation of a running daemon brings a key back: the store holds the keys it was
  started with, or none.\<close>

definition holds_or_wiped :: "(int \<times> bytes) list \<Rightarrow> int \<Rightarrow> Store \<Rightarrow> bool" where
  "holds_or_wiped keys cur s \<longleftrightarrow>
     st_keys s = keys \<and> st_current s = cur \<or> st_keys s = [] \<and> st_current s = 0"

lemma wiped_holds [simp]: "holds_or_wiped keys cur (zeroizeLocked s)"
  by (simp add: holds_or_wiped_def)

lemma holds_cong:
  "st_keys s = st_keys s' \<Longrightarrow> st_current s = st_current s' \<Longrightarrow> holds_or_wiped keys cur s = holds_or_wiped keys cur s'"
  by (simp add: holds_or_wiped_def)

lemma background_holds:
  "background G f \<Longrightarrow> holds_or_wiped keys cur s \<Longrightarrow> holds_or_wiped keys cur (f s)"
  by (induction rule: background.induct) (simp_all add: Zeroize_def onTimer_def, simp_all add: holds_or_wiped_def)

lemma possible_holds:
  "possible G w \<Longrightarrow> holds_or_wiped keys cur s \<Longrightarrow> holds_or_wiped keys cur (w_other w n s)"
  unfolding possible_def using background_holds by blast

lemma decrypt_loop_holds:
  assumes "possible G w" and "holds_or_wiped keys cur s" and "decrypt_loop G w n ps s = (r, s')"
  shows "holds_or_wiped keys cur s'"
  using assms(2,3)
proof (induction ps arbitrary: n s r)
  case (Cons a ps)
  obtain key p where a: "a = (key, p)" by (cases a)
  obtain x s1 where d: "Decrypt G (w_rnd w n) (w_now w n) key p (w_other w n s) = (x, s1)"
    by (metis surj_pair)
  have "holds_or_wiped keys cur (w_other w n s)"
    using assms(1) Cons.prems(1) by (rule possible_holds)
  then have s1: "holds_or_wiped keys cur s1"
    using Decrypt_fields [of G "w_rnd w n" "w_now w n" key p "w_other w n s"]
    unfolding d by (simp add: holds_or_wiped_def)
  show ?case
  proof (cases x)
    case (Inl e)
    with Cons.prems s1 show ?thesis by (simp add: a d)
  next
    case (Inr z)
    obtain r1 s2 where l: "decrypt_loop G w (Suc n) ps s1 = (r1, s2)" by (metis surj_pair)
    with Cons.prems Inr have "s' = s2" by (simp add: a d split: sum.splits prod.splits)
    with Cons.IH [OF s1] l show ?thesis by blast
  qed
qed simp

lemma seen_holds:
  "possible G w \<Longrightarrow> holds_or_wiped keys cur (sv_store sv) \<Longrightarrow> holds_or_wiped keys cur (seen w n sv)"
  by (simp add: seen_def possible_holds)

lemma dispatch_holds:
  assumes w: "possible G w" and h: "holds_or_wiped keys cur (sv_store sv)"
    and d: "dispatch G w ident req sv = (r, evs, sv')"
  shows "holds_or_wiped keys cur (sv_store sv')"
proof -
  have store: "holds_or_wiped keys cur (sv_store sv1)" if "rateLimit t i opn sv = (x, es, sv1)" for t i opn x es sv1
    using h rateLimit_fields(1) [OF that] by simp
  have bg: "holds_or_wiped keys cur (w_other w n s)" if "holds_or_wiped keys cur s" for n s
    using w that by (rule possible_holds)
  have e: "holds_or_wiped keys cur s1"
    if "Encrypt G rnd t name p s = (x, s1)" "holds_or_wiped keys cur s" for rnd t name p s x s1
    using that Encrypt_fields [of G rnd t name p s] by (simp add: holds_or_wiped_def)
  have c: "holds_or_wiped keys cur s1"
    if "Decrypt G rnd t name p s = (x, s1)" "holds_or_wiped keys cur s" for rnd t name p s x s1
    using that Decrypt_fields [of G rnd t name p s] by (simp add: holds_or_wiped_def)
  have enc: "holds_or_wiped keys cur (sv_store sv')" if "do_encrypt G w ident req sv = (r, evs, sv')"
    using that h bg unfolding do_encrypt_def seen_def
    by (auto split: prod.splits option.splits sum.splits dest!: e)
  have dec: "holds_or_wiped keys cur (sv_store sv')" if "do_decrypt G w ident req sv = (r, evs, sv')"
    using that bg unfolding do_decrypt_def seen_def
    by (auto split: prod.splits option.splits sum.splits dest!: c store)
  have many: "holds_or_wiped keys cur (sv_store sv')" if "do_decryptMany G w ident req sv = (r, evs, sv')"
    using that unfolding do_decryptMany_def Let_def
    by (auto split: prod.splits option.splits sum.splits if_splits dest!: store dest: decrypt_loop_holds [OF w])
  show ?thesis
    using d h bg enc dec many by (auto simp: dispatch_def do_status_def Let_def seen_def split: if_splits)
qed

lemma limited_silent:
  assumes "(case rateLimit t i opn sv of (Some resp, evs, sv1) \<Rightarrow> (resp, evs, sv1)
      | (None, evs, sv1) \<Rightarrow> f evs sv1) = (r, evs, sv')"
    and "\<And>evs0 sv1. sv_store sv1 = sv_store sv \<Longrightarrow> f evs0 sv1 = (r, evs, sv') \<Longrightarrow> \<not> carries_data r"
  shows "\<not> carries_data r"
proof -
  obtain x es sv1 where l: "rateLimit t i opn sv = (x, es, sv1)" by (metis prod_cases3)
  with assms rateLimit_fields(1,5) [OF l] show ?thesis by (cases x) auto
qed

text \<open>On a locked store nothing is sealed and nothing opens.\<close>

lemma locked_holds: "st_current s = 0 \<longleftrightarrow> holds_or_wiped (st_keys s) 0 s"
  by (auto simp: holds_or_wiped_def)

lemma holds_locked: "holds_or_wiped keys 0 s \<Longrightarrow> st_current s = 0"
  by (auto simp: holds_or_wiped_def)

lemma locked_silent:
  assumes w: "possible G w" and h: "st_current (sv_store sv) = 0"
    and d: "dispatch G w ident req sv = (r, evs, sv')"
  shows "\<not> carries_data r"
proof -
  have bg: "st_current (w_other w n s) = 0" if "st_current s = 0" for n s
    using holds_locked possible_holds [OF w that [unfolded locked_holds]] by blast
  have e: "Encrypt G rnd t name p s = (Inl ErrLocked, s)" "Decrypt G rnd t name p' s = (Inl ErrLocked, s)"
    if "st_current s = 0" for rnd t name p p' s
    using that by (simp_all add: Encrypt_def Decrypt_def)
  have lp: "out = []" if "decrypt_loop G w 0 ps (sv_store sv) = (Inr out, s')" for ps out s'
    using that h by (cases ps) (auto simp: e bg)
  have "\<not> carries_data r" if "do_encrypt G w ident req sv = (r, evs, sv')"
    using that h by (auto simp: do_encrypt_def seen_def e bg dest: guard_Some split: prod.splits option.splits)
  moreover have "\<not> carries_data r" if "do_decrypt G w ident req sv = (r, evs, sv')"
    using that unfolding do_decrypt_def
    by (rule limited_silent) (use h in \<open>auto simp: seen_def e bg dest!: guard_Some split: prod.splits option.splits\<close>)
  moreover have "\<not> carries_data r" if "do_decryptMany G w ident req sv = (r, evs, sv')"
    using that unfolding do_decryptMany_def
    by (rule limited_silent) (auto simp: Let_def carries_data_def dest!: guard_Some lp
        split: prod.splits option.splits sum.splits if_splits)
  ultimately show ?thesis
    using d by (auto simp: dispatch_def do_status_def Let_def carries_data_def split: if_splits)
qed

section \<open>Runs\<close>

lemma dm_step_holds:
  "dm_step G d d' \<Longrightarrow> holds_or_wiped keys cur (sv_store (dm_server d)) \<Longrightarrow> holds_or_wiped keys cur (sv_store (dm_server d'))"
  by (erule dm_stepE)
    (auto simp: dispatch_holds onTimer_def Zeroize_def elim!: own_stepE, auto simp: holds_or_wiped_def)

lemma dm_run_holds:
  "dm_run G d d' \<Longrightarrow> holds_or_wiped keys cur (sv_store (dm_server d)) \<Longrightarrow> holds_or_wiped keys cur (sv_store (dm_server d'))"
  by (induction rule: dm_run.induct) (auto dest: dm_step_holds)

lemma dm_step_locked:
  "dm_step G d d' \<Longrightarrow> st_current (sv_store (dm_server d)) = 0 \<Longrightarrow> st_current (sv_store (dm_server d')) = 0"
  using dm_step_holds holds_locked unfolding locked_holds by blast

text \<open>Once the shutdown goroutine has passed \<open>Zeroize\<close>, the store is locked.\<close>

definition shut_is_locked :: "daemon \<Rightarrow> bool" where
  "shut_is_locked d \<longleftrightarrow> (dm_shutdown d \<in> {Wiped, Closed} \<longrightarrow> st_current (sv_store (dm_server d)) = 0)"

lemma dm_step_shutdown: "dm_step G d d' \<Longrightarrow> shut_is_locked d \<Longrightarrow> shut_is_locked d'"
proof -
  assume s: "dm_step G d d'" and i: "shut_is_locked d"
  show "shut_is_locked d'"
  proof (cases "dm_shutdown d \<in> {Wiped, Closed}")
    case True
    with s i show ?thesis by (auto simp: shut_is_locked_def dm_step_locked)
  next
    case False
    with s show ?thesis by cases (auto simp: shut_is_locked_def Zeroize_def elim!: own_stepE)
  qed
qed

lemma dm_run_shutdown: "dm_run G (booted sv evs) d \<Longrightarrow> shut_is_locked d"
  by (induction "booted sv evs" d rule: dm_run.induct)
    (auto simp: booted_def dest: dm_step_shutdown, simp add: shut_is_locked_def)

lemma dm_run_silent:
  assumes "dm_run G d d'" and "st_current (sv_store (dm_server d)) = 0"
  shows "\<exists>later. dm_sent d' = dm_sent d @ later \<and> (\<forall>(i, r) \<in> set later. \<not> carries_data r) \<and>
    st_current (sv_store (dm_server d')) = 0"
  using assms
proof (induction rule: dm_run.induct)
  case (dm_more d d' d'')
  then obtain later where l: "dm_sent d' = dm_sent d @ later" "\<forall>(i, r) \<in> set later. \<not> carries_data r"
    "st_current (sv_store (dm_server d')) = 0" by auto
  from dm_more.hyps(2) have "\<exists>new. dm_sent d'' = dm_sent d' @ new \<and> (\<forall>(i, r) \<in> set new. \<not> carries_data r)"
    using l(3) by cases (auto dest: locked_silent elim!: own_stepE)
  with l dm_step_locked [OF dm_more.hyps(2) l(3)] show ?case by auto
qed auto

section \<open>Properties\<close>

text \<open>A running daemon never regains a key. Whatever requests, timer callbacks and shutdown
  steps run, and however the operations of concurrent requests interleave, the store holds
  the keys the daemon was started with, or none. From the moment it locked itself or the
  shutdown wiped it, no response carries a ciphertext or a plaintext.\<close>

theorem wiped_daemon_is_silent:
  assumes "dm_run G (booted sv evs) d" and "dm_run G d d'"
  shows "holds_or_wiped (st_keys (sv_store sv)) (st_current (sv_store sv)) (sv_store (dm_server d')) \<and>
    (dm_shutdown d \<in> {Wiped, Closed} \<or> \<not> Unlocked (sv_store (dm_server d)) \<longrightarrow>
       (\<exists>later. dm_sent d' = dm_sent d @ later \<and> (\<forall>(i, r) \<in> set later. \<not> carries_data r) \<and>
          \<not> Unlocked (sv_store (dm_server d'))))"
proof -
  have "holds_or_wiped (st_keys (sv_store sv)) (st_current (sv_store sv)) (sv_store (dm_server d'))"
    using dm_run_holds [OF assms(2) dm_run_holds [OF assms(1)]]
    by (simp add: booted_def holds_or_wiped_def)
  with dm_run_shutdown [OF assms(1)] dm_run_silent [OF assms(2)] show ?thesis
    unfolding shut_is_locked_def Unlocked_def by blast
qed

theorem wiped_daemon_is_silent_witness:
  "\<exists>d d' r. dm_run demo_aead (booted demo_server []) d \<and> dm_shutdown d = Wiped \<and> dm_run demo_aead d d' \<and>
    dm_sent d' = [(''al'', r)] \<and> \<not> carries_data r \<and> dm_log d' \<noteq> dm_log d"
proof -
  let ?G = demo_aead
  let ?req = "NoRequest\<lparr>Req_Op := ''encrypt'', Req_Key := ''a'', Req_Plaintext := ''p''\<rparr>"
  define d0 where "d0 = booted demo_server []"
  define d1 where "d1 = d0\<lparr>dm_shutdown := Announced, dm_log := dm_log d0 @ [audit ''SHUTDOWN'' []]\<rparr>"
  define d2 where "d2 = d1\<lparr>dm_shutdown := Wiped,
      dm_server := (dm_server d1)\<lparr>sv_store := Zeroize (sv_store (dm_server d1))\<rparr>\<rparr>"
  obtain resp evs sv where q: "dispatch ?G (calm 0) ''al'' ?req (dm_server d2) = (resp, evs, sv)"
    by (metis prod_cases3)
  then have "evs \<noteq> []"
    by (auto simp: dispatch_def op_defs do_encrypt_def guard_def NoRequest_def d2_def d1_def d0_def booted_def
        split: prod.splits sum.splits option.splits)
  define d3 where "d3 = d2\<lparr>dm_server := sv, dm_log := dm_log d2 @ evs, dm_sent := dm_sent d2 @ [(''al'', resp)]\<rparr>"
  have p: "possible ?G (calm 0)" using bg_idle [of ?G] by (simp add: possible_def calm_def)
  have "dm_step ?G d0 d1" unfolding d1_def by (rule dm_own, rule dm_signal) (simp add: d0_def booted_def)
  moreover have "dm_step ?G d1 d2" unfolding d2_def by (rule dm_own, rule dm_wipe) (simp add: d1_def)
  ultimately have r: "dm_run ?G (booted demo_server []) d2" unfolding d0_def [symmetric] by blast
  have r': "dm_run ?G d2 d3" unfolding d3_def using dm_request [OF p q] by blast
  have w: "dm_shutdown d2 = Wiped" by (simp add: d2_def)
  have s: "dm_sent d3 = [(''al'', resp)]" "dm_sent d2 = []" "dm_log d3 \<noteq> dm_log d2"
    using \<open>evs \<noteq> []\<close> by (simp_all add: d3_def d2_def d1_def d0_def booted_def)
  from wiped_daemon_is_silent [OF r r'] w s have "\<not> carries_data resp" by auto
  with r r' w s show ?thesis by blast
qed

text \<open>The audit events of the server name their fields once, and none of them \<open>ts\<close> or \<open>kind\<close>.\<close>

definition plain_event :: "event \<Rightarrow> bool" where
  "plain_event e \<longleftrightarrow> distinct (map fst (ev_fields e)) \<and> ''ts'' \<notin> fst ` set (ev_fields e) \<and>
     ''kind'' \<notin> fst ` set (ev_fields e)"

lemma plain_audit [simp]: "plain_event (audit k kv) \<longleftrightarrow>
    distinct (map fst kv) \<and> ''ts'' \<notin> fst ` set kv \<and> ''kind'' \<notin> fst ` set kv"
  by (simp add: plain_event_def audit_def)

lemma plain_limit: "rateLimit t i opn sv = (x, evs, sv') \<Longrightarrow> \<forall>e \<in> set evs. plain_event e"
  by (auto simp: rateLimit_def split: prod.splits bool.splits)

lemma plain_guard: "guard p i keys opn reason = (x, evs) \<Longrightarrow> \<forall>e \<in> set evs. plain_event e"
  by (auto simp: guard_def split: option.splits)

lemma dispatch_plain:
  "dispatch G w ident req sv = (r, evs, sv') \<Longrightarrow> \<forall>e \<in> set evs. plain_event e"
  by (auto simp: dispatch_def do_status_def do_encrypt_def do_decrypt_def do_decryptMany_def Let_def
      split: if_splits prod.splits option.splits sum.splits dest!: plain_limit plain_guard)



end
