(* ===== verification/Alice_Flow.thy ===== *)
theory Alice_Flow
  imports Alice_Vault Wire Bob_Daemon "HOL-Library.Countable"
begin

text \<open>
  Alice's commands against a running daemon: the connection of an enrolled client is the model
  of the server, so that what a command stores and what a later one reads back can be followed
  through \<open>cmd/alice\<close>, \<open>internal/client\<close>, \<open>internal/server\<close> and \<open>internal/keystore\<close>.
\<close>

section \<open>The daemon behind the connection\<close>

text \<open>The n-th request of Alice reaches the daemon in the world \<open>ws n\<close>, which also has what other
  connections and the timer did in between.\<close>

definition served :: "aead \<Rightarrow> wire_codec \<Rightarrow> (nat \<Rightarrow> world) \<Rightarrow> string \<Rightarrow> Server \<Rightarrow> Request list \<Rightarrow> Server" where
  "served G C ws ident sv sent = fold (\<lambda>(n, req) s. snd (wire_call G C (ws n) ident req s)) (enumerate 0 sent) sv"

definition bob_net :: "aead \<Rightarrow> wire_codec \<Rightarrow> (nat \<Rightarrow> world) \<Rightarrow> string \<Rightarrow> Server \<Rightarrow> connection" where
  "bob_net G C ws ident sv sent req = fst (wire_call G C (ws (length sent)) ident req (served G C ws ident sv sent))"

lemma bob_net_wire:
  "bob_net G C ws ident sv sent =
     (\<lambda>req. fst (wire_call G C (ws (length sent)) ident req (served G C ws ident sv sent)))"
  by (simp add: bob_net_def fun_eq_iff)

text \<open>What a running daemon may meet: operations of other connections and of the timer, and a random
  source that gives whole initialization vectors.\<close>

definition sound_world :: "aead \<Rightarrow> world \<Rightarrow> bool" where
  "sound_world G w \<longleftrightarrow> possible G w \<and> (\<forall>n iv. w_rnd w n = Some iv \<longrightarrow> length iv = 12)"

lemma sound_worldD: "sound_world G w \<Longrightarrow> possible G w" "sound_world G w \<Longrightarrow> w_rnd w n = Some iv \<Longrightarrow> length iv = 12"
  by (simp_all add: sound_world_def)

lemma served_keeps:
  assumes "wire_ok C" and "ident \<noteq> []" and ws: "\<And>n. sound_world G (ws n)" and "holds_or_wiped keys cur (sv_store sv)"
  shows "holds_or_wiped keys cur (sv_store (served G C ws ident sv sent)) \<and>
    sv_policy (served G C ws ident sv sent) = sv_policy sv"
proof (induction sent rule: rev_induct)
  case Nil
  show ?case using assms(4) by (simp add: served_def)
next
  case (snoc req sent)
  let ?s = "served G C ws ident sv sent"
  obtain r evs sv' where d: "dispatch G (ws (length sent)) ident (wire_request req) ?s = (r, evs, sv')"
    by (metis prod_cases3)
  have "served G C ws ident sv (sent @ [req]) = snd (wire_call G C (ws (length sent)) ident req ?s)"
    by (simp add: served_def enumerate_append_eq)
  with dispatch_holds [OF sound_worldD(1) [OF ws] _ d] dispatch_policy [OF d] snoc show ?case
    by (simp add: wire_call_dispatch [OF assms(1,2)] d)
qed

section \<open>The vault between two commands\<close>

lemma same_but_vault_client:
  assumes "same_but_vault dir a a'"
  shows "loadClient H dir (a_disk a') = loadClient H dir (a_disk a)"
proof -
  have e: "a_disk a' (ConfigPath dir) = a_disk a (ConfigPath dir)"
    "a_disk a' (ClientCertPath dir) = a_disk a (ClientCertPath dir)"
    "a_disk a' (ClientKeyPath dir) = a_disk a (ClientKeyPath dir)"
    "a_disk a' (CAPath dir) = a_disk a (CAPath dir)"
    using assms by (auto simp: same_but_vault_def off_vault_def)
  show ?thesis unfolding loadClient_def LoadConfig_def e by (rule refl)
qed

lemma vault_save_load:
  assumes "vault_save H dir v a = (True, a')"
    and "unmarshal (h_codec H) (marshal (h_codec H) (v\<lparr>Vault_Version := Version\<rparr>)) = Some (v\<lparr>Vault_Version := Version\<rparr>)"
  shows "vault_load H dir a' = Some (v\<lparr>Vault_Version := Version\<rparr>)"
  using assms vf.saved [OF assms(2)]
  by (auto simp: vault_save_def finish_write_def Save_def vault_load_def simp del: state_path_names split: prod.splits)

lemma Get_Set_version [simp]: "Get ((Set k e v)\<lparr>Vault_Version := n\<rparr>) j = (if j = k then Some e else Get v j)"
  using vm.get_put [of k e v j] by (simp add: Get_def)

text \<open>Choosing a value reaches neither the disk nor Bob.\<close>

lemma confirm_existing_frame:
  assumes "confirm_existing H key already force a = (r, a')"
  shows "a_disk a' = a_disk a \<and> a_sent a' = a_sent a \<and> a_writes a' = a_writes a"
  using assms
  by (auto simp: confirm_existing_def confirmOverwrite_def say_def split: if_splits prod.splits sum.splits)

lemma set_value_frame:
  assumes "set_value H ss key already a = (r, a')"
  shows "a_disk a' = a_disk a \<and> a_sent a' = a_sent a \<and> a_writes a' = a_writes a"
proof -
  obtain c a1 where c: "confirm_existing H key already (bool_flag ss ''force'') a = (c, a1)" by (metis surj_pair)
  note f = confirm_existing_frame [OF c]
  show ?thesis
    using assms f unfolding set_value_def Let_def c
    by (auto simp: generate_value_def split: if_splits sum.splits option.splits prod.splits)
qed

lemma store_value_Returned:
  assumes "store_value H dir ss v key value a = (Returned, a1)" and "loadClient H dir (a_disk a) = Inr (conn, cfg)"
  obtains packed a2 where
    "client_Encrypt '''' (conn (a_sent a)) key value = Inr packed"
    "vault_save H dir (Set key (new_entry (h_now H) ss (Get v key) packed value) v)
       (a\<lparr>a_sent := a_sent a @ [NoRequest\<lparr>Req_Op := OpEncryptName, Req_Key := key,
                                Req_Plaintext := value, Req_Reason := ''''\<rparr>]\<rparr>) = (True, a2)"
    "\<exists>ls. a1 = say ls a2"
  using assms
  by (auto simp: store_value_def ask_Encrypt_def Let_def map_sum_def split: sum.splits prod.splits if_splits)

lemma say_fields [simp]:
  "a_disk (say ls a) = a_disk a" "a_sent (say ls a) = a_sent a" "a_out (say ls a) = a_out a @ ls"
  "vault_load H dir (say ls a) = vault_load H dir a" "same_but_vault dir b (say [] b)"
  by (simp_all add: say_def vault_load_def same_but_vault_def)

lemma same_dial_client:
  assumes "h_dial H' = h_dial H" and "h_codec H' = h_codec H"
  shows "loadClient H' dir d = loadClient H dir d" and "vault_load H' dir a = vault_load H dir a"
  unfolding loadClient_def vault_load_def assms by (rule refl)+

text \<open>A packed ciphertext is ASCII text, at least twice as long as what it holds.\<close>

lemma packed_text:
  assumes "aead_ok G" and "SealAAD G rnd k p a = Inr c"
  shows "is_ascii (PackVersion v c) \<and> 2 * length p \<le> length (PackVersion v c)"
proof -
  have h: "is_ascii (HexEncode bs)" for bs
  proof -
    have "list_all (\<lambda>c. (of_char c :: nat) < 128) ''0123456789abcdef''" by code_simp
    then show ?thesis using HexEncode_set [of bs] unfolding is_ascii_def list_all_iff by blast
  qed
  from assms(2) obtain iv where "c = HexEncode iv @ '':'' @ HexEncode (drop (length (gcm_seal G k iv p a) - 16) (gcm_seal G k iv p a))
           @ '':'' @ HexEncode (take (length (gcm_seal G k iv p a) - 16) (gcm_seal G k iv p a))"
    unfolding SealAAD_def by (rule sealAAD_cases)
  moreover have "length (gcm_seal G k iv p a) = length p + 16" using assms(1) by (simp add: aead_ok_def)
  ultimately show ?thesis by (simp add: PackVersion_def h Itoa_ascii length_HexEncode)
qed

lemma sealed_text:
  assumes "aead_ok G" and "client_Encrypt reason (net_to G w1 ident sv1) key value = Inr packed"
  shows "is_ascii packed \<and> 2 * length value \<le> length packed"
proof -
  let ?s1 = "w_other w1 0 (sv_store sv1)"
  from assms(2) have x: "fst (Encrypt G (w_rnd w1 0) (w_now w1 0) key value ?s1) = Inr packed"
    by (auto simp: client_Encrypt_net split: if_splits sum.splits keystore_error.splits)
  from x obtain k raw where raw: "SealAAD G (w_rnd w1 0) k value key = Inr raw"
    "packed = PackVersion (st_current ?s1) raw"
    by (rule Encrypt_cases)
  from packed_text [OF assms(1) raw(1)] raw(2) show ?thesis by simp
qed

text \<open>What was sealed by the store behind a daemon, asked for under its name.\<close>

lemma sealed_then_opened:
  assumes "aead_ok G" and "1 \<le> cur" and "cur < 2 ^ 63"
    and "holds_or_wiped keys cur (sv_store sv1)" and w1: "sound_world G w1"
    and e: "client_Encrypt reason (net_to G w1 ident sv1) key value = Inr packed"
    and "holds_or_wiped keys cur (sv_store sv2)" and w2: "sound_world G w2" and "sv_policy sv2 = sv_policy sv1"
  shows "client_Decrypt reason' (net_to G w2 ident sv2) key packed \<in> {Inr (value, ''''), Inl Locked, Inl RateLimited}"
proof -
  let ?s1 = "w_other w1 0 (sv_store sv1)" and ?s2 = "w_other w2 0 (sv_store sv2)"
  have h1: "holds_or_wiped keys cur ?s1" by (rule possible_holds [OF sound_worldD(1) [OF w1] assms(4)])
  have h2: "holds_or_wiped keys cur ?s2" by (rule possible_holds [OF sound_worldD(1) [OF w2] assms(7)])
  from e have p: "Allowed (sv_policy sv1) ident key"
    and x: "fst (Encrypt G (w_rnd w1 0) (w_now w1 0) key value ?s1) = Inr packed"
    by (auto simp: client_Encrypt_net split: if_splits sum.splits keystore_error.splits)
  from x obtain k raw where nz: "st_current ?s1 \<noteq> 0" and k: "map_of (st_keys ?s1) (st_current ?s1) = Some k"
    and raw: "SealAAD G (w_rnd w1 0) k value key = Inr raw" "packed = PackVersion (st_current ?s1) raw"
    by (rule Encrypt_cases)
  have s1: "st_keys ?s1 = keys" "st_current ?s1 = cur" using h1 nz by (auto simp: holds_or_wiped_def)
  obtain iv' where r: "w_rnd w1 0 = Some iv'"
    using raw(1) by (cases "w_rnd w1 0") (auto simp: SealAAD_def sealAAD_def split: sum.splits)
  note o = cs.open_packed_sealed [OF assms(1) raw(1) [unfolded r] sound_worldD(2) [OF w1 r] assms(2,3), where K = "map_of keys"]
  have D: "fst (Decrypt G (w_rnd w2 0) (w_now w2 0) key packed ?s2) \<in> {Inr (value, '''', True), Inl ErrLocked}"
  proof (cases "st_current ?s2 = 0")
    case True
    then show ?thesis by (simp add: Decrypt_def)
  next
    case False
    with h2 have s2: "st_keys ?s2 = keys" "st_current ?s2 = cur" by (auto simp: holds_or_wiped_def)
    have "ParseVersion packed = Inr (cur, raw)"
      using cs.pack_unpack [OF raw(1) assms(2,3)] raw(2) s1 by simp
    with o k s1 s2 raw(2) False show ?thesis by (simp add: Decrypt_open_packed)
  qed
  with p assms(9) show ?thesis by (auto simp: client_Decrypt_net)
qed

text \<open>The same over the wire: the value comes back as JSON carries it, unless the request is too long.\<close>

lemma sealed_then_asked:
  assumes c: "wire_ok C" "ident \<noteq> []" and "aead_ok G" and "1 \<le> cur" and "cur < 2 ^ 63"
    and "holds_or_wiped keys cur (sv_store sv1)" and "sound_world G w1"
    and e: "client_Encrypt reason (\<lambda>req. fst (wire_call G C w1 ident req sv1)) key value = Inr packed"
    and "holds_or_wiped keys cur (sv_store sv2)" and "sound_world G w2" and "sv_policy sv2 = sv_policy sv1"
  shows "is_ascii packed \<and> 2 * length (json_string value) \<le> length packed \<and>
    (let got = client_Decrypt reason' (\<lambda>req. fst (wire_call G C w2 ident req sv2)) key packed in
     if maxReqBytes \<le> length (wc_encode C (decrypt_request reason' key packed)) then got = Inl too_large
     else got \<in> {Inr (json_string value, ''''), Inl Locked, Inl RateLimited})"
proof -
  from e obtain packed' where p: "packed = json_string packed'"
    and e': "client_Encrypt (json_string reason) (net_to G w1 ident sv1) (json_string key) (json_string value) = Inr packed'"
    unfolding client_Encrypt_wire [OF c] by (auto simp: map_sum_def split: if_splits sum.splits)
  note t = sealed_text [OF assms(3) e']
  have q: "packed' = packed" using p t by (simp add: json_string_ascii)
  have j: "json_string packed = packed" using t unfolding q by (simp add: json_string_ascii)
  from sealed_then_opened [OF assms(3-7) e' assms(9-11), where reason' = "json_string reason'"]
  have "client_Decrypt (json_string reason') (net_to G w2 ident sv2) (json_string key) packed
      \<in> {Inr (json_string value, ''''), Inl Locked, Inl RateLimited}" by (simp add: q)
  then show ?thesis
    using t unfolding q client_Decrypt_wire [OF c] Let_def
    by (auto simp: j json_string_idem json_string_ascii)
qed

lemma bob_net_asked:
  assumes wire: "wire_ok C" "ident \<noteq> ''''" and "aead_ok G" and "1 \<le> cur" and "cur < 2 ^ 63"
    and "holds_or_wiped keys cur (sv_store sv)"
    and ws: "\<And>n. sound_world G (ws n)"
    and e: "client_Encrypt reason (bob_net G C ws ident sv earlier) key value = Inr packed"
  shows "is_ascii packed \<and> 2 * length (json_string value) \<le> length packed \<and>
    (let got = client_Decrypt reason' (bob_net G C ws ident sv later) key packed in
     if maxReqBytes \<le> length (wc_encode C (decrypt_request reason' key packed)) then got = Inl too_large
     else got \<in> {Inr (json_string value, ''''), Inl Locked, Inl RateLimited})"
proof -
  note sk = served_keeps [where ws = ws and G = G, OF wire ws assms(6)]
  show ?thesis
    unfolding bob_net_wire
    by (rule sealed_then_asked [where keys = keys, OF wire assms(3-5) _ ws e [unfolded bob_net_wire]])
      (simp_all add: sk ws)
qed

section \<open>An example\<close>

text \<open>A codec for every vault, and an enrolled machine with an empty one.\<close>

definition vault_code :: "Vault \<Rightarrow> nat" where
  "vault_code v =
     to_nat (Vault_Version v,
       map (\<lambda>(k, e). (k, Value e, Desc e, CreatedAt e, UpdatedAt e, KeyEpoch e, LenBytes e, EntropyBits e)) (Secrets v))"

definition vault_decode :: "nat \<Rightarrow> Vault" where
  "vault_decode n =
     (case from_nat n of (ver, es) \<Rightarrow>
        \<lparr>Vault_Version = ver,
         Secrets = map (\<lambda>(k, p, d, c, u, ep, l, b). (k, \<lparr>Value = p, Desc = d, CreatedAt = c, UpdatedAt = u,
                          KeyEpoch = ep, LenBytes = l, EntropyBits = b\<rparr>)) es\<rparr>)"

lemma vault_decode_code: "vault_decode (vault_code v) = v"
proof -
  have e: "\<lparr>Value = Value e, Desc = Desc e, CreatedAt = CreatedAt e, UpdatedAt = UpdatedAt e, KeyEpoch = KeyEpoch e,
      LenBytes = LenBytes e, EntropyBits = EntropyBits e\<rparr> = e" for e by simp
  show ?thesis by (cases v) (simp add: vault_decode_def vault_code_def comp_def split_beta e)
qed

definition flow_codec :: codec where
  "flow_codec =
     \<lparr>marshal = (\<lambda>v. replicate (vault_code v) CHR ''x''), unmarshal = (\<lambda>b. Some (vault_decode (length b))),
      marshal_config = (\<lambda>c. ''{}''),
      unmarshal_config = (\<lambda>b. Some \<lparr>BobAddr = ''b:1'', ServerName = ''b'', Identity = ''al''\<rparr>)\<rparr>"

definition flow_host :: "string \<Rightarrow> host" where
  "flow_host p = \<lparr>h_environ = [''ANB_ALICE_DIR=/d'', ''V='' @ p], h_stdin_tty = False, h_stdout_tty = True,
     h_stderr_tty = True, h_now = ''2026'', h_order = (\<lambda>ks. ks), h_lookPath = Some,
     h_compile = (\<lambda>s. None), h_sha256 = (\<lambda>s. replicate 64 CHR ''0''), h_words = [], h_rnd = (\<lambda>i n. i mod n),
     h_lookup_user = (\<lambda>s. None), h_lookup_group = (\<lambda>s. None), h_csr = (\<lambda>s. None), h_codec = flow_codec,
     h_fault = (\<lambda>i. NoFault), h_dial = (\<lambda>c k q t. Some (bob_net demo_aead demo_wire (\<lambda>n. calm 0) ''al'' demo_server))\<rparr>"

definition flow_alice :: alice where
  "flow_alice = \<lparr>a_disk = (\<lambda>p. if p = ''/d/vault.json'' then Missing else Content []), a_sent = [], a_writes = 0,
     a_draws = 0, a_modes = Map.empty, a_owners = Map.empty, a_stdin = '''', a_typed = [], a_out = []\<rparr>"

text \<open>A set from any source that has reported success, and the state it leaves for a reveal.\<close>

lemma cmdSet_stored:
  assumes conn: "loadClient H dir (a_disk a) = Inr (conn, cfg)"
    and set: "parse_args set_flags args = Inr (ss, [key])" "dir = OpenDir (h_environ H) (str_flag ss ''dir'' '''')"
      "vault_load H dir a = Some v" "set_value H ss key (Has v key) a = (Inr value, a0)"
      "cmdSet H args a = (Returned, a1)"
    and json: "\<And>packed. is_ascii packed \<Longrightarrow>
      (let w = (Set key (new_entry (h_now H) ss (Get v key) packed value) v)\<lparr>Vault_Version := Version\<rparr>
       in unmarshal (h_codec H) (marshal (h_codec H) w) = Some w)"
    and ascii: "\<And>packed. client_Encrypt '''' (conn (a_sent a)) key value = Inr packed \<Longrightarrow> is_ascii packed"
  obtains packed v' where "client_Encrypt '''' (conn (a_sent a)) key value = Inr packed"
    "vault_load H dir a1 = Some v'" "Get v' key = Some (new_entry (h_now H) ss (Get v key) packed value)"
    "loadClient H dir (a_disk a1) = Inr (conn, cfg)"
proof -
  note f0 = set_value_frame [OF set(4)]
  have c0: "loadClient H dir (a_disk a0) = Inr (conn, cfg)" using conn f0 by simp
  have "cmdSet H args a = store_value H dir ss v key value a0 \<or> (\<exists>e. cmdSet H args a = (Failed e, a))"
    using set(1-4) by (simp add: cmdSet_def Let_def)
  with set(5) have sv: "store_value H dir ss v key value a0 = (Returned, a1)" by auto
  obtain packed a1' where e: "client_Encrypt '''' (conn (a_sent a0)) key value = Inr packed"
    and s: "vault_save H dir (Set key (new_entry (h_now H) ss (Get v key) packed value) v)
       (a0\<lparr>a_sent := a_sent a0 @ [NoRequest\<lparr>Req_Op := OpEncryptName, Req_Key := key,
                                Req_Plaintext := value, Req_Reason := ''''\<rparr>]\<rparr>) = (True, a1')"
    and a1: "\<exists>ls. a1 = say ls a1'"
    by (rule store_value_Returned [OF sv c0])
  let ?v' = "(Set key (new_entry (h_now H) ss (Get v key) packed value) v)\<lparr>Vault_Version := Version\<rparr>"
  have e': "client_Encrypt '''' (conn (a_sent a)) key value = Inr packed" using e f0 by simp
  have "vault_load H dir a1 = Some ?v'"
    using vault_save_load [OF s] json [OF ascii [OF e']] a1 by (auto simp: Let_def)
  moreover have "loadClient H dir (a_disk a1) = loadClient H dir (a_disk a0)"
    using same_but_vault_client [OF vault_save_frame(1) [OF s]] a1 by auto
  ultimately show thesis using c0 by (intro that [OF e', of ?v']) simp_all
qed

lemma cmdGet_reveal:
  assumes "h_dial H' = h_dial H" "h_codec H' = h_codec H" "h_stdout_tty H'"
    and "parse_args get_flags args' = Inr (ss', [key])" "dir = OpenDir (h_environ H') (str_flag ss' ''dir'' '''')"
      "bool_flag ss' ''reveal''" "\<not> bool_flag ss' ''json''"
    and "vault_load H dir a1 = Some v'" "Get v' key = Some entry" "loadClient H dir (a_disk a1) = Inr (conn, cfg)"
  shows "fst (cmdGet H' args' a1) =
      (case client_Decrypt (str_flag ss' ''reason'' '''') (conn (a_sent a1)) key (Value entry) of
         Inl e \<Rightarrow> Failed (FromBob e) | Inr _ \<Rightarrow> Returned)"
    and "client_Decrypt (str_flag ss' ''reason'' '''') (conn (a_sent a1)) key (Value entry) = Inr (pt, '''') \<Longrightarrow>
      a_out (snd (cmdGet H' args' a1)) = a_out a1 @ [Text pt]"
proof -
  note c = assms(10) [folded same_dial_client(1) [OF assms(1,2)]]
  have g: "cmdGet H' args' a1 = reveal_value H' dir (str_flag ss' ''reason'' '''') key entry a1"
    using assms(4-9) same_dial_client(2) [OF assms(1,2)] by (simp add: cmdGet_def Let_def)
  show "fst (cmdGet H' args' a1) =
      (case client_Decrypt (str_flag ss' ''reason'' '''') (conn (a_sent a1)) key (Value entry) of
         Inl e \<Rightarrow> Failed (FromBob e) | Inr _ \<Rightarrow> Returned)"
    unfolding g using assms(3) c by (simp add: reveal_value_def ask_Decrypt_def map_sum_def split: sum.splits)
  show "client_Decrypt (str_flag ss' ''reason'' '''') (conn (a_sent a1)) key (Value entry) = Inr (pt, '''') \<Longrightarrow>
      a_out (snd (cmdGet H' args' a1)) = a_out a1 @ [Text pt]"
    unfolding g using assms(3) c by (simp add: reveal_value_def ask_Decrypt_def map_sum_def)
qed

text \<open>What a reveal after a set meets.\<close>

lemma reveal_after_set:
  assumes wire: "wire_ok C" "ident \<noteq> ''''" and "aead_ok G" and "1 \<le> cur" and "cur < 2 ^ 63"
    and "holds_or_wiped keys cur (sv_store sv)"
    and ws: "\<And>n. sound_world G (ws n)"
    and conn: "loadClient H dir (a_disk a) = Inr (bob_net G C ws ident sv, cfg)"
    and set: "parse_args set_flags args = Inr (ss, [key])" "dir = OpenDir (h_environ H) (str_flag ss ''dir'' '''')"
      "vault_load H dir a = Some v" "set_value H ss key (Has v key) a = (Inr value, a0)"
      "cmdSet H args a = (Returned, a1)"
    and json: "\<And>packed. is_ascii packed \<Longrightarrow>
      (let w = (Set key (new_entry (h_now H) ss (Get v key) packed value) v)\<lparr>Vault_Version := Version\<rparr>
       in unmarshal (h_codec H) (marshal (h_codec H) w) = Some w)"
    and H': "h_dial H' = h_dial H" "h_codec H' = h_codec H" "h_stdout_tty H'"
    and get: "parse_args get_flags args' = Inr (ss', [key])" "dir = OpenDir (h_environ H') (str_flag ss' ''dir'' '''')"
      "bool_flag ss' ''reveal''" "\<not> bool_flag ss' ''json''" "cmdGet H' args' a1 = (x, a2)"
  shows "\<exists>packed. is_ascii packed \<and> 2 * length (json_string value) \<le> length packed \<and>
    (if maxReqBytes \<le> length (wc_encode C (decrypt_request (str_flag ss' ''reason'' '''') key packed))
     then x = Failed (FromBob too_large)
     else x = Returned \<and> a_out a2 = a_out a1 @ [Text (json_string value)] \<or>
          x = Failed (FromBob Locked) \<or> x = Failed (FromBob RateLimited))"
proof -
  note asked = bob_net_asked [where ws = ws, OF wire assms(3-6) ws]
  have ascii: "is_ascii packed" if "client_Encrypt '''' (bob_net G C ws ident sv (a_sent a)) key value = Inr packed" for packed
    using asked [OF that] by blast
  obtain packed v' where e: "client_Encrypt '''' (bob_net G C ws ident sv (a_sent a)) key value = Inr packed"
    and v': "vault_load H dir a1 = Some v'" "Get v' key = Some (new_entry (h_now H) ss (Get v key) packed value)"
    and c1: "loadClient H dir (a_disk a1) = Inr (bob_net G C ws ident sv, cfg)"
    by (rule cmdSet_stored [OF conn set json ascii])
  note r = cmdGet_reveal [OF H' get(1-4) v' c1, unfolded get(5)]
  have "Value (new_entry (h_now H) ss (Get v key) packed value) = packed" by (simp add: new_entry_def)
  with r asked [OF e, where reason' = "str_flag ss' ''reason'' ''''" and later = "a_sent a1"] show ?thesis
    by (intro exI [of _ packed]) (auto simp: Let_def split: if_splits)
qed

lemma flow_run:
  assumes "p \<noteq> ''''" and "is_ascii p" and "set p \<inter> {CHR ''.'', CHR '';'', CHR ''%'', LF} = {}" and "length p + 19 < maxReqBytes"
  defines "H \<equiv> flow_host p" and "ss \<equiv> [(''from-env'', ''V'')]" and "v \<equiv> \<lparr>Vault_Version = 1, Secrets = []\<rparr>"
  shows "loadClient H ''/d'' (a_disk flow_alice) = Inr (bob_net demo_aead demo_wire (\<lambda>n. calm 0) ''al'' demo_server,
      \<lparr>BobAddr = ''b:1'', ServerName = ''b'', Identity = ''al''\<rparr>)"
    and "parse_args set_flags [''--from-env'', ''V'', ''a''] = Inr (ss, [''a''])"
    and "''/d'' = OpenDir (h_environ H) (str_flag ss ''dir'' '''')"
    and "vault_load H ''/d'' flow_alice = Some v"
    and "set_value H ss ''a'' (Has v ''a'') flow_alice = (Inr p, flow_alice)"
    and "\<exists>a1. cmdSet H [''--from-env'', ''V'', ''a''] flow_alice = (Returned, a1)"
    and "unmarshal (h_codec H) (marshal (h_codec H) u) = Some u"
proof -
  let ?a = flow_alice and ?conn = "bob_net demo_aead demo_wire (\<lambda>n. calm 0) ''al'' demo_server"
  have env: "Getenv (h_environ H) ''ANB_ALICE_DIR'' = ''/d''" "Getenv (h_environ H) ''V'' = p"
    by (simp_all add: Getenv_def H_def flow_host_def HasPrefix_def)
  show d: "''/d'' = OpenDir (h_environ H) (str_flag ss ''dir'' '''')"
    using env(1) by (simp add: OpenDir_def DefaultDir_def ss_def str_flag_def)
  show pa: "parse_args set_flags [''--from-env'', ''V'', ''a''] = Inr (ss, [''a''])" unfolding ss_def by code_simp
  have fl: "str_flag ss ''from-env'' '''' = ''V''" "\<not> bool_flag ss ''stdin''"
    "\<not> bool_flag ss ''generate''" "\<not> bool_flag ss ''force''"
    unfolding ss_def by code_simp+
  have pv: "VaultPath ''/d'' = ''/d/vault.json''" by code_simp
  show v: "vault_load H ''/d'' ?a = Some v"
    unfolding vault_load_def Load_def pv by (simp add: flow_alice_def Version_def v_def)
  have ps: "ConfigPath ''/d'' = ''/d/config.json''" "ClientCertPath ''/d'' = ''/d/client.crt''"
    "ClientKeyPath ''/d'' = ''/d/client.key''" "CAPath ''/d'' = ''/d/ca.crt''" by code_simp+
  show c: "loadClient H ''/d'' (a_disk ?a) = Inr (?conn, \<lparr>BobAddr = ''b:1'', ServerName = ''b'', Identity = ''al''\<rparr>)"
    unfolding loadClient_def LoadConfig_def ps by (simp add: flow_alice_def H_def flow_host_def flow_codec_def)
  show sv: "set_value H ss ''a'' (Has v ''a'') ?a = (Inr p, ?a)"
    unfolding set_value_def Let_def using fl env(2) assms(1) by (simp add: Has_def v_def confirm_existing_def)
  show "unmarshal (h_codec H) (marshal (h_codec H) u) = Some u"
    by (simp add: H_def flow_host_def flow_codec_def vault_decode_code)
  obtain raw where raw: "SealAAD demo_aead (Some (replicate 12 CHR ''n'')) demo_key p ''a'' = Inr raw"
    by (rule demo_seal)
  have e: "client_Encrypt '''' (?conn []) ''a'' p = Inr (PackVersion 1 raw)"
  proof -
    have l: "\<not> maxReqBytes \<le> length (wc_encode demo_wire (encrypt_request '''' ''a'' p))"
      using assms(3,4) by (simp add: demo_wire_length)
    have j: "json_string '''' = ''''" "json_string ''a'' = ''a''" "json_string p = p"
      "json_string (PackVersion 1 raw) = PackVersion 1 raw"
      using packed_text [OF demo_aead_ok raw] assms(2) by (simp_all add: json_string_ascii)
    have "''al'' \<noteq> ''''" by simp
    from client_Encrypt_wire [OF demo_wire_ok this] l j show ?thesis
      by (simp add: bob_net_wire client_Encrypt_net served_def Encrypt_def raw)
  qed
  have k: "MatchString keyFormat ''a''" by code_simp
  have s: "a_sent ?a = []" "h_fault H n = NoFault" for n by (simp_all add: flow_alice_def H_def flow_host_def)
  have "fst (store_value H ''/d'' ss v ''a'' p ?a) = Returned"
    using c e s by (simp add: store_value_def ask_Encrypt_def Let_def vault_save_def finish_write_def Save_def writeAtomic_def
        split: prod.splits)
  moreover have "cmdSet H [''--from-env'', ''V'', ''a''] ?a = store_value H ''/d'' ss v ''a'' p ?a"
    using pa fl k v sv d by (simp add: cmdSet_def Let_def)
  ultimately show "\<exists>a1. cmdSet H [''--from-env'', ''V'', ''a''] ?a = (Returned, a1)" by (metis prod.collapse)
qed

lemma flow_world:
  "sound_world demo_aead (calm 0)" "holds_or_wiped [(1, demo_key)] 1 (sv_store demo_server)" "''al'' \<noteq> ''''"
  using bg_idle [of demo_aead]
  by (simp_all add: sound_world_def possible_def holds_or_wiped_def) (simp add: calm_def)

lemma flow_get:
  "parse_args get_flags [''--reveal'', ''a''] = Inr ([(''reveal'', ''true'')], [''a''])"
  "''/d'' = OpenDir (h_environ (flow_host p)) (str_flag [(''reveal'', ''true'')] ''dir'' '''')"
  "bool_flag [(''reveal'', ''true'')] ''reveal''" "\<not> bool_flag [(''reveal'', ''true'')] ''json''"
  "h_stdout_tty (flow_host p)"
proof -
  have "str_flag [(''reveal'', ''true'')] ''dir'' '''' = ''''" by code_simp
  moreover have "Getenv (h_environ (flow_host p)) ''ANB_ALICE_DIR'' = ''/d''"
    by (simp add: Getenv_def flow_host_def HasPrefix_def)
  ultimately show "''/d'' = OpenDir (h_environ (flow_host p)) (str_flag [(''reveal'', ''true'')] ''dir'' '''')"
    by (simp add: OpenDir_def DefaultDir_def)
  show "h_stdout_tty (flow_host p)" by (simp add: flow_host_def)
qed code_simp+

section \<open>Properties\<close>

text \<open>C4: What \<open>alice set\<close> has stored, \<open>alice get --reveal\<close> shows. When a set from any of its
  sources has reported success and JSON reads the saved vault back, a later reveal of the same
  key, on the same disk, over the same daemon, prints the value as JSON carries it, or reports
  that Bob is locked, limits the rate, or refuses a request of more than 1 MiB; in between, the
  daemon may serve any other client, lock itself and time out.\<close>

theorem set_then_reveal:
  assumes wire: "wire_ok C" "ident \<noteq> ''''" and "aead_ok G" and "1 \<le> cur" and "cur < 2 ^ 63"
    and "holds_or_wiped keys cur (sv_store sv)"
    and ws: "\<And>n. sound_world G (ws n)"
    and conn: "loadClient H dir (a_disk a) = Inr (bob_net G C ws ident sv, cfg)"
    and set: "parse_args set_flags args = Inr (ss, [key])" "dir = OpenDir (h_environ H) (str_flag ss ''dir'' '''')"
      "vault_load H dir a = Some v" "set_value H ss key (Has v key) a = (Inr value, a0)"
      "cmdSet H args a = (Returned, a1)"
    and json: "\<And>packed. is_ascii packed \<Longrightarrow>
      (let w = (Set key (new_entry (h_now H) ss (Get v key) packed value) v)\<lparr>Vault_Version := Version\<rparr>
       in unmarshal (h_codec H) (marshal (h_codec H) w) = Some w)"
    and H': "h_dial H' = h_dial H" "h_codec H' = h_codec H" "h_stdout_tty H'"
    and get: "parse_args get_flags args' = Inr (ss', [key])" "dir = OpenDir (h_environ H') (str_flag ss' ''dir'' '''')"
      "bool_flag ss' ''reveal''" "\<not> bool_flag ss' ''json''" "cmdGet H' args' a1 = (x, a2)"
  shows "x = Returned \<and> a_out a2 = a_out a1 @ [Text (json_string value)] \<or>
    x = Failed (FromBob Locked) \<or> x = Failed (FromBob RateLimited) \<or>
    x = Failed (FromBob (OtherError ''request exceeds 1 MiB'')) \<and>
      (\<exists>packed. maxReqBytes \<le> length (wc_encode C (decrypt_request (str_flag ss' ''reason'' '''') key packed)))"
  using reveal_after_set [OF assms] by (auto simp: too_large_def split: if_splits)

theorem set_then_reveal_witness:
  "\<exists>a1 x a2. cmdSet (flow_host ''p'') [''--from-env'', ''V'', ''a''] flow_alice = (Returned, a1) \<and>
    cmdGet (flow_host ''p'') [''--reveal'', ''a''] a1 = (x, a2) \<and>
    (x = Returned \<and> a_out a2 = a_out a1 @ [Text ''p''] \<or> x = Failed (FromBob Locked) \<or>
     x = Failed (FromBob RateLimited) \<or> x = Failed (FromBob (OtherError ''request exceeds 1 MiB'')))"
proof -
  have p: "''p'' \<noteq> ''''" "is_ascii ''p''" "set ''p'' \<inter> {CHR ''.'', CHR '';'', CHR ''%'', LF} = {}"
    "length ''p'' + 19 < maxReqBytes" by (simp_all add: maxReqBytes_def)
  note f = flow_run [OF p]
  from f(6) obtain a1 where cs: "cmdSet (flow_host ''p'') [''--from-env'', ''V'', ''a''] flow_alice = (Returned, a1)" by blast
  obtain x a2 where cg: "cmdGet (flow_host ''p'') [''--reveal'', ''a''] a1 = (x, a2)" by (metis surj_pair)
  from set_then_reveal [where H' = "flow_host ''p''" and ws = "\<lambda>n. calm 0" and cur = 1,
      OF demo_wire_ok flow_world(3) demo_aead_ok _ _ flow_world(2,1) f(1-5) cs _ refl refl flow_get(5,1-4) cg]
  have "x = Returned \<and> a_out a2 = a_out a1 @ [Text (json_string ''p'')] \<or> x = Failed (FromBob Locked) \<or>
     x = Failed (FromBob RateLimited) \<or> x = Failed (FromBob (OtherError ''request exceeds 1 MiB''))"
    by (auto simp: Let_def f(7))
  moreover have "json_string ''p'' = ''p''" by (simp add: json_string_ascii)
  ultimately show ?thesis using cs cg by auto
qed

text \<open>C30: A secret can be stored that can never be revealed: the ciphertext is in hexadecimal, so
  that a value of 512 KiB fits in the request that encrypts it but not in one that decrypts
  it. The set reports success, and every later reveal is refused by Bob as too large.\<close>

theorem large_secret_is_stranded:
  assumes wire: "wire_ok C" "ident \<noteq> ''''" and "aead_ok G" and "1 \<le> cur" and "cur < 2 ^ 63"
    and "holds_or_wiped keys cur (sv_store sv)"
    and ws: "\<And>n. sound_world G (ws n)"
    and conn: "loadClient H dir (a_disk a) = Inr (bob_net G C ws ident sv, cfg)"
    and set: "parse_args set_flags args = Inr (ss, [key])" "dir = OpenDir (h_environ H) (str_flag ss ''dir'' '''')"
      "vault_load H dir a = Some v" "set_value H ss key (Has v key) a = (Inr value, a0)"
      "cmdSet H args a = (Returned, a1)"
    and json: "\<And>packed. is_ascii packed \<Longrightarrow>
      (let w = (Set key (new_entry (h_now H) ss (Get v key) packed value) v)\<lparr>Vault_Version := Version\<rparr>
       in unmarshal (h_codec H) (marshal (h_codec H) w) = Some w)"
    and H': "h_dial H' = h_dial H" "h_codec H' = h_codec H" "h_stdout_tty H'"
    and get: "parse_args get_flags args' = Inr (ss', [key])" "dir = OpenDir (h_environ H') (str_flag ss' ''dir'' '''')"
      "bool_flag ss' ''reveal''" "\<not> bool_flag ss' ''json''" "cmdGet H' args' a1 = (x, a2)"
    and "maxReqBytes \<le> 2 * length (json_string value)"
  shows "x = Failed (FromBob (OtherError ''request exceeds 1 MiB''))"
proof -
  from reveal_after_set [OF assms(1-22)] obtain packed where p: "is_ascii packed"
    "2 * length (json_string value) \<le> length packed"
    "if maxReqBytes \<le> length (wc_encode C (decrypt_request (str_flag ss' ''reason'' '''') key packed))
     then x = Failed (FromBob too_large)
     else x = Returned \<and> a_out a2 = a_out a1 @ [Text (json_string value)] \<or>
          x = Failed (FromBob Locked) \<or> x = Failed (FromBob RateLimited)" by blast
  have "Req_Packed (decrypt_request (str_flag ss' ''reason'' '''') key packed) = packed"
    by (simp add: decrypt_request_def)
  with wire(1) p(1) have "length packed \<le> length (wc_encode C (decrypt_request (str_flag ss' ''reason'' '''') key packed))"
    unfolding wire_ok_def by metis
  with p assms(23) show ?thesis by (simp add: too_large_def)
qed

theorem large_secret_is_stranded_witness:
  "\<exists>a1 a2. cmdSet (flow_host (replicate 524288 CHR ''p'')) [''--from-env'', ''V'', ''a''] flow_alice = (Returned, a1) \<and>
    cmdGet (flow_host (replicate 524288 CHR ''p'')) [''--reveal'', ''a''] a1 =
      (Failed (FromBob (OtherError ''request exceeds 1 MiB'')), a2)"
proof -
  define big where "big = replicate 524288 CHR ''p''"
  have p: "big \<noteq> ''''" "is_ascii big" "set big \<inter> {CHR ''.'', CHR '';'', CHR ''%'', LF} = {}" "length big + 19 < maxReqBytes"
    and l: "length big = 524288"
    by (simp_all add: big_def maxReqBytes_def is_ascii_def list_all_iff)
  note f = flow_run [OF p]
  from f(6) obtain a1 where cs: "cmdSet (flow_host big) [''--from-env'', ''V'', ''a''] flow_alice = (Returned, a1)" by blast
  obtain x a2 where cg: "cmdGet (flow_host big) [''--reveal'', ''a''] a1 = (x, a2)" by (metis surj_pair)
  have "maxReqBytes \<le> 2 * length (json_string big)" using p(2) l by (simp add: json_string_ascii maxReqBytes_def)
  from large_secret_is_stranded [where H' = "flow_host big" and ws = "\<lambda>n. calm 0" and cur = 1,
      OF demo_wire_ok flow_world(3) demo_aead_ok _ _ flow_world(2,1) f(1-5) cs _ refl refl flow_get(5,1-4) cg this]
  have "x = Failed (FromBob (OtherError ''request exceeds 1 MiB''))" by (simp add: Let_def f(7))
  with cs cg show ?thesis unfolding big_def by blast
qed

end
