(* ===== verification/Alice_Batch.thy ===== *)
theory Alice_Batch
  imports Alice_Flow
begin

text \<open>
  Batches against a running daemon: the decryption of many entries in one request, as
  \<open>alice read\<close>, \<open>write\<close>, \<open>exec\<close>, \<open>template\<close> and \<open>shell\<close> make it (\<open>cmd/alice/main.go\<close>:
  \<open>decryptAllValues\<close>, \<open>applyRewraps\<close>), and what the write-back of rewrapped entries does to the
  secrets in the vault.
\<close>

section \<open>What a ciphertext of the vault holds\<close>

text \<open>The plaintext of a packed text for a name under the keys of a daemon.\<close>

definition holds_text :: "aead \<Rightarrow> (int \<times> bytes) list \<Rightarrow> string \<Rightarrow> string \<Rightarrow> bytes \<Rightarrow> bool" where
  "holds_text G ring key packed p \<longleftrightarrow> cs.open_packed G (map_of ring) packed key = Some (Inr p)"

lemma SealAAD_needs_key: "SealAAD G rnd k p a = Inr c \<Longrightarrow> k \<noteq> []"
  unfolding SealAAD_def by (erule sealAAD_cases) (auto simp: newGCM_def)

text \<open>One answer of the key store: the plaintext of the text, and a rewrap with the same plaintext.\<close>

definition answers :: "aead \<Rightarrow> (int \<times> bytes) list \<Rightarrow> string \<times> string \<Rightarrow> bytes \<times> string \<Rightarrow> bool" where
  "answers G ring kp out \<longleftrightarrow>
     holds_text G ring (fst kp) (snd kp) (fst out) \<and>
     (snd out \<noteq> [] \<longrightarrow> is_ascii (snd out) \<and> holds_text G ring (fst kp) (snd out) (fst out))"

lemma answers_ascii: "list_all2 (answers G ring) kps out \<Longrightarrow> \<forall>x \<in> set out. is_ascii (snd x)"
proof -
  assume "list_all2 (answers G ring) kps out"
  then have "\<forall>x \<in> set out. \<exists>kp. answers G ring kp x" by (induction rule: list_all2_induct) auto
  moreover have "is_ascii (snd x)" if "answers G ring kp x" for kp x
    using that by (cases "snd x = []") (auto simp: answers_def)
  ultimately show ?thesis by blast
qed

lemma Decrypt_answers:
  assumes "aead_ok G" and "1 \<le> cur" and "cur < 2 ^ 63" and h: "holds_or_wiped ring cur s"
    and iv: "\<And>iv. rnd = Some iv \<Longrightarrow> length iv = 12"
    and d: "fst (Decrypt G rnd t key p s) = Inr (pt, rw, c)"
  shows "answers G ring (key, p) (pt, rw)"
  using d
proof (rule Decrypt_cases)
  fix v raw k
  assume nz: "st_current s \<noteq> 0" and p: "ParseVersion p = Inr (v, raw)" "map_of (st_keys s) v = Some k"
    "OpenAAD G k raw key = Inr pt"
    and same: "v = st_current s \<Longrightarrow> rw = []"
    and other: "v \<noteq> st_current s \<Longrightarrow>
      \<exists>sealed. SealAAD G rnd (key_or_nil s (st_current s)) pt key = Inr sealed \<and> rw = PackVersion (st_current s) sealed"
  from nz h have s: "st_keys s = ring" "st_current s = cur" by (auto simp: holds_or_wiped_def)
  have o: "holds_text G ring key p pt" using p s by (simp add: holds_text_def cs.open_packed_def)
  have "rw \<noteq> [] \<Longrightarrow> is_ascii rw \<and> holds_text G ring key rw pt"
  proof -
    assume "rw \<noteq> []"
    with same other obtain sealed where
      sealed: "SealAAD G rnd (key_or_nil s cur) pt key = Inr sealed" "rw = PackVersion cur sealed"
      using s by auto
    from SealAAD_needs_key [OF sealed(1)] have k: "map_of ring cur = Some (key_or_nil s cur)"
      using s by (auto simp: key_or_nil_def split: option.splits)
    from sealed(1) obtain iv where r: "rnd = Some iv"
      unfolding SealAAD_def by (auto elim: sealAAD_cases)
    from cs.open_packed_sealed [where K = "map_of ring", OF assms(1) sealed(1) [unfolded r] iv [OF r] assms(2,3) k]
      packed_text [OF assms(1) sealed(1), of cur] sealed(2)
    show "is_ascii rw \<and> holds_text G ring key rw pt" by (simp add: holds_text_def)
  qed
  with o show ?thesis by (simp add: answers_def)
qed

lemma decrypt_loop_answers:
  assumes "aead_ok G" and "1 \<le> cur" and "cur < 2 ^ 63" and w: "sound_world G w" and "holds_or_wiped ring cur s"
    and "decrypt_loop G w n ps s = (Inr out, s')"
  shows "list_all2 (answers G ring) ps out"
  using assms(5,6)
proof (induction ps arbitrary: n s out)
  case (Cons a ps)
  obtain key p where a: "a = (key, p)" by (cases a)
  obtain x s1 where d: "Decrypt G (w_rnd w n) (w_now w n) key p (w_other w n s) = (x, s1)"
    by (metis surj_pair)
  have h: "holds_or_wiped ring cur (w_other w n s)"
    using possible_holds [OF sound_worldD(1) [OF w] Cons.prems(1)] .
  then have h1: "holds_or_wiped ring cur s1"
    using Decrypt_fields [of G "w_rnd w n" "w_now w n" key p "w_other w n s"]
    unfolding d by (simp add: holds_or_wiped_def)
  from Cons.prems(2) obtain pt rw c rest where x: "x = Inr (pt, rw, c)"
    and l: "decrypt_loop G w (Suc n) ps s1 = (Inr rest, s')" "out = (pt, rw) # rest"
    by (auto simp: a d split: sum.splits prod.splits)
  have "fst (Decrypt G (w_rnd w n) (w_now w n) key p (w_other w n s)) = Inr (pt, rw, c)" using d x by simp
  from Decrypt_answers [OF assms(1-3) h sound_worldD(2) [OF w] this] Cons.IH [OF h1 l(1)]
  show ?case by (simp add: a l(2))
qed simp

section \<open>The client\<close>

definition decryptMany_request :: "string \<Rightarrow> string list \<Rightarrow> string list \<Rightarrow> Request" where
  "decryptMany_request reason keys packed =
     NoRequest\<lparr>Req_Op := OpDecryptManyName, Req_Keys := keys, Req_PackedMany := packed, Req_Reason := reason\<rparr>"

lemma client_DecryptMany_net:
  assumes "client_DecryptMany reason (net_to G w ident sv) keys packed = Inr (pts, rws)" and "packed \<noteq> []"
  obtains out s' where "decrypt_loop G w 0 (zip keys packed) (sv_store sv) = (Inr out, s')"
    "length keys = length packed" "pts = map fst out"
    "rws = (if list_all (\<lambda>x. x = []) (map snd out) then [] else map snd out)"
proof -
  let ?q = "decryptMany_request reason keys packed"
  obtain r evs sv' where d: "do_decryptMany G w ident ?q sv = (r, evs, sv')" by (metis prod_cases3)
  have "dispatch G w ident ?q sv = do_decryptMany G w ident ?q sv"
    by (simp add: dispatch_def decryptMany_request_def op_defs)
  with assms d have ok: "Resp_OK r" and r: "pts = Resp_PlaintextMany r" "rws = Resp_RewrappedPackedMany r"
    by (auto simp: client_DecryptMany_def client_call_def net_to_def decryptMany_request_def split: if_splits)
  from do_decryptMany_cases [OF d ok] r that show thesis by (auto simp: decryptMany_request_def)
qed

lemma client_DecryptMany_wire:
  assumes "wire_ok C" and "ident \<noteq> []"
  shows "client_DecryptMany reason (\<lambda>req. fst (wire_call G C w ident req sv)) keys packed =
    (if packed = [] then Inr ([], [])
     else if maxReqBytes \<le> length (wc_encode C (decryptMany_request reason keys packed)) then Inl too_large
     else map_sum wire_error (map_prod (map json_string) (map json_string))
       (client_DecryptMany (json_string reason) (net_to G w ident sv) (map json_string keys) (map json_string packed)))"
proof -
  have q: "wire_request (decryptMany_request reason keys packed) =
      decryptMany_request (json_string reason) (map json_string keys) (map json_string packed)"
    by (simp add: wire_request_def decryptMany_request_def NoRequest_def op_defs json_string_ascii)
  show ?thesis
    by (simp add: client_DecryptMany_def client_call_def wire_call_dispatch [OF assms] net_to_def mapErr_too_large
        decryptMany_request_def [symmetric] q mapErr_wire)
      (simp add: wire_response_def mapErr_too_large)
qed

text \<open>A batch of ASCII names and ciphertexts that the daemon has answered.\<close>

lemma batch_answers:
  assumes c: "wire_ok C" "ident \<noteq> []" and "aead_ok G" and "1 \<le> cur" and "cur < 2 ^ 63"
    and "holds_or_wiped ring cur (sv_store sv)" and "sound_world G w"
    and e: "client_DecryptMany reason (\<lambda>req. fst (wire_call G C w ident req sv)) keys packed = Inr (pts, rws)"
    and "length keys = length packed" and ascii: "\<forall>s \<in> set keys \<union> set packed. is_ascii s"
  shows "\<exists>out. list_all2 (answers G ring) (zip keys packed) out \<and> pts = map (json_string \<circ> fst) out \<and>
    (rws = [] \<and> (\<forall>x \<in> set out. snd x = []) \<or> rws = map snd out)"
proof (cases "packed = []")
  case True
  with e assms(9) show ?thesis by (simp add: client_DecryptMany_def)
next
  case False
  have j: "map json_string keys = keys" "map json_string packed = packed"
    using ascii by (simp_all add: map_idI json_string_ascii)
  from e False obtain pts' rws' where
    n: "client_DecryptMany (json_string reason) (net_to G w ident sv) keys packed = Inr (pts', rws')"
    and r: "pts = map json_string pts'" "rws = map json_string rws'"
    unfolding client_DecryptMany_wire [OF c] j by (auto simp: map_sum_def split: if_splits sum.splits)
  from n False obtain out s' where l: "decrypt_loop G w 0 (zip keys packed) (sv_store sv) = (Inr out, s')"
    and o: "pts' = map fst out" "rws' = (if list_all (\<lambda>x. x = []) (map snd out) then [] else map snd out)"
    by (rule client_DecryptMany_net)
  have a: "list_all2 (answers G ring) (zip keys packed) out"
    by (rule decrypt_loop_answers [OF assms(3-5,7,6) l])
  from answers_ascii [OF this] have "map json_string (map snd out) = map snd out" by (simp add: json_string_ascii)
  with a r o show ?thesis by (intro exI [of _ out]) (auto simp: list_all_iff)
qed

section \<open>The vault\<close>

text \<open>A vault of ASCII texts, which JSON reads back.\<close>

definition plain_entry :: "string \<times> SecretEntry \<Rightarrow> bool" where
  "plain_entry ke \<longleftrightarrow>
     (\<forall>s \<in> {fst ke, Value (snd ke), Desc (snd ke), CreatedAt (snd ke), UpdatedAt (snd ke)}. is_ascii s)"

definition plain_vault :: "Vault \<Rightarrow> bool" where
  "plain_vault v \<longleftrightarrow> (\<forall>ke \<in> set (Secrets v). plain_entry ke)"

definition json_ok :: "codec \<Rightarrow> bool" where
  "json_ok J \<longleftrightarrow> (\<forall>v. plain_vault v \<longrightarrow> unmarshal J (marshal J v) = Some v)"

lemma plain_Get: "plain_vault v \<Longrightarrow> Get v k = Some e \<Longrightarrow> plain_entry (k, e)"
  unfolding plain_vault_def Get_def by (blast dest: map_of_SomeD)

lemma update_subset: "set (AList.update k e xs) \<subseteq> insert (k, e) (set xs)"
  by (induction xs) auto

lemma plain_Set: "plain_vault v \<Longrightarrow> plain_entry (k, e) \<Longrightarrow> plain_vault (Set k e v)"
  unfolding plain_vault_def Set_def using update_subset [of k e "Secrets v"] by fastforce

lemma plain_modify:
  "plain_vault v \<Longrightarrow> (\<And>k f e. (k, f) \<in> set kfs \<Longrightarrow> plain_entry (k, e) \<Longrightarrow> plain_entry (k, f e)) \<Longrightarrow>
     plain_vault (vm.modify_all kfs v)"
proof (induction kfs arbitrary: v)
  case (Cons kf kfs)
  obtain k f where kf: "kf = (k, f)" by (cases kf)
  show ?case
  proof (cases "Get v k")
    case None
    with Cons kf show ?thesis by simp
  next
    case (Some e)
    have "plain_entry (k, f e)" using Cons.prems(2) [of k f e] plain_Get [OF Cons.prems(1) Some] by (simp add: kf)
    with Cons.IH [OF plain_Set [OF Cons.prems(1)]] Cons.prems(2) Some show ?thesis by (simp add: kf)
  qed
qed simp

text \<open>The same secrets: the names and the local metadata stay, and a text that an entry holds under
  the keys is held by the entry that replaces it.\<close>

definition same_secrets :: "aead \<Rightarrow> (int \<times> bytes) list \<Rightarrow> Vault \<Rightarrow> Vault \<Rightarrow> bool" where
  "same_secrets G ring v v' \<longleftrightarrow>
     (\<forall>k. (Get v' k = None \<longleftrightarrow> Get v k = None) \<and>
       (\<forall>e e'. Get v k = Some e \<longrightarrow> Get v' k = Some e' \<longrightarrow>
          e' = e\<lparr>Value := Value e', KeyEpoch := KeyEpoch e'\<rparr> \<and>
          (\<forall>p. holds_text G ring k (Value e) p \<longrightarrow> holds_text G ring k (Value e') p)))"

lemma same_secrets_refl [simp]: "same_secrets G ring v v"
  by (simp add: same_secrets_def)

lemma same_secrets_version: "same_secrets G ring v (w\<lparr>Vault_Version := n\<rparr>) = same_secrets G ring v w"
  by (simp add: same_secrets_def Get_def)

lemma rewrap_entry_fields:
  "Value (rewrap_entry rw e) = rw" "Desc (rewrap_entry rw e) = Desc e" "CreatedAt (rewrap_entry rw e) = CreatedAt e"
  "UpdatedAt (rewrap_entry rw e) = UpdatedAt e"
  by (simp_all add: rewrap_entry_def Let_def split: sum.splits prod.splits)

lemma rewrap_entry_shape: "rewrap_entry rw e = e\<lparr>Value := rw, KeyEpoch := KeyEpoch (rewrap_entry rw e)\<rparr>"
  by (simp add: rewrap_entry_def Let_def split: sum.splits prod.splits)

text \<open>The entries that a batch has answered, with their rewraps.\<close>

definition updates :: "string list \<Rightarrow> string list \<Rightarrow> (string \<times> (SecretEntry \<Rightarrow> SecretEntry)) list" where
  "updates keys rws = map (\<lambda>(k, r). (k, rewrap_entry r)) (filter (\<lambda>(k, r). r \<noteq> []) (zip keys rws))"

lemma updates_mem: "(k, f) \<in> set (updates keys rws) \<longleftrightarrow>
    (\<exists>i < min (length keys) (length rws). k = keys ! i \<and> rws ! i \<noteq> [] \<and> f = rewrap_entry (rws ! i))"
  by (auto simp: updates_def set_zip)

lemma updates_distinct: "distinct keys \<Longrightarrow> distinct (map fst (updates keys rws))"
proof -
  assume "distinct keys"
  then have "distinct (map fst (zip keys rws))" by (simp add: map_fst_zip_take)
  then have "distinct (map fst (filter (\<lambda>(k, r). r \<noteq> []) (zip keys rws)))" by (rule distinct_map_filter)
  moreover have "map fst (updates keys rws) = map fst (filter (\<lambda>(k, r). r \<noteq> []) (zip keys rws))"
    by (simp add: updates_def comp_def split_beta)
  ultimately show ?thesis by simp
qed

definition of_vault :: "Vault \<Rightarrow> string list \<Rightarrow> string list \<Rightarrow> bool" where
  "of_vault v keys packed \<longleftrightarrow> distinct keys \<and> length packed = length keys \<and>
     (\<forall>i < length keys. \<exists>e. Get v (keys ! i) = Some e \<and> Value e = packed ! i)"

lemma write_back_same_secrets:
  assumes o: "of_vault v keys packed" and a: "list_all2 (answers G ring) (zip keys packed) out"
  shows "same_secrets G ring v (vm.modify_all (updates keys (map snd out)) v)"
proof -
  let ?u = "updates keys (map snd out)"
  have d: "distinct (map fst ?u)" and l: "length packed = length keys" "length out = length keys"
    using o list_all2_lengthD [OF a] by (simp_all add: of_vault_def updates_distinct)
  show ?thesis
    unfolding same_secrets_def
  proof (intro allI conjI impI)
    fix k
    show "Get (vm.modify_all ?u v) k = None \<longleftrightarrow> Get v k = None" by (rule vm.modify_all_dom)
    fix e e'
    assume g: "Get v k = Some e" "Get (vm.modify_all ?u v) k = Some e'"
    have "e' = e \<or> (\<exists>i < length keys. k = keys ! i \<and> snd (out ! i) \<noteq> [] \<and> e' = rewrap_entry (snd (out ! i)) e)"
    proof (cases "k \<in> fst ` set ?u")
      case True
      then obtain i where i: "i < length keys" "k = keys ! i" "snd (out ! i) \<noteq> []"
        using l by (auto simp: updates_mem)
      then have "(k, rewrap_entry (snd (out ! i))) \<in> set ?u"
        unfolding updates_mem using l by (intro exI [of _ i]) simp
      with vm.modify_all_get [OF d this, of v] g i show ?thesis by auto
    qed (use vm.modify_all_other [of k ?u v] g in simp)
    then have "e' = e\<lparr>Value := Value e', KeyEpoch := KeyEpoch e'\<rparr> \<and> (\<forall>p. holds_text G ring k (Value e) p \<longrightarrow> holds_text G ring k (Value e') p)"
    proof
      assume "\<exists>i < length keys. k = keys ! i \<and> snd (out ! i) \<noteq> [] \<and> e' = rewrap_entry (snd (out ! i)) e"
      then obtain i where i: "i < length keys" "k = keys ! i" "snd (out ! i) \<noteq> []" "e' = rewrap_entry (snd (out ! i)) e"
        by blast
      from list_all2_nthD [OF a, of i] i l have "answers G ring (keys ! i, packed ! i) (out ! i)" by simp
      moreover have "Value e = packed ! i" using o i g by (auto simp: of_vault_def)
      ultimately have "holds_text G ring k (Value e) (fst (out ! i))" "holds_text G ring k (Value e') (fst (out ! i))"
        using i by (simp_all add: answers_def rewrap_entry_fields(1))
      with i rewrap_entry_shape [of "snd (out ! i)" e] show ?thesis
        by (auto simp: holds_text_def rewrap_entry_fields(1))
    qed simp
    then show "e' = e\<lparr>Value := Value e', KeyEpoch := KeyEpoch e'\<rparr>"
      and "\<And>p. holds_text G ring k (Value e) p \<Longrightarrow> holds_text G ring k (Value e') p" by blast+
  qed
qed

lemma plain_write_back:
  assumes "plain_vault v" and "\<forall>x \<in> set out. is_ascii (snd x)"
  shows "plain_vault (vm.modify_all (updates keys (map snd out)) v)"
  using assms(1)
proof (rule plain_modify)
  fix k f e
  assume "(k, f) \<in> set (updates keys (map snd out))" and e: "plain_entry (k, e)"
  then obtain r where "f = rewrap_entry r" "is_ascii r" using assms(2) by (auto simp: updates_mem)
  with e show "plain_entry (k, f e)"
    by (auto simp: plain_entry_def rewrap_entry_fields)
qed

lemma vault_save_fail:
  assumes "vault_save H dir v a = (False, a')"
  shows "vault_load H dir a' = vault_load H dir a"
  using assms vf.not_saved
  by (fastforce simp: vault_save_def finish_write_def Save_def vault_load_def simp del: state_path_names split: prod.splits)

lemma applyRewraps_same_secrets:
  assumes "json_ok (h_codec H)" and "vault_load H dir a = Some v" and "plain_vault v"
    and o: "of_vault v keys packed" and out: "list_all2 (answers G ring) (zip keys packed) out"
    and rws: "rws = [] \<and> (\<forall>x \<in> set out. snd x = []) \<or> rws = map snd out"
    and r: "applyRewraps H dir keys rws a = (n, a')"
  shows "\<exists>v'. vault_load H dir a' = Some v' \<and> plain_vault v' \<and> same_secrets G ring v v'"
proof -
  have l: "length out = length keys" using o list_all2_lengthD [OF out] by (simp add: of_vault_def)
  note asc = answers_ascii [OF out]
  show ?thesis
  proof (cases "rws = [] \<or> filter (\<lambda>(k, r). r \<noteq> []) (zip keys rws) = []")
    case True
    with r rws l have "a' = a" by (auto simp: applyRewraps_def Let_def split: if_splits)
    with assms(2,3) show ?thesis by (intro exI [of _ v]) simp
  next
    case False
    with rws have m: "rws = map snd out" by blast
    let ?w = "vm.modify_all (updates keys rws) v"
    obtain ok a1 where s: "vault_save H dir ?w a = (ok, a1)" by (metis surj_pair)
    with r False m l assms(2) have a': "a' = a1"
      by (auto simp: applyRewraps_def Let_def updates_def split: if_splits)
    note same = write_back_same_secrets [OF o out, folded m]
    have plain: "plain_vault (?w\<lparr>Vault_Version := Version\<rparr>)"
      using plain_write_back [OF assms(3) asc, of keys, folded m] by (simp add: plain_vault_def)
    show ?thesis
    proof (cases ok)
      case True
      with s have "vault_save H dir ?w a = (True, a1)" by simp
      from vault_save_load [OF this] assms(1) plain
      have "vault_load H dir a1 = Some (?w\<lparr>Vault_Version := Version\<rparr>)" by (auto simp: json_ok_def)
      with a' plain same show ?thesis by (auto simp: same_secrets_version)
    next
      case False
      with vault_save_fail s a' assms(2,3) show ?thesis by (intro exI [of _ v]) simp
    qed
  qed
qed

text \<open>One batch, with its answer and its write-back.\<close>

lemma decrypt_keys_batch:
  assumes wire: "wire_ok C" "ident \<noteq> ''''" and "aead_ok G" and "1 \<le> cur" and "cur < 2 ^ 63"
    and "holds_or_wiped ring cur (sv_store sv)" and ws: "\<And>n. sound_world G (ws n)"
    and "loadClient H dir (a_disk a) = Inr (bob_net G C ws ident sv, cfg)"
    and "vault_load H dir a = Some v" and "plain_vault v" and "json_ok (h_codec H)"
    and "of_vault v keys packed" and "decrypt_keys H dir reason keys packed a = (r, a')"
  shows "(\<exists>v'. vault_load H dir a' = Some v' \<and> same_secrets G ring v v') \<and>
    (\<forall>pts. r = Inr pts \<longrightarrow> length pts = length keys \<and>
       (\<forall>i < length keys. \<exists>p. holds_text G ring (keys ! i) (packed ! i) p \<and> pts ! i = json_string p))"
proof -
  let ?conn = "bob_net G C ws ident sv"
  obtain x a1 where q: "ask_DecryptMany ?conn reason keys packed a = (x, a1)" by (metis surj_pair)
  have a1: "a_disk a1 = a_disk a" and x: "x = map_sum FromBob id (client_DecryptMany reason (?conn (a_sent a)) keys packed)"
    using q by (auto simp: ask_DecryptMany_def split: if_splits)
  then have v1: "vault_load H dir a1 = Some v" using assms(9) by (simp add: vault_load_def)
  show ?thesis
  proof (cases "client_DecryptMany reason (?conn (a_sent a)) keys packed")
    case (Inl e)
    with assms(8,13) q x v1 show ?thesis by (auto simp: decrypt_keys_def)
  next
    case (Inr pr)
    obtain pts rws where pr: "pr = (pts, rws)" by (cases pr)
    have asc: "\<forall>s \<in> set keys \<union> set packed. is_ascii s"
    proof -
      have "is_ascii (keys ! i) \<and> is_ascii (packed ! i)" if i: "i < length keys" for i
      proof -
        from assms(12) i obtain en where "Get v (keys ! i) = Some en" "Value en = packed ! i"
          by (auto simp: of_vault_def)
        with plain_Get [OF assms(10)] show ?thesis by (force simp: plain_entry_def)
      qed
      with assms(12) show ?thesis by (auto simp: in_set_conv_nth of_vault_def)
    qed
    have l: "length keys = length packed" using assms(12) by (simp add: of_vault_def)
    note sk = served_keeps [where ws = ws and G = G, OF wire ws assms(6)]
    obtain out where out: "list_all2 (answers G ring) (zip keys packed) out" "pts = map (json_string \<circ> fst) out"
      "rws = [] \<and> (\<forall>x \<in> set out. snd x = []) \<or> rws = map snd out"
      using batch_answers [OF wire assms(3-5) conjunct1 [OF sk] ws Inr [unfolded pr bob_net_wire] l asc] by blast
    obtain n a2 where w: "applyRewraps H dir keys rws a1 = (n, a2)" by (metis surj_pair)
    have lo: "length out = length keys" using list_all2_lengthD [OF out(1)] l by simp
    with out(2) have d: "decrypt_keys H dir reason keys packed a = (Inr pts, a2)"
      using assms(8) q x Inr pr w by (simp add: decrypt_keys_def)
    from applyRewraps_same_secrets [OF assms(11) v1 assms(10,12) out(1,3) w]
    have "\<exists>v'. vault_load H dir a2 = Some v' \<and> same_secrets G ring v v'" by blast
    moreover have "\<exists>p. holds_text G ring (keys ! i) (packed ! i) p \<and> pts ! i = json_string p" if "i < length keys" for i
      using list_all2_nthD [OF out(1), of i] that l lo out(2) by (auto simp: answers_def)
    ultimately show ?thesis using d assms(13) lo out(2) by auto
  qed
qed

section \<open>Properties\<close>


text \<open>A daemon with two key versions, and a vault sealed under the older one.\<close>

definition batch_server :: Server where
  "batch_server = NewServer (HoldMulti 0 [(1, demo_key), (2, demo_key)] 2 0 NewStore) demo_policy"

definition batch_host :: host where
  "batch_host = (flow_host ''p'')\<lparr>h_dial :=
     (\<lambda>c k q t. Some (bob_net demo_aead demo_wire (\<lambda>n. calm 0) ''al'' batch_server))\<rparr>"

definition batch_vault :: "string \<Rightarrow> Vault" where
  "batch_vault packed = \<lparr>Vault_Version = 1, Secrets = [(''a'', \<lparr>Value = packed, Desc = ''d'', CreatedAt = ''2025'',
     UpdatedAt = ''2025'', KeyEpoch = 1, LenBytes = 1, EntropyBits = 8\<rparr>)]\<rparr>"

definition batch_alice :: "string \<Rightarrow> alice" where
  "batch_alice packed = flow_alice\<lparr>a_disk :=
     (\<lambda>p. Content (if p = ''/d/vault.json'' then marshal flow_codec (batch_vault packed) else []))\<rparr>"


end
