(* ===== verification/Alice_Read.thy ===== *)
theory Alice_Read
  imports Alice_Batch Alice_Files
begin

text \<open>
  The agent's way to read a file (\<open>cmd/alice/safe.go\<close>: \<open>cmdRead\<close>) against a running daemon: from
  the vault through \<open>decryptAllValues\<close>, the daemon and the wire to the redaction of the text.
\<close>

section \<open>The values a command knows\<close>

text \<open>The order in which the code iterates over the vault visits each name once.\<close>

definition visits_all :: "host \<Rightarrow> bool" where
  "visits_all H \<longleftrightarrow> (\<forall>ks. mset (h_order H ks) = mset ks)"

text \<open>A secret of the vault under the keys of a daemon.\<close>

definition secret_of :: "aead \<Rightarrow> (int \<times> bytes) list \<Rightarrow> Vault \<Rightarrow> string \<Rightarrow> bytes \<Rightarrow> bool" where
  "secret_of G ring v k p \<longleftrightarrow> (\<exists>e. Get v k = Some e \<and> holds_text G ring k (Value e) p)"

lemma update_all_fst: "fst ` set (fold (\<lambda>(p, k). AList.update p k) ps m) = fst ` set ps \<union> fst ` set m"
proof (induction ps arbitrary: m)
  case (Cons x ps)
  obtain p k where x: "x = (p, k)" by (cases x)
  have "fst ` set (AList.update p k m) = insert p (fst ` set m)" by (induction m) auto
  with Cons.IH [of "AList.update p k m"] show ?case by (auto simp: x)
qed simp

lemma update_all_snd: "snd ` set (fold (\<lambda>(p, k). AList.update p k) ps m) \<subseteq> snd ` set ps \<union> snd ` set m"
proof (induction ps arbitrary: m)
  case (Cons x ps)
  obtain p k where x: "x = (p, k)" by (cases x)
  have "snd ` set (AList.update p k m) \<subseteq> insert k (snd ` set m)" by (induction m) auto
  with Cons.IH [of "AList.update p k m"] show ?case by (auto simp: x)
qed simp

lemma decryptAllValues_batch:
  assumes wire: "wire_ok C" "ident \<noteq> ''''" and "aead_ok G" and "1 \<le> cur" and "cur < 2 ^ 63"
    and "holds_or_wiped ring cur (sv_store sv)" and ws: "\<And>n. sound_world G (ws n)"
    and "loadClient H dir (a_disk a) = Inr (bob_net G C ws ident sv, cfg)"
    and v: "vault_load H dir a = Some v" "plain_vault v" "vault_ok v" and "json_ok (h_codec H)"
    and "visits_all H" and d: "decryptAllValues H dir a = (Inr vals, a')"
  shows "snd ` set vals \<subseteq> fst ` set (Secrets v) \<and> (\<forall>k p. secret_of G ring v k p \<longrightarrow> json_string p \<in> fst ` set vals)"
proof (cases "Secrets v = []")
  case True
  with d v(1) show ?thesis by (simp add: decryptAllValues_def secret_of_def Get_def)
next
  case False
  define keys where "keys = h_order H (map fst (Secrets v))"
  define packed where "packed = map (\<lambda>k. case Get v k of None \<Rightarrow> '''' | Some e \<Rightarrow> Value e) keys"
  have m: "mset keys = mset (map fst (Secrets v))" using assms(13) by (simp add: keys_def visits_all_def)
  then have keys: "set keys = fst ` set (Secrets v)" "distinct keys"
    using v(3) mset_eq_setD [OF m] mset_eq_imp_distinct_iff [OF m] by (simp_all add: vault_ok_def)
  have get: "Get v k \<noteq> None" if "k \<in> set keys" for k using that by (simp add: keys(1) Get_def map_of_eq_None_iff)
  have "\<exists>e. Get v (keys ! i) = Some e \<and> Value e = packed ! i" if "i < length keys" for i
    using get [OF nth_mem [OF that]] that by (cases "Get v (keys ! i)") (simp_all add: packed_def)
  then have o: "of_vault v keys packed"
    using keys(2) by (simp add: of_vault_def packed_def)
  obtain r a1 where k: "decrypt_keys H dir '''' keys packed a = (r, a1)" by (metis surj_pair)
  from d False v(1) k obtain pts where r: "r = Inr pts" and vals: "vals = fold (\<lambda>(p, k). AList.update p k) (zip pts keys) []"
    by (auto simp: decryptAllValues_def Let_def keys_def packed_def split: sum.splits)
  from decrypt_keys_batch [OF assms(1-10,12) o k] r
  have b: "length pts = length keys" "\<And>i. i < length keys \<Longrightarrow> \<exists>p. holds_text G ring (keys ! i) (packed ! i) p \<and> pts ! i = json_string p"
    by auto
  have "fst ` set (zip pts keys) = set pts" "snd ` set (zip pts keys) = set keys"
    using b(1) by (metis map_fst_zip set_map, metis map_snd_zip set_map)
  then have vs: "fst ` set vals = set pts" "snd ` set vals \<subseteq> set keys"
    using update_all_fst [of "zip pts keys" "[]"] update_all_snd [of "zip pts keys" "[]"] by (auto simp: vals)
  have "json_string p \<in> set pts" if "secret_of G ring v k p" for k p
  proof -
    from that obtain e where e: "Get v k = Some e" "holds_text G ring k (Value e) p" by (auto simp: secret_of_def)
    then have "k \<in> set keys" using keys(1) by (force simp: Get_def dest: map_of_SomeD)
    then obtain i where i: "i < length keys" "keys ! i = k" by (auto simp: in_set_conv_nth)
    from b(2) [OF i(1)] e i have "pts ! i = json_string p" by (auto simp: packed_def holds_text_def)
    with i(1) b(1) show ?thesis by (metis nth_mem)
  qed
  with vs keys(1) show ?thesis by auto
qed

lemma removable_names: "snd ` set entries' \<subseteq> snd ` set entries \<Longrightarrow> removable sha entries p \<Longrightarrow> removable sha entries' p"
  by (fastforce simp: removable_def)

lemma known_values_frame:
  assumes "known_values H dir a = (r, a')"
  shows "a_out a' = a_out a"
proof -
  have "same_but_vault dir a a'"
    using assms decrypt_keys_frame
    by (fastforce simp: known_values_def decryptAllValues_def Let_def split: if_splits option.splits prod.splits sum.splits)
  then show ?thesis by (simp add: same_but_vault_def)
qed

section \<open>Properties\<close>

text \<open>The names of the vault as the keys of a map of values.\<close>

definition names_only :: "Vault \<Rightarrow> (string \<times> string) list" where
  "names_only v = map (\<lambda>(k, e). ('''', k)) (Secrets v)"

text \<open>C1: \<open>alice read\<close> shows no secret of the vault. Over a running daemon, whatever other
  connections and the timer do, the command either prints nothing, or prints the file with
  numbered lines as a text in which no plaintext of any entry of the vault occurs: every one is
  decrypted, comes back over the wire and is replaced, except those that no replacement could
  remove: the empty one, one with an angle bracket or a line feed, and one that is part of the
  text of a placeholder.\<close>

theorem read_hides_secrets:
  assumes wire: "wire_ok C" "ident \<noteq> ''''" and "aead_ok G" and "1 \<le> cur" and "cur < 2 ^ 63"
    and "holds_or_wiped ring cur (sv_store sv)" and ws: "\<And>n. sound_world G (ws n)"
    and "loadClient H dir (a_disk a) = Inr (bob_net G C ws ident sv, cfg)"
    and v: "vault_load H dir a = Some v" "plain_vault v" "vault_ok v" and "json_ok (h_codec H)"
    and "visits_all H"
    and read: "parse_args dir_flags args = Inr (ss, [path])" "dir = OpenDir (h_environ H) (str_flag ss ''dir'' '''')"
      "cmdRead H args a = (x, a')"
  shows "x \<noteq> Returned \<and> a_out a' = a_out a \<or>
    (\<exists>raw shown. x = Returned \<and> a_disk a path = Content raw \<and> a_out a' = a_out a @ printCatN shown raw \<and>
       (\<forall>k p. secret_of G ring v k p \<and> removable (h_sha256 H) (names_only v) (json_string p) \<longrightarrow>
          \<not> Contains shown (json_string p)))"
proof (cases "\<exists>raw. a_disk a path = Content raw")
  case False
  with read show ?thesis by (cases "a_disk a path") (auto simp: cmdRead_def)
next
  case True
  then obtain raw where raw: "a_disk a path = Content raw" by blast
  obtain r a1 where k: "known_values H dir a = (r, a1)" by (metis surj_pair)
  note out = known_values_frame [OF k]
  show ?thesis
  proof (cases r)
    case (Inl e)
    with read raw k out show ?thesis by (auto simp: cmdRead_def)
  next
    case (Inr vals)
    have "\<not> Contains (Redact (h_sha256 H) raw vals) (json_string p)"
      if s: "secret_of G ring v k p" and p: "removable (h_sha256 H) (names_only v) (json_string p)" for k p
    proof -
      have "VaultExists dir (a_disk a)"
        using s v(1) by (auto simp: secret_of_def VaultExists_def vault_load_def Load_def Get_def split: file_bytes.splits)
      with \<open>known_values H dir a = (r, a1)\<close> Inr have "decryptAllValues H dir a = (Inr vals, a1)"
        by (simp add: known_values_def)
      note b = decryptAllValues_batch [OF assms(1-13) this]
      have "snd ` set vals \<subseteq> snd ` set (names_only v)" using b by (force simp: names_only_def)
      with p have "removable (h_sha256 H) vals (json_string p)" by (rule removable_names [rotated])
      moreover from b s have "json_string p \<in> fst ` set vals" by blast
      then obtain j where "(json_string p, j) \<in> set vals" by force
      ultimately show ?thesis by (rule Redact_removes [rotated])
    qed
    with read raw k out Inr show ?thesis by (auto simp: cmdRead_def)
  qed
qed

text \<open>A vault with the secret \<open>p\<close> under the name \<open>a\<close>, and a file that has it.\<close>

definition read_alice :: "string \<Rightarrow> alice" where
  "read_alice packed = flow_alice\<lparr>a_disk :=
     (\<lambda>p. Content (if p = ''/d/vault.json'' then marshal flow_codec (batch_vault packed)
                   else if p = ''/f'' then ''pw=p'' else []))\<rparr>"

lemma length_esc_le: "length (esc s) \<le> 2 * length s"
  by (induction s) auto

lemma read_answer:
  assumes raw: "SealAAD demo_aead (Some (replicate 12 CHR ''n'')) demo_key ''p'' ''a'' = Inr raw"
  shows "client_DecryptMany '''' (bob_net demo_aead demo_wire (\<lambda>n. calm 0) ''al'' demo_server []) [''a''] [PackVersion 1 raw] =
      Inr ([''p''], [])"
    and "holds_text demo_aead [(1, demo_key)] ''a'' (PackVersion 1 raw) ''p''"
proof -
  let ?p = "PackVersion 1 raw" and ?w = "calm 0"
  have iv: "length (replicate 12 CHR ''n'') = 12" by simp
  have op: "cs.open_packed demo_aead (map_of [(1, demo_key)]) ?p ''a'' = Some (Inr ''p'')"
    by (rule cs.open_packed_sealed [OF demo_aead_ok raw iv]) simp_all
  then show "holds_text demo_aead [(1, demo_key)] ''a'' ?p ''p''" by (simp add: holds_text_def)
  have pv: "ParseVersion ?p = Inr (1, raw)" using cs.pack_unpack [OF raw, of 1] by simp
  have D: "fst (Decrypt demo_aead (w_rnd ?w 0) (w_now ?w 0) ''a'' ?p (sv_store demo_server)) = Inr (''p'', [], True)"
    using op pv by (simp add: Decrypt_open_packed)
  then obtain s' where d: "Decrypt demo_aead (Some (replicate 12 CHR ''n'')) 0 ''a'' ?p (sv_store demo_server) = (Inr (''p'', [], True), s')"
    by (metis calm_simps(1,2) prod.collapse)
  have n: "client_DecryptMany '''' (net_to demo_aead ?w ''al'' demo_server) [''a''] [?p] = Inr ([''p''], [])"
    by (simp add: client_DecryptMany_def client_call_def net_to_def dispatch_def op_defs do_decryptMany_def NoRequest_def
        rateLimit_def allow_def guard_def d Let_def)
  have asc: "is_ascii ?p" using packed_text [OF demo_aead_ok raw] by simp
  have "length raw \<le> 60"
    using raw unfolding SealAAD_def by (rule sealAAD_cases) (auto simp: length_HexEncode demo_aead_def)
  moreover have "Itoa 1 = ''1''" by code_simp
  ultimately have "length ?p \<le> 70" by (simp add: PackVersion_def)
  with length_esc_le [of ?p] have "length (esc ?p) \<le> 140" by simp
  then have l: "\<not> maxReqBytes \<le> length (wc_encode demo_wire (decryptMany_request '''' [''a''] [?p]))"
    by (simp add: demo_wire_def wire_fields_def esc_list_def decryptMany_request_def NoRequest_def op_defs maxReqBytes_def)
  have "''al'' \<noteq> ''''" by simp
  from client_DecryptMany_wire [OF demo_wire_ok this, of "''''" demo_aead ?w demo_server "[''a'']" "[?p]"] l n asc
  show "client_DecryptMany '''' (bob_net demo_aead demo_wire (\<lambda>n. calm 0) ''al'' demo_server []) [''a''] [?p] = Inr ([''p''], [])"
    by (simp add: bob_net_wire served_def json_string_ascii)
qed

theorem read_hides_secrets_witness:
  "\<exists>packed a' shown. cmdRead (flow_host ''p'') [''/f''] (read_alice packed) = (Returned, a') \<and>
    secret_of demo_aead [(1, demo_key)] (batch_vault packed) ''a'' ''p'' \<and>
    a_disk (read_alice packed) ''/f'' = Content ''pw=p'' \<and> a_out a' = printCatN shown ''pw=p'' \<and> \<not> Contains shown ''p''"
proof -
  obtain raw where raw: "SealAAD demo_aead (Some (replicate 12 CHR ''n'')) demo_key ''p'' ''a'' = Inr raw"
    by (rule demo_seal)
  define packed where "packed = PackVersion 1 raw"
  note ans = read_answer [OF raw, folded packed_def]
  have asc: "is_ascii packed" using packed_text [OF demo_aead_ok raw] by (simp add: packed_def)
  let ?H = "flow_host ''p''" and ?v = "batch_vault packed" and ?a = "read_alice packed"
  have pv: "VaultPath ''/d'' = ''/d/vault.json''" by code_simp
  have v: "vault_load ?H ''/d'' ?a = Some ?v"
    unfolding vault_load_def Load_def pv
    by (simp add: read_alice_def flow_host_def) (simp add: flow_codec_def vault_decode_code)
  have ps: "ConfigPath ''/d'' = ''/d/config.json''" "ClientCertPath ''/d'' = ''/d/client.crt''"
    "ClientKeyPath ''/d'' = ''/d/client.key''" "CAPath ''/d'' = ''/d/ca.crt''" by code_simp+
  have c: "loadClient ?H ''/d'' (a_disk ?a) = Inr (bob_net demo_aead demo_wire (\<lambda>n. calm 0) ''al'' demo_server,
      \<lparr>BobAddr = ''b:1'', ServerName = ''b'', Identity = ''al''\<rparr>)"
    unfolding loadClient_def LoadConfig_def ps
    by (simp add: read_alice_def flow_host_def flow_codec_def)
  have j: "json_ok (h_codec ?H)" by (simp add: json_ok_def flow_host_def flow_codec_def vault_decode_code)
  have p: "plain_vault ?v" using asc by (simp add: plain_vault_def plain_entry_def batch_vault_def)
  have vis: "visits_all ?H" by (simp add: visits_all_def flow_host_def)
  have dist: "vault_ok ?v" by (simp add: vault_ok_def batch_vault_def)
  have pa: "parse_args dir_flags [''/f''] = Inr ([], [''/f''])" by code_simp
  have dir: "''/d'' = OpenDir (h_environ ?H) (str_flag [] ''dir'' '''')"
    by (simp add: OpenDir_def DefaultDir_def str_flag_def Getenv_def flow_host_def HasPrefix_def)
  have s: "secret_of demo_aead [(1, demo_key)] ?v ''a'' ''p''"
    using ans(2) by (simp add: secret_of_def batch_vault_def Get_def)
  have jp: "json_string ''p'' = ''p''" by (simp add: json_string_ascii)
  have n: "\<not> sublist ''p'' (''agent-vault:'' @ ''a'')"
    "\<not> sublist ''p'' (''agent-vault:UNVAULTED:sha256:'' @ take 12 (replicate 64 CHR ''0''))"
    unfolding Contains_iff_sublist [symmetric] by code_simp+
  have rem: "removable (h_sha256 ?H) (names_only ?v) (json_string ''p'')"
    unfolding jp using n
    by (simp add: removable_def plain_def sha256Prefix_def unvaultedPrefixLen_def flow_host_def names_only_def batch_vault_def)
  obtain x a' where r: "cmdRead ?H [''/f''] ?a = (x, a')" by (metis surj_pair)
  have f: "a_disk ?a ''/f'' = Content ''pw=p''" "a_out ?a = []" "a_sent ?a = []" by (simp_all add: read_alice_def flow_alice_def)
  have "fst (decryptAllValues ?H ''/d'' ?a) = Inr [(''p'', ''a'')]"
    using v c ans(1) f(3)
    by (simp add: decryptAllValues_def batch_vault_def Get_def decrypt_keys_def ask_DecryptMany_def applyRewraps_def flow_host_def)
  moreover have "VaultExists ''/d'' (a_disk ?a)" unfolding VaultExists_def pv by (simp add: read_alice_def)
  ultimately have "fst (known_values ?H ''/d'' ?a) = Inr [(''p'', ''a'')]" by (simp add: known_values_def)
  with r pa f(1) dir have "x = Returned" by (auto simp: cmdRead_def split: prod.splits)
  with read_hides_secrets [where ws = "\<lambda>n. calm 0" and cur = 1,
      OF demo_wire_ok flow_world(3) demo_aead_ok _ _ flow_world(2,1) c v p dist j vis pa dir r]
  obtain shown where shown: "a_out a' = a_out ?a @ printCatN shown ''pw=p''"
    "\<And>k p. secret_of demo_aead [(1, demo_key)] ?v k p \<and>
       removable (h_sha256 ?H) (names_only ?v) (json_string p) \<Longrightarrow> \<not> Contains shown (json_string p)"
    using f(1) by auto
  from shown(2) [of "''a''" "''p''"] s rem have "\<not> Contains shown ''p''" unfolding jp by blast
  with s f r shown(1) \<open>x = Returned\<close> show ?thesis by (intro exI [of _ packed] exI [of _ a'] exI [of _ shown]) simp
qed

end
