(* ===== verification/Alice_Edit.thy ===== *)
theory Alice_Edit
  imports Alice_Batch
begin

text \<open>
  What the editing commands leave in the vault (\<open>cmd/alice/sensitive.go\<close>: rm, desc, import):
  each either leaves every entry as it was, or does exactly what its arguments say.
\<close>

section \<open>Saving an edited vault\<close>

text \<open>The file after an attempt to save \<open>w\<close> over \<open>v\<close>: one of the two, and \<open>w\<close> if it is reported.\<close>

lemma save_or_fail_cases:
  assumes "json_ok (h_codec H)" and "plain_vault w" and "vault_load H dir a = Some v"
    and s: "save_or_fail H dir w ls a = (x, a')"
  obtains "x = Returned" and "vault_load H dir a' = Some (w\<lparr>Vault_Version := Version\<rparr>)" and "a_out a' = a_out a @ ls"
  | "x = Failed SaveFailed" and "vault_load H dir a' = Some v"
proof -
  obtain ok a1 where 1: "vault_save H dir w a = (ok, a1)" by (metis surj_pair)
  show thesis
  proof (cases ok)
    case True
    from assms(1,2) have "unmarshal (h_codec H) (marshal (h_codec H) (w\<lparr>Vault_Version := Version\<rparr>)) = Some (w\<lparr>Vault_Version := Version\<rparr>)"
      by (simp add: json_ok_def plain_vault_def)
    from vault_save_load [OF 1 [unfolded True [THEN eqTrueI]] this] s 1 True vault_save_frame(1) [OF 1]
    show thesis by (intro that(1)) (auto simp: save_or_fail_def same_but_vault_def)
  next
    case False
    with 1 have "vault_save H dir w a = (False, a1)" by simp
    from vault_save_fail [OF this] s 1 False assms(3) show thesis by (intro that(2)) (auto simp: save_or_fail_def)
  qed
qed

section \<open>alice rm\<close>

text \<open>The names an argument stands for: itself, when the vault has it, or those it matches.\<close>

definition named :: "Vault \<Rightarrow> string \<Rightarrow> string set" where
  "named v pat = (if Has v pat then {pat} else {k. Has v k \<and> Match pat k})"

lemma matchKeys_set: "set (matchKeys v pat) = {k. Has v k \<and> Match pat k}"
  using VaultList_keys [of v] by (auto simp: matchKeys_def)

lemma rm_keys_named:
  "case rm_keys v pats of
     Inl x \<Rightarrow> \<exists>pat \<in> set pats. named v pat = {} \<and> x = NoMatch pat
   | Inr ks \<Rightarrow> (\<forall>pat \<in> set pats. named v pat \<noteq> {}) \<and> set ks = (\<Union>pat \<in> set pats. named v pat)"
proof (induction pats)
  case (Cons pat pats)
  define hits where "hits = (if Has v pat then [pat] else matchKeys v pat)"
  have h: "set hits = named v pat" by (simp add: hits_def named_def matchKeys_set)
  show ?case
  proof (cases "hits = []")
    case True
    with h have "named v pat = {}" by auto
    then show ?thesis using True by (simp add: hits_def [symmetric] Let_def)
  next
    case False
    with h have "named v pat \<noteq> {}" by auto
    then show ?thesis
      using Cons.IH False h by (auto simp: hits_def [symmetric] Let_def split: sum.splits)
  qed
qed simp

lemma remove_all_get:
  "vault_ok v \<Longrightarrow> Get (remove_all ks v) k = (if k \<in> set ks then None else Get v k)"
proof (induction ks arbitrary: v)
  case (Cons j ks)
  from Cons.IH [OF vm.ok_del [OF Cons.prems, of j]] vm.get_del [OF Cons.prems, of j k]
  show ?case by (auto simp: remove_all_def)
qed (simp add: remove_all_def)

lemma remove_all_plain: "plain_vault v \<Longrightarrow> plain_vault (remove_all ks v)"
proof (induction ks arbitrary: v)
  case (Cons j ks)
  have "plain_vault (snd (Remove j v))"
    using Cons.prems by (auto simp: Remove_def plain_vault_def AList.delete_eq)
  from Cons.IH [OF this] show ?case by (simp add: remove_all_def)
qed (simp add: remove_all_def)

text \<open>The vault on the disk holds the same entries.\<close>

definition entries_at :: "host \<Rightarrow> string \<Rightarrow> alice \<Rightarrow> (string \<Rightarrow> SecretEntry option) option" where
  "entries_at H dir a = map_option Get (vault_load H dir a)"

lemma Get_version [simp]: "Get (v\<lparr>Vault_Version := n\<rparr>) = Get v"
  by (simp add: Get_def fun_eq_iff)

section \<open>Properties\<close>

text \<open>The branches of the command once its arguments have named keys, and what a removal leaves.\<close>

lemma cmdRm_named:
  assumes "parse_args rm_flags args = Inr (ss, pats)" and "dir = OpenDir (h_environ H) (str_flag ss ''dir'' '''')"
    and "vault_load H dir a = Some v" and "rm_keys v pats = Inr ks" and "keys = sort (remdups ks)"
    and "Confirm False (a_stdin a) = (ok, rest)"
    and "b = say (map (\<lambda>k. Field ''remove'' k) keys) (a\<lparr>a_stdin := rest\<rparr>)"
  shows "cmdRm H args a =
        (if pats = [] then (Failed Usage, a)
         else if bool_flag ss ''yes'' then save_or_fail H dir (remove_all keys v) [Removed (length keys)] a
         else if \<not> h_stdin_tty H then (Failed (NeedsYes (length keys)), a)
         else if ok = Some True then save_or_fail H dir (remove_all keys v) [Removed (length keys)] b
         else (Returned, say [Cancelled] b))"
  using assms by (simp add: cmdRm_def Let_def)

lemma removal_saved:
  assumes "save_or_fail H dir (remove_all keys v) ls b = (x, a')" and "vault_load H dir b = Some v"
    and "vault_ok v" and "plain_vault v" and "json_ok (h_codec H)"
  shows "x = Returned \<and> entries_at H dir a' = Some (\<lambda>k. if k \<in> set keys then None else Get v k) \<or>
    x = Failed SaveFailed \<and> entries_at H dir a' = Some (Get v)"
  using assms(1)
proof (rule save_or_fail_cases [OF assms(5) remove_all_plain [OF assms(4)] assms(2)])
  assume "x = Returned" and "vault_load H dir a' = Some ((remove_all keys v)\<lparr>Vault_Version := Version\<rparr>)"
  then show ?thesis
    using remove_all_get [OF assms(3), of keys] by (simp add: entries_at_def fun_eq_iff)
next
  assume "x = Failed SaveFailed" and "vault_load H dir a' = Some v"
  then show ?thesis by (simp add: entries_at_def)
qed

text \<open>C29: \<open>alice rm\<close> removes exactly what its arguments name, all of it or nothing. An argument
  names the key it is, or, if there is none, the keys the glob matches; one that names nothing
  is reported and stops the command before it asks or writes anything. Without \<open>--yes\<close> off a
  terminal, without the operator's yes, and when the save fails, every entry stays.\<close>

theorem rm_removes_exactly:
  assumes "parse_args rm_flags args = Inr (ss, pats)" and "dir = OpenDir (h_environ H) (str_flag ss ''dir'' '''')"
    and "vault_load H dir a = Some v" and "vault_ok v" and "plain_vault v" and "json_ok (h_codec H)"
    and "cmdRm H args a = (x, a')"
  shows "(x = Returned \<and> pats \<noteq> [] \<and> (\<forall>pat \<in> set pats. named v pat \<noteq> {}) \<and>
       entries_at H dir a' = Some (\<lambda>k. if k \<in> (\<Union>pat \<in> set pats. named v pat) then None else Get v k)) \<or>
    (entries_at H dir a' = Some (Get v) \<and>
       (x = Failed Usage \<and> pats = [] \<or> (\<exists>pat \<in> set pats. named v pat = {} \<and> x = Failed (NoMatch pat) \<and> a' = a) \<or>
        (\<exists>n. x = Failed (NeedsYes n)) \<and> \<not> bool_flag ss ''yes'' \<and> \<not> h_stdin_tty H \<or>
        x = Returned \<and> \<not> bool_flag ss ''yes'' \<and> last (a_out a') = Cancelled \<or> x = Failed SaveFailed))"
proof -
  have same: "entries_at H dir a = Some (Get v)" using assms(3) by (simp add: entries_at_def)
  show ?thesis
  proof (cases "rm_keys v pats")
    case (Inl e)
    with rm_keys_named [of pats v] same assms(1-3,7) show ?thesis
      by (auto simp: cmdRm_def Let_def split: if_splits)
  next
    case (Inr ks)
    with rm_keys_named [of pats v] have n: "\<forall>pat \<in> set pats. named v pat \<noteq> {}"
      "set (sort (remdups ks)) = (\<Union>pat \<in> set pats. named v pat)" by simp_all
    obtain ok rest where c: "Confirm False (a_stdin a) = (ok, rest)" by (metis surj_pair)
    define b where "b = say (map (\<lambda>k. Field ''remove'' k) (sort (remdups ks))) (a\<lparr>a_stdin := rest\<rparr>)"
    have b: "vault_load H dir b = Some v" using assms(3) by (simp add: vault_load_def b_def)
    note d = cmdRm_named [OF assms(1-3) Inr refl c b_def, unfolded assms(7)]
    note removed = removal_saved [OF _ _ assms(4-6), of dir "sort (remdups ks)" _ _ x a', unfolded n(2)]
    consider "pats = []" | "pats \<noteq> []" "bool_flag ss ''yes''" | "pats \<noteq> []" "\<not> bool_flag ss ''yes''" "\<not> h_stdin_tty H"
      | "pats \<noteq> []" "\<not> bool_flag ss ''yes''" "h_stdin_tty H" "ok = Some True"
      | "pats \<noteq> []" "\<not> bool_flag ss ''yes''" "h_stdin_tty H" "ok \<noteq> Some True" by blast
    then show ?thesis
    proof cases
      case 2
      with removed [OF _ assms(3)] d n(1) show ?thesis by fastforce
    next
      case 4
      with removed [OF _ b] d n(1) show ?thesis by fastforce
    next
      case 5
      with d b show ?thesis by (auto simp: entries_at_def)
    qed (use d same in auto)
  qed
qed

text \<open>A vault of three entries.\<close>

definition three_entries :: Vault where
  "three_entries = \<lparr>Vault_Version = 1, Secrets = map (\<lambda>k. (k, \<lparr>Value = [], Desc = [], CreatedAt = [], UpdatedAt = [],
     KeyEpoch = 0, LenBytes = 0, EntropyBits = 0\<rparr>)) [''a-1'', ''b'', ''a-2'']\<rparr>"

definition three_alice :: alice where
  "three_alice = flow_alice\<lparr>a_disk := (\<lambda>p. Content (marshal flow_codec three_entries))\<rparr>"

lemma three_named: "named three_entries ''a-*'' = {''a-1'', ''a-2''}"
proof -
  have "\<not> Has three_entries ''a-*''" by (simp add: Has_def three_entries_def)
  moreover have "Has three_entries k \<longleftrightarrow> k \<in> {''a-1'', ''b'', ''a-2''}" for k by (auto simp: Has_def three_entries_def)
  moreover have "Match ''a-*'' ''a-1''" "Match ''a-*'' ''a-2''" "\<not> Match ''a-*'' ''b''" by code_simp+
  ultimately show ?thesis by (auto simp: named_def)
qed

theorem rm_removes_exactly_witness:
  "\<exists>x a' f. cmdRm (flow_host ''p'') [''--yes'', ''a-*''] three_alice = (x, a') \<and>
    (x = Returned \<and> entries_at (flow_host ''p'') ''/d'' a' = Some f \<and> f ''a-1'' = None \<and> f ''a-2'' = None \<and> f ''b'' \<noteq> None \<or>
     x = Failed SaveFailed \<and> entries_at (flow_host ''p'') ''/d'' a' = Some (Get three_entries))"
proof -
  let ?H = "flow_host ''p''"
  have pa: "parse_args rm_flags [''--yes'', ''a-*''] = Inr ([(''yes'', ''true'')], [''a-*''])" by code_simp
  have y: "bool_flag [(''yes'', ''true'')] ''yes''" by code_simp
  have d: "''/d'' = OpenDir (h_environ ?H) (str_flag [(''yes'', ''true'')] ''dir'' '''')"
    by (simp add: OpenDir_def DefaultDir_def str_flag_def Getenv_def flow_host_def HasPrefix_def)
  have v: "vault_load ?H ''/d'' three_alice = Some three_entries"
    by (simp add: vault_load_def Load_def three_alice_def flow_host_def flow_codec_def vault_decode_code)
  have ok: "vault_ok three_entries" "plain_vault three_entries"
    by (simp_all add: vault_ok_def plain_vault_def plain_entry_def three_entries_def)
  have j: "json_ok (h_codec ?H)" by (simp add: json_ok_def flow_host_def flow_codec_def vault_decode_code)
  obtain x a' where r: "cmdRm ?H [''--yes'', ''a-*''] three_alice = (x, a')" by (metis surj_pair)
  have b: "Get three_entries ''b'' \<noteq> None" by (simp add: Get_def three_entries_def)
  from rm_removes_exactly [OF pa d v ok j r] y r b show ?thesis by (auto simp: three_named)
qed

end
