(* ===== verification/Bob_Admin.thy ===== *)
theory Bob_Admin
  imports Bob_Rotate Authz
begin

text \<open>
  Setting Bob up (\<open>cmd/bob/main.go\<close>): \<open>ca init\<close>, \<open>init\<close> and \<open>sign-csr\<close>, with \<open>writeOrStdout\<close>
  and \<open>splitCSV\<close>. Diagnostics on standard error are not recorded. Durations are nanoseconds
  in 64 bits, so that a large \<open>--ttl-years\<close> or \<open>--ttl-days\<close> wraps around.
\<close>

section \<open>Helpers\<close>

definition splitCSV :: "string \<Rightarrow> string list" where
  "splitCSV s = filter (\<lambda>t. t \<noteq> '''') (map TrimSpace (Split s CHR '',''))"

text \<open>A product of durations, in 64 bits.\<close>

definition duration :: "int \<Rightarrow> int" where
  "duration n = sint (word_of_int n :: 64 word)"

definition hour :: int where "hour = 60 * minute"

definition bob_flag_dir :: "bob \<Rightarrow> settings \<Rightarrow> string" where
  "bob_flag_dir b ss = bobDir (b_environ b) (str_flag ss ''dir'' '''')"

definition from_ca :: "ca_error + 'a \<Rightarrow> 'a bob_op" where
  "from_ca r = (case r of Inl e \<Rightarrow> fail (CAFailed e) | Inr x \<Rightarrow> give x)"

section \<open>bob ca init\<close>

definition ca_flags :: flag_set where
  "ca_flags = [(''dir'', StringFlag), (''cn'', StringFlag), (''ttl-years'', IntFlag), (''force'', BoolFlag)]"

definition cmdCA :: "bob_host \<Rightarrow> string list \<Rightarrow> unit bob_op" where
  "cmdCA H args b =
     (case args of
        [] \<Rightarrow> (Inl BobUsage, b)
      | sub # rest \<Rightarrow>
          if sub \<noteq> ''init'' then (Inl BobUsage, b)
          else
            andThen (parsed ca_flags rest) (\<lambda>(ss, pos).
              let d = bob_flag_dir b ss in
              andThen (check (\<not> exists_file d ''ca.key'' (b_disk b) \<or> bool_flag ss ''force'') (AlreadyThere ''ca.key'')) (\<lambda>_.
              andThen (from_ca (NewCA (bh_pki H) (bh_keypair H) (str_flag ss ''cn'' ''AnB-ca'')
                         (duration (int_flag ss [''ttl-years''] 10 * 365 * 24 * hour)) (bh_times H 0))) (\<lambda>authority.
              andThen (from_ca (marshalKey (bh_pki H) (CA_Key authority))) (\<lambda>keyPEM.
              andThen (writeFile H d ''ca.crt'' (CA_CertPEM authority)) (\<lambda>_.
              andThen (writeFile H d ''ca.key'' keyPEM) (\<lambda>_.
              tell (CACreated d))))))) b)"

section \<open>bob init\<close>

definition init_bob_flags :: flag_set where
  "init_bob_flags = [(''dir'', StringFlag), (''host'', StringFlag), (''force'', BoolFlag)]"

definition authzExampleJSON :: string where
  "authzExampleJSON = concat (map (\<lambda>l. l @ [LF])
     [''{'', ''  '' @ [DQ] @ ''rules'' @ [DQ] @ '': {'',
      ''    '' @ [DQ] @ ''alice-laptop'' @ [DQ] @ '': ['' @ [DQ] @ ''*'' @ [DQ] @ ''],'',
      ''    '' @ [DQ] @ ''agent-ci'' @ [DQ] @ '':     ['' @ [DQ] @ ''ci-'' @ [DQ] @ '', '' @ [DQ] @ ''deploy-'' @ [DQ] @ '']'',
      ''  }'', ''}''])"

text \<open>The first envelope: one key, version 1.\<close>

definition first_envelope :: "bob_host \<Rightarrow> string \<Rightarrow> EnvelopeFile bob_op" where
  "first_envelope H password =
     andThen (sample H MasterKeyLen) (\<lambda>rnd.
       case NewMasterKey rnd of
         Inl e \<Rightarrow> fail (CryptoFailed e)
       | Inr mk \<Rightarrow>
           andThen (sample H saltLen) (\<lambda>salt. andThen (sample H gcmNonceLen) (\<lambda>iv.
             case Wrap (bh_gcm H) (bh_kdf H) salt iv mk password of
               Inl e \<Rightarrow> fail (CryptoFailed e)
             | Inr env \<Rightarrow>
                 give \<lparr>EF_Version = 0, EF_Keys = [env\<lparr>Env_ID := 1, Env_Created := bh_stamp H\<rparr>],
                       EF_Current = 1\<rparr>)))"

definition cmdInitBob :: "bob_host \<Rightarrow> string list \<Rightarrow> unit bob_op" where
  "cmdInitBob H args b =
     andThen (parsed init_bob_flags args) (\<lambda>(ss, pos).
       let d = bob_flag_dir b ss in
       andThen (check (exists_file d ''ca.key'' (b_disk b)) (NotThere ''ca.key'')) (\<lambda>_.
       andThen (check (\<not> exists_file d ''envelope.json'' (b_disk b) \<or> bool_flag ss ''force'') (AlreadyThere ''envelope.json'')) (\<lambda>_.
       andThen (from_ca (LoadCA (bh_pki H) (bytes_at d ''ca.crt'' (b_disk b)) (bytes_at d ''ca.key'' (b_disk b)))) (\<lambda>authority.
       andThen (masterPassword H ReadNewPassword) (\<lambda>password.
       andThen (first_envelope H password) (\<lambda>envFile.
       andThen (writeEnvelope H d envFile) (\<lambda>_.
         let hostList = splitCSV (str_flag ss ''host'' ''localhost,127.0.0.1'') in
         case IssueServer (bh_pki H) (bh_keypair H) authority hostList (825 * 24 * hour) (bh_times H 0) of
           None \<Rightarrow> fail BobPanic
         | Some r \<Rightarrow>
             andThen (from_ca r) (\<lambda>(srvCert, srvKey).
             andThen (writeFile H d ''server.crt'' srvCert) (\<lambda>_.
             andThen (writeFile H d ''server.key'' srvKey) (\<lambda>_.
             andThen (writeFile H d ''authz.json.example'' authzExampleJSON) (\<lambda>_.
             tell (Initialized hostList)))))))))))) b"

section \<open>bob sign-csr\<close>

definition sign_flags :: flag_set where
  "sign_flags = [(''dir'', StringFlag), (''out'', StringFlag), (''ttl-days'', IntFlag), (''no-pair'', BoolFlag)]"

definition pairCodeTTL :: int where "pairCodeTTL = 10 * minute"

text \<open>\<open>os.WriteFile\<close> in place, or standard output.\<close>

definition writeOrStdout :: "string \<Rightarrow> bytes \<Rightarrow> unit bob_op" where
  "writeOrStdout out certPEM b =
     (if out \<noteq> '''' then
        (if b_disk b out = Unopenable then (Inl (NotReplaced out), b)
         else (Inr (), b\<lparr>b_disk := (b_disk b)(out := Content certPEM)\<rparr>))
      else tell (CertOut certPEM) b)"

text \<open>\<open>term.Confirm\<close> with the end of the input as an error.\<close>

definition confirmed :: "unit bob_op" where
  "confirmed b =
     (case Confirm False (b_stdin b) of
        (None, rest) \<Rightarrow> (Inl PromptFailed, b\<lparr>b_stdin := rest\<rparr>)
      | (Some ok, rest) \<Rightarrow> (if ok then Inr () else Inl Aborted, b\<lparr>b_stdin := rest\<rparr>))"

text \<open>The check of the request before anything is shown to the operator: \<open>parseAndValidateCSR\<close>
  written out in the command.\<close>

definition precheck_csr :: "pki \<Rightarrow> bytes \<Rightarrow> ca_error + csr" where
  "precheck_csr K csrPEM =
     (case pem_decode K csrPEM of
        None \<Rightarrow> Inl NotPEM
      | Some (typ, der) \<Rightarrow>
          if typ \<noteq> pemCSR then Inl NotPEM
          else (case parse_csr K der of
                  None \<Rightarrow> Inl BadEncoding
                | Some r \<Rightarrow>
                    if \<not> csr_signed K der then Inl BadSignature
                    else if CSR_CN r = '''' then Inl EmptyCN
                    else Inr r))"

definition sign_unpaired :: "bob_host \<Rightarrow> CA \<Rightarrow> settings \<Rightarrow> bytes \<Rightarrow> unit bob_op" where
  "sign_unpaired H authority ss csrPEM =
     andThen confirmed (\<lambda>_.
     andThen (from_ca (SignCSR (bh_pki H) authority csrPEM
                (duration (int_flag ss [''ttl-days''] 90 * 24 * hour)) (bh_times H 0))) (\<lambda>(certPEM, identity).
     writeOrStdout (str_flag ss ''out'' '''') certPEM))"

definition sign_paired :: "bob_host \<Rightarrow> CA \<Rightarrow> settings \<Rightarrow> bytes \<Rightarrow> csr \<Rightarrow> unit bob_op" where
  "sign_paired H authority ss csrPEM r =
     (case NewPairingCode (bh_code H) of
        None \<Rightarrow> fail (CAFailed KeyGenFailed)
      | Some code \<Rightarrow>
          (let pairing = \<lparr>Commit = PairingCommit (bh_pki H) code (PubkeyFingerprint (bh_pki H) (CSR_SPKI r)),
                          ExpiresAt = bh_times H 0 + pairCodeTTL\<rparr> in
           andThen confirmed (\<lambda>_.
           andThen (from_ca (SignCSRWithPairing (bh_pki H) authority csrPEM
                      (duration (int_flag ss [''ttl-days''] 90 * 24 * hour)) pairing (bh_times H 1))) (\<lambda>(certPEM, identity).
           writeOrStdout (str_flag ss ''out'' '''') certPEM))))"

definition cmdSignCSR :: "bob_host \<Rightarrow> string list \<Rightarrow> unit bob_op" where
  "cmdSignCSR H args b =
     andThen (parsed sign_flags args) (\<lambda>(ss, pos).
       let d = bob_flag_dir b ss in
       andThen (check (length pos = 1) BobUsage) (\<lambda>_.
       andThen (from_ca (LoadCA (bh_pki H) (bytes_at d ''ca.crt'' (b_disk b)) (bytes_at d ''ca.key'' (b_disk b)))) (\<lambda>authority.
         case b_disk b (hd pos) of
           Content csrPEM \<Rightarrow>
             andThen (from_ca (precheck_csr (bh_pki H) csrPEM)) (\<lambda>r.
               if bool_flag ss ''no-pair'' then sign_unpaired H authority ss csrPEM
               else sign_paired H authority ss csrPEM r)
         | _ \<Rightarrow> fail (FileUnreadable (hd pos))))) b"

end
