(* ===== verification/Enrolment.thy ===== *)
theory Enrolment
  imports Alice_Admin Bob_Admin "HOL-Library.Countable"
begin

text \<open>
  Enrolment from end to end: \<open>bob sign-csr\<close> (\<open>cmd/bob/main.go\<close>) writes a client certificate for
  Alice's request and shows a pairing code, and \<open>alice install-cert\<close> (\<open>cmd/alice/sensitive.go\<close>)
  installs the certificate against the code.
\<close>

section \<open>Bob's side\<close>

text \<open>The command checks a request as the authority does.\<close>

lemma precheck_csr_eq: "precheck_csr K csrPEM = parseAndValidateCSR K csrPEM"
  by (simp add: precheck_csr_def parseAndValidateCSR_def)

lemma from_ca_Inr: "from_ca r b = (Inr x, b') \<longleftrightarrow> r = Inr x \<and> b' = b"
  by (cases r) (auto simp: from_ca_def)

lemma confirmed_Inr:
  "confirmed b = (Inr u, b') \<longleftrightarrow> (\<exists>rest. Confirm False (b_stdin b) = (Some True, rest) \<and> b' = b\<lparr>b_stdin := rest\<rparr>)"
  by (auto simp: confirmed_def split: prod.splits option.splits if_splits)

text \<open>A run that succeeds: the operator has confirmed a request that is valid, and the file named
  holds the certificate.\<close>

lemma cmdSignCSR_paired:
  assumes "cmdSignCSR H args b = (Inr (), b')" and "parse_args sign_flags args = Inr (ss, pos)"
    and "\<not> bool_flag ss ''no-pair''" and "str_flag ss ''out'' '''' = out" and "out \<noteq> ''''"
  obtains authority csrPEM r code certPEM ident rest where
    "b_disk b (hd pos) = Content csrPEM" "parseAndValidateCSR (bh_pki H) csrPEM = Inr r"
    "Confirm False (b_stdin b) = (Some True, rest)" "NewPairingCode (bh_code H) = Some code"
    "SignCSRWithPairing (bh_pki H) authority csrPEM (duration (int_flag ss [''ttl-days''] 90 * 24 * hour))
       \<lparr>Commit = PairingCommit (bh_pki H) code (PubkeyFingerprint (bh_pki H) (CSR_SPKI r)),
        ExpiresAt = bh_times H 0 + pairCodeTTL\<rparr> (bh_times H 1) = Inr (certPEM, ident)"
    "b_disk b' out = Content certPEM"
proof -
  from assms(1,2) obtain authority csrPEM where d: "b_disk b (hd pos) = Content csrPEM"
    and s: "andThen (from_ca (precheck_csr (bh_pki H) csrPEM)) (\<lambda>r.
       if bool_flag ss ''no-pair'' then sign_unpaired H authority ss csrPEM
       else sign_paired H authority ss csrPEM r) b = (Inr (), b')"
    by (cases "b_disk b (hd pos)")
      (auto simp: cmdSignCSR_def andThen_Inr parsed_def from_ca_Inr check_Inr Let_def)
  from s assms(3) obtain r where r: "parseAndValidateCSR (bh_pki H) csrPEM = Inr r"
    and p: "sign_paired H authority ss csrPEM r b = (Inr (), b')"
    by (auto simp: andThen_Inr from_ca_Inr precheck_csr_eq)
  from p obtain code where c: "NewPairingCode (bh_code H) = Some code"
    by (auto simp: sign_paired_def split: option.splits)
  let ?sign = "SignCSRWithPairing (bh_pki H) authority csrPEM (duration (int_flag ss [''ttl-days''] 90 * 24 * hour))
       \<lparr>Commit = PairingCommit (bh_pki H) code (PubkeyFingerprint (bh_pki H) (CSR_SPKI r)),
        ExpiresAt = bh_times H 0 + pairCodeTTL\<rparr> (bh_times H 1)"
  from p c obtain rest certPEM ident where q: "Confirm False (b_stdin b) = (Some True, rest)"
    and sg: "?sign = Inr (certPEM, ident)"
    and w: "writeOrStdout (str_flag ss ''out'' '''') certPEM (b\<lparr>b_stdin := rest\<rparr>) = (Inr (), b')"
    by (auto simp: sign_paired_def Let_def andThen_Inr confirmed_Inr from_ca_Inr)
  from w assms(4,5) have "b_disk b' out = Content certPEM"
    by (auto simp: writeOrStdout_def split: if_splits)
  from that [OF d r q c sg this] show thesis .
qed

section \<open>Alice's side\<close>

lemma write_one:
  assumes "h_fault H (a_writes a) = NoFault"
  shows "\<exists>a'. write_files H dir [(n, b)] a = (True, a') \<and> a_disk a' (FilepathJoin [dir, n]) = Content b"
  using assms by (auto simp: finish_write_def WriteFile_def writeAtomic_def Let_def)

text \<open>Installing against a code that the operator has given.\<close>

lemma cmdInstallCert_code:
  assumes "parse_args [(''dir'', StringFlag), (''no-pair'', BoolFlag)] args = Inr (ss, [path])"
    and "\<not> bool_flag ss ''no-pair''" and "a_disk a path = Content certPEM" and "parseCert K certPEM = Inr cert"
    and "readPairingCode H a = (Inr code, a1)"
  shows "cmdInstallCert K now H args a =
    (case VerifyPairing K cert code now of
       Some e \<Rightarrow> (Failed (pairing_failure e), a1)
     | None \<Rightarrow>
         (case write_files H (OpenDir (h_environ H) (str_flag ss ''dir'' '''')) [(''client.crt'', certPEM)] a1 of
            (ok, a2) \<Rightarrow>
              if ok then (Returned, say [Installed (ClientCertPath (OpenDir (h_environ H) (str_flag ss ''dir'' '''')))] a2)
              else (Failed WriteFailed, a2)))"
  using assms by (simp add: cmdInstallCert_def check_pairing_def Let_def split: option.splits)

section \<open>An example\<close>

definition cert_code :: "certificate \<Rightarrow> nat" where
  "cert_code c =
     to_nat (Cert_CN c, Cert_SPKI c, Cert_DNS c, Cert_IPs c, map (\<lambda>u. u = ServerAuth) (Cert_Usage c), Cert_IsCA c,
       Cert_NotBefore c, Cert_NotAfter c, Cert_Exts c)"

definition cert_decode :: "nat \<Rightarrow> certificate" where
  "cert_decode n =
     (case from_nat n of (cn, k, ds, ips, us, isca, nb, na, es) \<Rightarrow>
        \<lparr>Cert_CN = cn, Cert_SPKI = k, Cert_DNS = ds, Cert_IPs = ips,
         Cert_Usage = map (\<lambda>b. if b then ServerAuth else ClientAuth) us, Cert_IsCA = isca,
         Cert_NotBefore = nb, Cert_NotAfter = na, Cert_Exts = es\<rparr>)"

lemma cert_decode_code: "cert_decode (cert_code c) = c"
proof -
  have u: "(if u = ServerAuth then ServerAuth else ClientAuth) = u" for u by (cases u) simp_all
  show ?thesis by (cases c) (simp add: cert_decode_def cert_code_def comp_def u)
qed

definition enrol_pki :: pki where
  "enrol_pki = demo_pki\<lparr>create_cert := \<lambda>t k. Some (replicate (cert_code t) CHR ''x''),
     parse_certificate := \<lambda>der. Some (cert_decode (length der))\<rparr>"

lemma enrol_pki_ok: "pki_ok enrol_pki"
  using demo_pki_ok by (auto simp: pki_ok_def enrol_pki_def cert_decode_code)

definition enrol_bob :: bob_host where
  "enrol_bob = (demo_bob demo_file)\<lparr>bh_pki := enrol_pki, bh_code := Some 7\<rparr>"

definition enrol_state :: bob where
  "enrol_state = demo_state\<lparr>b_stdin := ''y'' @ [LF],
     b_disk := (\<lambda>p. if p = ''r'' then Content (pemCSR @ '':x'') else if p = ''d/ca.crt'' then Content (pemCert @ '':x'')
                    else if p = ''d/ca.key'' then Content (pemKey @ '':x'') else Missing)\<rparr>"

section \<open>Properties\<close>



end
