(* ===== verification/Bob_Migrate.thy ===== *)
theory Bob_Migrate
  imports Bob_Rotate Keystore
begin

text \<open>
  \<open>bob migrate-aad\<close> (\<open>cmd/bob/migrate.go\<close>): binding every entry of a vault to its name. The
  vault is backed up, its entries are opened with or without their name as additional data,
  those without are sealed again under the current key, and the vault is saved once.
\<close>

definition migrate_flags :: flag_set where
  "migrate_flags = [(''dir'', StringFlag), (''vault-dir'', StringFlag)]"

text \<open>\<open>os.WriteFile\<close> of the backup, in place.\<close>

definition write_backup :: "bob_host \<Rightarrow> string \<Rightarrow> bytes \<Rightarrow> unit bob_op" where
  "write_backup H path raw b =
     (let b' = b\<lparr>b_writes := Suc (b_writes b)\<rparr> in
      if b_disk b path = Unopenable then (Inl BackupFailed, b')
      else
        (case bh_fault H (b_writes b) of
           Replaced \<Rightarrow> (Inr (), b'\<lparr>b_disk := (b_disk b)(path := Content raw)\<rparr>)
         | ShortWrite n \<Rightarrow> (Inl BackupFailed, b'\<lparr>b_disk := (b_disk b)(path := Content (take n raw))\<rparr>)
         | _ \<Rightarrow> (Inl BackupFailed, b')))"

text \<open>The loop over the entries, in the order of the map iteration: the vault so far, and the
  numbers of entries sealed again and left alone.\<close>

fun migrate_entries ::
  "bob_host \<Rightarrow> (int \<times> bytes) list \<Rightarrow> int \<Rightarrow> bytes \<Rightarrow> (string \<times> SecretEntry) list \<Rightarrow>
     Vault \<Rightarrow> nat \<Rightarrow> nat \<Rightarrow> (Vault \<times> nat \<times> nat) bob_op" where
  "migrate_entries H mks cur curK [] v migrated already = give (v, migrated, already)"
| "migrate_entries H mks cur curK ((name, e) # es) v migrated already =
     (case ParseVersion (Value e) of
        Inl x \<Rightarrow> fail (EntryFailed name x)
      | Inr (ver, body) \<Rightarrow>
          (case map_of mks ver of
             None \<Rightarrow> fail (EntryRetired name ver)
           | Some k \<Rightarrow>
               (case OpenAAD (bh_gcm H) k body name of
                  Inr _ \<Rightarrow> migrate_entries H mks cur curK es v migrated (Suc already)
                | Inl _ \<Rightarrow>
                    (case Open (bh_gcm H) k body of
                       Inl x \<Rightarrow> fail (EntryFailed name x)
                     | Inr pt \<Rightarrow>
                         andThen (sample H gcmNonceLen) (\<lambda>iv.
                           case SealAAD (bh_gcm H) iv curK pt name of
                             Inl x \<Rightarrow> fail (EntryFailed name x)
                           | Inr sealed \<Rightarrow>
                               migrate_entries H mks cur curK es
                                 (Set name (e\<lparr>Value := PackVersion cur sealed\<rparr>) v) (Suc migrated) already)))))"

definition save_migrated ::
  "bob_host \<Rightarrow> string \<Rightarrow> string \<Rightarrow> Vault \<times> nat \<times> nat \<Rightarrow> unit bob_op" where
  "save_migrated H vdir bak r b =
     (case r of
        (v, migrated, already) \<Rightarrow>
          if migrated = 0 then tell (AllBound already) (b\<lparr>b_disk := (b_disk b)(bak := Missing)\<rparr>)
          else
            (case Save (bh_codec H) (bh_vaultFault H) vdir v (b_disk b) of
               (ok, ds) \<Rightarrow>
                 if ok then tell (Migrated migrated already) (b\<lparr>b_disk := last ds\<rparr>)
                 else (Inl VaultSaveFailed, b\<lparr>b_disk := last ds\<rparr>)))"

definition backup_path :: "bob_host \<Rightarrow> string \<Rightarrow> string" where
  "backup_path H vdir = VaultPath vdir @ ''.pre-aad-'' @ bh_stampOf H (bh_times H 0)"

definition migrate_vault ::
  "bob_host \<Rightarrow> string \<Rightarrow> (int \<times> bytes) list \<Rightarrow> int \<Rightarrow> bytes \<Rightarrow> unit bob_op" where
  "migrate_vault H vdir mks cur curK b =
     (case Load (bh_codec H) vdir (b_disk b) of
        None \<Rightarrow> (Inl VaultLoadFailed, b)
      | Some v \<Rightarrow>
          if Secrets v = [] then tell NothingToMigrate b
          else
            (case b_disk b (VaultPath vdir) of
               Content raw0 \<Rightarrow>
                 andThen (write_backup H (backup_path H vdir) raw0) (\<lambda>_.
                 andThen (migrate_entries H mks cur curK (bh_entries H (Secrets v)) v 0 0)
                   (save_migrated H vdir (backup_path H vdir))) b
             | _ \<Rightarrow> (Inl BackupFailed, b)))"

definition vault_dir :: "string list \<Rightarrow> settings \<Rightarrow> string" where
  "vault_dir environ ss =
     (let vdir = str_flag ss ''vault-dir'' '''' in
      OpenDir environ (if vdir = '''' then DefaultDir environ else vdir))"

definition cmdMigrateAAD :: "bob_host \<Rightarrow> string list \<Rightarrow> unit bob_op" where
  "cmdMigrateAAD H args b =
     andThen (parsed migrate_flags args) (\<lambda>(ss, pos).
       andThen (loadAndUnwrapEnvelope H (bobDir (b_environ b) (str_flag ss ''dir'' ''''))) (\<lambda>(envFile, pass).
       andThen (lift (unwrapAll H envFile pass)) (\<lambda>mks.
         case map_of mks (EF_Current envFile) of
           None \<Rightarrow> fail (NoCurrentKey (EF_Current envFile))
         | Some curK \<Rightarrow> migrate_vault H (vault_dir (b_environ b) ss) mks (EF_Current envFile) curK))) b"

section \<open>One entry\<close>

text \<open>An entry read under its name, and an entry read the old way.\<close>

definition bound_to :: "bob_host \<Rightarrow> (int \<times> bytes) list \<Rightarrow> string \<Rightarrow> string \<Rightarrow> bytes \<Rightarrow> bool" where
  "bound_to H mks name packed pt \<longleftrightarrow>
     cs.open_packed (bh_gcm H) (map_of mks) packed name = Some (Inr pt)"

definition legacy_of :: "bob_host \<Rightarrow> (int \<times> bytes) list \<Rightarrow> string \<Rightarrow> bytes \<Rightarrow> bool" where
  "legacy_of H mks packed pt \<longleftrightarrow>
     cs.open_packed (bh_gcm H) (map_of mks) packed [] = Some (Inr pt)"

text \<open>What migrating one entry may do: nothing to a bound one; a legacy one keeps its plaintext
  and everything but its ciphertext, and is bound afterwards.\<close>

definition migrated_to ::
  "bob_host \<Rightarrow> (int \<times> bytes) list \<Rightarrow> string \<Rightarrow> SecretEntry \<Rightarrow> SecretEntry \<Rightarrow> bool" where
  "migrated_to H mks name e e' \<longleftrightarrow>
     (\<exists>pt. bound_to H mks name (Value e) pt) \<and> e' = e \<or>
     (\<exists>pt. (\<nexists>q. bound_to H mks name (Value e) q) \<and> legacy_of H mks (Value e) pt \<and>
        bound_to H mks name (Value e') pt \<and> e' = e\<lparr>Value := Value e'\<rparr>)"

lemma Open_as_AAD: "Open G k c = OpenAAD G k c []"
  by (simp add: Open_def OpenAAD_def)

lemma bound_to_iff:
  assumes "ParseVersion packed = Inr (ver, body)" and "map_of mks ver = Some k"
  shows "bound_to H mks name packed pt \<longleftrightarrow> OpenAAD (bh_gcm H) k body name = Inr pt"
    and "legacy_of H mks packed pt \<longleftrightarrow> Open (bh_gcm H) k body = Inr pt"
  using assms by (simp_all add: bound_to_def legacy_of_def cs.open_packed_def Open_as_AAD)

lemma resealed_bound:
  assumes "bob_ok H" and "SealAAD (bh_gcm H) (bh_draw H i gcmNonceLen) curK pt name = Inr sealed"
    and "map_of mks cur = Some curK" and "1 \<le> cur" and "cur < 2 ^ 63"
  shows "bound_to H mks name (PackVersion cur sealed) pt"
proof -
  from assms(2) obtain iv where iv: "bh_draw H i gcmNonceLen = Some iv"
    by (auto simp: SealAAD_def elim: sealAAD_cases)
  with assms(1) have "length iv = 12" by (auto simp: bob_ok_def gcmNonceLen_def)
  with assms iv show ?thesis
    unfolding bound_to_def by (intro cs.open_packed_sealed) (auto simp: bob_ok_def)
qed

section \<open>All entries\<close>

text \<open>The loop, for entries with distinct names that are those of the vault: it ends with every
  one of them migrated, and the number of the changed ones is zero exactly when nothing
  changed.\<close>

lemma migrate_entries_Inr:
  assumes "bob_ok H" and "map_of mks cur = Some curK" and "1 \<le> cur" and "cur < 2 ^ 63"
    and "migrate_entries H mks cur curK es v m n b = (Inr (v', m', n'), b')"
    and "distinct (map fst es)" and "\<forall>(k, e) \<in> set es. Get v k = Some e"
  shows "(\<forall>(k, e) \<in> set es. \<exists>e'. Get v' k = Some e' \<and> migrated_to H mks k e e') \<and>
    (\<forall>k. k \<notin> fst ` set es \<longrightarrow> Get v' k = Get v k) \<and>
    m \<le> m' \<and> (m' = m \<longrightarrow> v' = v \<and> (\<forall>(k, e) \<in> set es. \<exists>pt. bound_to H mks k (Value e) pt)) \<and>
    b_disk b' = b_disk b"
  using assms(5-7)
proof (induction es arbitrary: v m n b)
  case (Cons a es)
  obtain k e where a: "a = (k, e)" by (cases a)
  from Cons.prems(1) obtain ver body key where p: "ParseVersion (Value e) = Inr (ver, body)"
    and key: "map_of mks ver = Some key"
    by (auto simp: a split: sum.splits option.splits)
  note bi = bound_to_iff [OF p key]
  show ?case
  proof (cases "OpenAAD (bh_gcm H) key body k")
    case (Inr pt)
    with Cons.prems(1) p key have r: "migrate_entries H mks cur curK es v m (Suc n) b = (Inr (v', m', n'), b')"
      by (simp add: a)
    from Cons.IH [OF r] Cons.prems(2,3) a have IH:
      "\<forall>(k, e) \<in> set es. \<exists>e'. Get v' k = Some e' \<and> migrated_to H mks k e e'"
      "\<forall>k. k \<notin> fst ` set es \<longrightarrow> Get v' k = Get v k" "m \<le> m'" "b_disk b' = b_disk b"
      "m' = m \<longrightarrow> v' = v \<and> (\<forall>(k, e) \<in> set es. \<exists>pt. bound_to H mks k (Value e) pt)" by auto
    have bound: "bound_to H mks k (Value e) pt" using Inr bi(1) by simp
    from Cons.prems(2,3) a IH(2) have "Get v' k = Some e" by auto
    moreover from bound have "migrated_to H mks k e e" by (auto simp: migrated_to_def)
    ultimately show ?thesis using IH bound a by auto
  next
    case (Inl x)
    with Cons.prems(1) p key obtain pt sealed where o: "Open (bh_gcm H) key body = Inr pt"
      and s: "SealAAD (bh_gcm H) (bh_draw H (b_draws b) gcmNonceLen) curK pt k = Inr sealed"
      and r: "migrate_entries H mks cur curK es (Set k (e\<lparr>Value := PackVersion cur sealed\<rparr>) v) (Suc m) n
        (b\<lparr>b_draws := Suc (b_draws b)\<rparr>) = (Inr (v', m', n'), b')"
      by (auto simp: a andThen_Inr split: sum.splits)
    let ?e = "e\<lparr>Value := PackVersion cur sealed\<rparr>"
    have g: "\<forall>(j, e) \<in> set es. Get (Set k ?e v) j = Some e"
      using Cons.prems(2,3) a by (auto simp: vm.get_put rev_image_eqI)
    from Cons.IH [OF r _ g] Cons.prems(2) a have IH:
      "\<forall>(k, e) \<in> set es. \<exists>e'. Get v' k = Some e' \<and> migrated_to H mks k e e'"
      "\<forall>j. j \<notin> fst ` set es \<longrightarrow> Get v' j = Get (Set k ?e v) j" "Suc m \<le> m'" "b_disk b' = b_disk b" by auto
    from resealed_bound [OF assms(1) s assms(2-4)] have "bound_to H mks k (Value ?e) pt" by simp
    moreover from Inl bi(1) have "\<nexists>q. bound_to H mks k (Value e) q" by simp
    moreover from o bi(2) have "legacy_of H mks (Value e) pt" by simp
    ultimately have "migrated_to H mks k e ?e" by (auto simp: migrated_to_def)
    moreover from IH(2) Cons.prems(2) a have "Get v' k = Some ?e" by (simp add: vm.get_put)
    ultimately show ?thesis using IH a by (auto simp: vm.get_put)
  qed
qed simp

section \<open>The whole vault\<close>

lemma keeps_migrate_entries [keeps_intros]: "keeps_disk (migrate_entries H mks cur curK es v m n)"
proof (induction es arbitrary: v m n)
  case (Cons a es)
  obtain k e where "a = (k, e)" by (cases a)
  with Cons show ?case
    by (auto intro!: keeps_intros split: sum.split option.split prod.split)
qed (simp add: keeps_intros)

lemma backup_not_vault: "backup_path H vdir \<noteq> VaultPath vdir" "VaultPath vdir \<noteq> backup_path H vdir"
  "backup_path H vdir \<noteq> VaultPath vdir @ ''.tmp''"
  by (simp_all add: backup_path_def)

lemma write_backup_vault: "write_backup H (backup_path H vdir) raw b = (r, b1) \<Longrightarrow>
    b_disk b1 (VaultPath vdir) = b_disk b (VaultPath vdir)"
  using backup_not_vault by (auto simp: write_backup_def Let_def split: if_splits replace_fault.splits)

lemma write_backup_done: "write_backup H path raw b = (Inr u, b1) \<Longrightarrow> b_disk b1 = (b_disk b)(path := Content raw)"
  by (auto simp: write_backup_def Let_def split: if_splits replace_fault.splits)

lemma Save_result:
  assumes "Save J fault vdir v d = (ok, ds)"
  shows "ok \<Longrightarrow> last ds (VaultPath vdir) = Content (marshal J (v\<lparr>Vault_Version := Version\<rparr>))"
    and "\<not> ok \<Longrightarrow> last ds (VaultPath vdir) = d (VaultPath vdir)"
    and "p \<noteq> VaultPath vdir \<Longrightarrow> p \<noteq> VaultPath vdir @ ''.tmp'' \<Longrightarrow> last ds p = d p"
proof -
  note s = assms [unfolded Save_def]
  show "ok \<Longrightarrow> last ds (VaultPath vdir) = Content (marshal J (v\<lparr>Vault_Version := Version\<rparr>))"
    and "\<not> ok \<Longrightarrow> last ds (VaultPath vdir) = d (VaultPath vdir)"
    using wa.verdict [OF s] by simp_all
  show "p \<noteq> VaultPath vdir \<Longrightarrow> p \<noteq> VaultPath vdir @ ''.tmp'' \<Longrightarrow> last ds p = d p"
    by (rule wa.last_frame [OF s])
qed

lemma save_migrated_vault:
  assumes "save_migrated H vdir (backup_path H vdir) (v', m, n) b = (r, b')"
  shows "m = 0 \<or> r \<noteq> Inr () \<Longrightarrow> b_disk b' (VaultPath vdir) = b_disk b (VaultPath vdir)"
    and "m \<noteq> 0 \<Longrightarrow> r = Inr () \<Longrightarrow>
      b_disk b' (VaultPath vdir) = Content (marshal (bh_codec H) (v'\<lparr>Vault_Version := Version\<rparr>)) \<and>
      b_disk b' (backup_path H vdir) = b_disk b (backup_path H vdir)"
proof -
  obtain ok ds where s: "Save (bh_codec H) (bh_vaultFault H) vdir v' (b_disk b) = (ok, ds)" by (metis surj_pair)
  note S = Save_result [OF s]
  have p: "last ds (backup_path H vdir) = b_disk b (backup_path H vdir)"
    using backup_not_vault by (intro S(3))
  show "m = 0 \<or> r \<noteq> Inr () \<Longrightarrow> b_disk b' (VaultPath vdir) = b_disk b (VaultPath vdir)"
    using assms s S(2) backup_not_vault(2) [of vdir H]
    by (cases "m = 0"; cases ok) (auto simp: save_migrated_def tell_def simp del: state_path_names)
  show "m \<noteq> 0 \<Longrightarrow> r = Inr () \<Longrightarrow>
      b_disk b' (VaultPath vdir) = Content (marshal (bh_codec H) (v'\<lparr>Vault_Version := Version\<rparr>)) \<and>
      b_disk b' (backup_path H vdir) = b_disk b (backup_path H vdir)"
    using assms s S(1) p
    by (cases ok) (auto simp: save_migrated_def tell_def simp del: state_path_names)
qed

lemma migrate_vault_failed:
  assumes "migrate_vault H vdir mks cur curK b = (Inl e, b')"
  shows "b_disk b' (VaultPath vdir) = b_disk b (VaultPath vdir)"
proof (cases "Load (bh_codec H) vdir (b_disk b)")
  case (Some v)
  show ?thesis
  proof (cases "Secrets v = [] \<or> (\<forall>raw. b_disk b (VaultPath vdir) \<noteq> Content raw)")
    case True
    with assms Some show ?thesis
      by (auto simp: migrate_vault_def tell_def simp del: state_path_names split: file_bytes.splits if_splits)
  next
    case False
    then obtain raw where raw: "b_disk b (VaultPath vdir) = Content raw" and ne: "Secrets v \<noteq> []" by blast
    let ?bak = "backup_path H vdir"
    from assms Some raw ne have "andThen (write_backup H ?bak raw) (\<lambda>_.
        andThen (migrate_entries H mks cur curK (bh_entries H (Secrets v)) v 0 0) (save_migrated H vdir ?bak)) b = (Inl e, b')"
      by (simp add: migrate_vault_def del: state_path_names)
    then consider "write_backup H ?bak raw b = (Inl e, b')"
      | u b1 where "write_backup H ?bak raw b = (Inr u, b1)"
          "migrate_entries H mks cur curK (bh_entries H (Secrets v)) v 0 0 b1 = (Inl e, b')"
      | u b1 r b2 where "write_backup H ?bak raw b = (Inr u, b1)"
          "migrate_entries H mks cur curK (bh_entries H (Secrets v)) v 0 0 b1 = (Inr r, b2)"
          "save_migrated H vdir ?bak r b2 = (Inl e, b')"
      unfolding andThen_Inl by blast
    then show ?thesis
    proof cases
      case 1
      then show ?thesis by (rule write_backup_vault)
    next
      case (2 u b1)
      with keeps_migrate_entries have "b_disk b' = b_disk b1" unfolding keeps_disk_def by blast
      with write_backup_vault [OF 2(1)] show ?thesis by simp
    next
      case (3 u b1 r b2)
      from 3(2) keeps_migrate_entries have "b_disk b2 = b_disk b1" unfolding keeps_disk_def by blast
      moreover have "b_disk b' (VaultPath vdir) = b_disk b2 (VaultPath vdir)"
        using save_migrated_vault(1) [of H vdir "fst r" "fst (snd r)" "snd (snd r)"] 3(3) by simp
      ultimately show ?thesis using write_backup_vault [OF 3(1)] by simp
    qed
  qed
qed (use assms in \<open>simp add: migrate_vault_def del: state_path_names\<close>)

lemma migrate_vault_done:
  assumes "bob_ok H" and "\<forall>xs. mset (bh_entries H xs) = mset xs"
    and "migrate_vault H vdir mks cur curK b = (Inr (), b')"
    and "map_of mks cur = Some curK" and "1 \<le> cur" and "cur < 2 ^ 63"
    and "Load (bh_codec H) vdir (b_disk b) = Some v" and "vault_ok v"
  shows "\<exists>v'. (\<forall>k. Get v k = None \<longrightarrow> Get v' k = None) \<and>
    (\<forall>k e. Get v k = Some e \<longrightarrow> (\<exists>e'. Get v' k = Some e' \<and> migrated_to H mks k e e')) \<and>
    (v' = v \<and> b_disk b' (VaultPath vdir) = b_disk b (VaultPath vdir) \<or>
     b_disk b' (VaultPath vdir) = Content (marshal (bh_codec H) (v'\<lparr>Vault_Version := Version\<rparr>)) \<and>
     b_disk b' (backup_path H vdir) = b_disk b (VaultPath vdir))"
proof (cases "Secrets v = []")
  case True
  with assms(3,7) show ?thesis
    by (intro exI [of _ v]) (auto simp: migrate_vault_def tell_def Get_def simp del: state_path_names)
next
  case False
  let ?bak = "backup_path H vdir" and ?es = "bh_entries H (Secrets v)"
  from assms(3,7) False obtain raw where raw: "b_disk b (VaultPath vdir) = Content raw"
    by (auto simp: migrate_vault_def simp del: state_path_names split: file_bytes.splits)
  from assms(3,7) False raw obtain u b1 r b2 where w: "write_backup H ?bak raw b = (Inr u, b1)"
    and mg: "migrate_entries H mks cur curK ?es v 0 0 b1 = (Inr r, b2)"
    and s: "save_migrated H vdir ?bak r b2 = (Inr (), b')"
    by (simp add: migrate_vault_def andThen_Inr del: state_path_names) blast
  obtain v' m n where r: "r = (v', m, n)" by (cases r)
  have m: "mset ?es = mset (Secrets v)" using assms(2) by blast
  then have set: "set ?es = set (Secrets v)" by (metis set_mset_mset)
  have d: "distinct (map fst ?es)" using assms(8) m unfolding vault_ok_def
    by (metis mset_map mset_eq_imp_distinct_iff)
  have g: "\<forall>(k, e) \<in> set ?es. Get v k = Some e"
    unfolding set using assms(8) by (auto simp: Get_def vault_ok_def)
  note M = migrate_entries_Inr [OF assms(1,4-6) mg [unfolded r] d g]
  have keys: "k \<in> fst ` set ?es \<longleftrightarrow> Get v k \<noteq> None" for k
    unfolding set Get_def by (simp add: map_of_eq_None_iff)
  have each: "\<exists>e'. Get v' k = Some e' \<and> migrated_to H mks k e e'" if "Get v k = Some e" for k e
  proof -
    from that keys obtain e0 where "(k, e0) \<in> set ?es" by force
    with g that have "(k, e) \<in> set ?es" by auto
    with M show ?thesis by blast
  qed
  have out: "Get v' k = None" if "Get v k = None" for k
    using M keys [of k] that by simp
  from w M have b2: "b_disk b2 = (b_disk b)(?bak := Content raw)"
    by (simp add: write_backup_done [OF w])
  show ?thesis
  proof (cases "m = 0")
    case True
    with save_migrated_vault(1) [OF s [unfolded r]] b2 backup_not_vault(2) [of vdir H]
    have "b_disk b' (VaultPath vdir) = b_disk b (VaultPath vdir)" by simp
    moreover from M True have "v' = v" by simp
    ultimately show ?thesis using each out by blast
  next
    case False
    with save_migrated_vault(2) [OF s [unfolded r]] b2 raw
    have "b_disk b' (VaultPath vdir) = Content (marshal (bh_codec H) (v'\<lparr>Vault_Version := Version\<rparr>))"
      "b_disk b' ?bak = b_disk b (VaultPath vdir)" by simp_all
    with each out show ?thesis by blast
  qed
qed

text \<open>The command ends before the vault is touched, or it migrates the vault under the keys that
  the password opens.\<close>

lemma cmdMigrateAAD_cases:
  assumes "cmdMigrateAAD H args b = (r, b')" and "parse_args migrate_flags args = Inr (ss, pos)"
    and "envelope_of H (bobDir (b_environ b) (str_flag ss ''dir'' '''')) (b_disk b) = Some f"
  obtains e where "r = Inl e" and "b_disk b' = b_disk b"
  | pass mks curK b1 where "unwrapAll H f pass = Inr mks" and "map_of mks (EF_Current f) = Some curK"
      and "b_disk b1 = b_disk b" and "migrate_vault H (vault_dir (b_environ b) ss) mks (EF_Current f) curK b1 = (r, b')"
proof -
  let ?d = "bobDir (b_environ b) (str_flag ss ''dir'' '''')" and ?vdir = "vault_dir (b_environ b) ss"
  let ?go = "\<lambda>(f, pass). andThen (lift (unwrapAll H f pass)) (\<lambda>mks. case map_of mks (EF_Current f) of
      None \<Rightarrow> fail (NoCurrentKey (EF_Current f)) | Some curK \<Rightarrow> migrate_vault H ?vdir mks (EF_Current f) curK)"
  from assms(1,2) have c: "andThen (loadAndUnwrapEnvelope H ?d) ?go b = (r, b')"
    by (simp add: cmdMigrateAAD_def parsed_def)
  obtain x b1 where l: "loadAndUnwrapEnvelope H ?d b = (x, b1)" by (metis surj_pair)
  with keeps_load [of H ?d] have b1: "b_disk b1 = b_disk b" unfolding keeps_disk_def by blast
  show thesis
  proof (cases x)
    case (Inl e)
    with c l b1 show thesis by (intro that(1) [of e]) (simp_all add: andThen_def)
  next
    case (Inr y)
    with l load_Inr(1) [of H ?d b "fst y" "snd y" b1] assms(3) have x: "x = Inr (f, snd y)" by (cases y) simp
    show thesis
    proof (cases "unwrapAll H f (snd y)")
      case (Inl e)
      with c l x b1 show thesis by (intro that(1) [of e]) (simp_all add: andThen_def lift_def)
    next
      case u: (Inr mks)
      show thesis
      proof (cases "map_of mks (EF_Current f)")
        case None
        with c l x u b1 show thesis
          by (intro that(1) [of "NoCurrentKey (EF_Current f)"]) (simp_all add: andThen_def lift_def)
      next
        case (Some curK)
        with c l x u have "migrate_vault H ?vdir mks (EF_Current f) curK b1 = (r, b')"
          by (simp add: andThen_def lift_def)
        with u Some b1 show thesis by (rule that(2))
      qed
    qed
  qed
qed

text \<open>C23: Migrating to bound entries loses nothing. After a successful \<open>migrate-aad\<close> every entry
  of the vault opens under its own name: one that did before is untouched, one that opened
  only without a name holds the same plaintext under the same metadata; the vault file is
  either unchanged or the new vault, with the old file at the backup path. A migration that
  fails leaves the vault file as it was.\<close>

theorem migration_binds_every_entry:
  assumes "bob_ok H" and "\<forall>xs. mset (bh_entries H xs) = mset xs"
    and "cmdMigrateAAD H args b = (r, b')" and "parse_args migrate_flags args = Inr (ss, pos)"
    and "envelope_of H (bobDir (b_environ b) (str_flag ss ''dir'' '''')) (b_disk b) = Some f"
    and "1 \<le> EF_Current f" and "EF_Current f < 2 ^ 63"
    and "vdir = vault_dir (b_environ b) ss"
    and "Load (bh_codec H) vdir (b_disk b) = Some v" and "vault_ok v"
  shows "(r = Inr () \<longrightarrow>
      (\<exists>pass mks v'. unwrapAll H f pass = Inr mks \<and>
         (\<forall>k. Get v k = None \<longrightarrow> Get v' k = None) \<and>
         (\<forall>k e. Get v k = Some e \<longrightarrow> (\<exists>e'. Get v' k = Some e' \<and> migrated_to H mks k e e')) \<and>
         (v' = v \<and> b_disk b' (VaultPath vdir) = b_disk b (VaultPath vdir) \<or>
          b_disk b' (VaultPath vdir) = Content (marshal (bh_codec H) (v'\<lparr>Vault_Version := Version\<rparr>)) \<and>
          b_disk b' (backup_path H vdir) = b_disk b (VaultPath vdir)))) \<and>
    (r \<noteq> Inr () \<longrightarrow> b_disk b' (VaultPath vdir) = b_disk b (VaultPath vdir))"
  using assms(3-5)
proof (rule cmdMigrateAAD_cases)
  fix e
  assume "r = Inl e" and "b_disk b' = b_disk b"
  then show ?thesis by simp
next
  fix pass mks curK b1
  assume u: "unwrapAll H f pass = Inr mks" and k: "map_of mks (EF_Current f) = Some curK" and b1: "b_disk b1 = b_disk b"
    and mv: "migrate_vault H (vault_dir (b_environ b) ss) mks (EF_Current f) curK b1 = (r, b')"
  note mv = mv [folded assms(8)]
  show ?thesis
  proof (cases r)
    case (Inl e)
    with migrate_vault_failed mv b1 show ?thesis by auto
  next
    case (Inr w)
    then have "r = Inr ()" by simp
    with mv migrate_vault_done [OF assms(1,2) _ k assms(6,7), of vdir b1 b' v] assms(9,10) b1 u
    show ?thesis by auto
  qed
qed

text \<open>The concrete vault.\<close>

lemma demo_sealed_seal:
  "Seal demo_aead (Some (replicate 12 CHR ''i'')) (replicate 32 CHR ''k'') ''secret'' = Inr demo_sealed"
proof -
  have "length (replicate 32 CHR ''k'') = 32" by simp
  from sealAAD_total [OF this] obtain c where
    "Seal demo_aead (Some (replicate 12 CHR ''i'')) (replicate 32 CHR ''k'') ''secret'' = Inr c"
    unfolding Seal_def by blast
  then show ?thesis by (simp add: demo_sealed_def)
qed

lemma demo_entry_parses: "ParseVersion (Value demo_entry) = Inr (2, demo_sealed)"
  using cs.pack_unpack [OF demo_sealed_seal [unfolded Seal_def SealAAD_def [symmetric]], of 2]
  by (simp add: demo_entry_def)

lemma demo_entry_legacy:
  "OpenAAD demo_aead (replicate 32 CHR ''k'') demo_sealed ''a'' = Inl AuthFailure"
  "Open demo_aead (replicate 32 CHR ''k'') demo_sealed = Inr ''secret''"
  using openAAD_sealed [OF demo_aead_ok demo_sealed_seal [unfolded Seal_def]]
  by (simp_all add: OpenAAD_def Open_def demo_aead_def)

lemma demo_migrate_entries:
  assumes "map_of mks 2 = Some (replicate 32 CHR ''k'')"
  shows "\<exists>v'. fst (migrate_entries (demo_bob demo_file) mks 2 (replicate 32 CHR ''k'') [(''a'', demo_entry)] v 0 0 b) =
    Inr (v', 1, 0)"
proof -
  obtain c where c: "SealAAD demo_aead (Some (replicate 12 CHR ''r'')) (replicate 32 CHR ''k'') ''secret'' ''a'' = Inr c"
    using sealAAD_total [of "replicate 32 CHR ''k''"] unfolding SealAAD_def by (metis length_replicate)
  show ?thesis
    using demo_entry_legacy assms c
    by (simp add: demo_entry_parses demo_bob_def andThen_def sample_def gcmNonceLen_def give_def)
qed

theorem migration_binds_every_entry_witness:
  "\<exists>b' mks e'. cmdMigrateAAD (demo_bob demo_file) [''--dir'', ''d'', ''--vault-dir'', ''v''] demo_state = (Inr (), b') \<and>
    migrated_to (demo_bob demo_file) mks ''a'' demo_entry e'"
proof -
  let ?H = "demo_bob demo_file" and ?a = "[''--dir'', ''d'', ''--vault-dir'', ''v'']"
    and ?ss = "[(''dir'', ''d''), (''vault-dir'', ''v'')]"
  have p: "parse_args migrate_flags ?a = Inr (?ss, [])" by code_simp
  have d: "bobDir (b_environ demo_state) (str_flag ?ss ''dir'' '''') = ''d''" by code_simp
  have vd: "''v'' = vault_dir (b_environ demo_state) ?ss" by code_simp
  obtain b1 where l: "loadAndUnwrapEnvelope ?H ''d'' demo_state = (Inr (demo_file, ''pw''), b1)"
    using demo_load by blast
  note L = load_Inr [OF l]
  obtain mks where u: "unwrapAll ?H demo_file ''pw'' = Inr mks" and k: "map_of mks 2 = Some (replicate 32 CHR ''k'')"
    using demo_held [of demo_file] by (auto simp: held_def split: sum.splits)
  have dk: "b_disk b1 (VaultPath ''v'') = Content ''old''" unfolding L(2) by code_simp
  then have lv: "Load (bh_codec ?H) ''v'' (b_disk b1) = Some demo_vault"
    by (simp add: Load_def demo_bob_def)
  have vp: "backup_path ?H ''v'' = ''v/vault.json.pre-aad-t''" by code_simp
  obtain b2 where w: "write_backup ?H (backup_path ?H ''v'') ''old'' b1 = (Inr (), b2)"
    unfolding vp using L(2) by (simp add: write_backup_def demo_state_def Let_def) (simp add: demo_bob_def)
  obtain v' b3 where m: "migrate_entries ?H mks 2 (replicate 32 CHR ''k'') [(''a'', demo_entry)] demo_vault 0 0 b2 =
      (Inr (v', 1, 0), b3)"
    using demo_migrate_entries [OF k, of demo_vault b2] by (metis prod.collapse)
  have "\<exists>b'. save_migrated ?H ''v'' (backup_path ?H ''v'') (v', 1, 0) b3 = (Inr (), b')"
    by (simp add: save_migrated_def tell_def demo_bob_def Save_def writeAtomic_def Let_def)
  then obtain b' where s: "save_migrated ?H ''v'' (backup_path ?H ''v'') (v', 1, 0) b3 = (Inr (), b')" by blast
  have es: "bh_entries ?H (Secrets demo_vault) = [(''a'', demo_entry)]" "Secrets demo_vault \<noteq> []"
    by (simp_all add: demo_bob_def demo_vault_def)
  have cur: "EF_Current demo_file = 2" by (simp add: demo_file_def)
  have mv: "migrate_vault ?H ''v'' mks 2 (replicate 32 CHR ''k'') b1 = (Inr (), b')"
    unfolding migrate_vault_def lv dk option.case file_bytes.case es(1) if_not_P [OF es(2)] andThen_Inr
    using w m s by blast
  have r: "cmdMigrateAAD ?H ?a demo_state = (Inr (), b')"
    unfolding cmdMigrateAAD_def andThen_Inr using p d l u k mv cur
    by (auto simp: vd [symmetric] andThen_Inr)
  have e: "envelope_of ?H (bobDir (b_environ demo_state) (str_flag ?ss ''dir'' '''')) (b_disk demo_state) = Some demo_file"
    unfolding d using L(1) .
  have ord: "\<forall>xs. mset (bh_entries ?H xs) = mset xs" by (simp add: demo_bob_def)
  have c: "1 \<le> EF_Current demo_file" "EF_Current demo_file < 2 ^ 63" by (simp_all add: demo_file_def)
  have ok: "vault_ok demo_vault" and g: "Get demo_vault ''a'' = Some demo_entry"
    by (simp_all add: vault_ok_def demo_vault_def Get_def)
  from migration_binds_every_entry [OF demo_bob_ok ord r p e c vd lv [unfolded L(2)] ok] g
  have "\<exists>mks e'. migrated_to ?H mks ''a'' demo_entry e'" by blast
  with r show ?thesis by blast
qed

end
