(* ===== verification/Bob_Main.thy ===== *)
theory Bob_Main
  imports Bob_Admin Bob_Rotate Bob_Migrate Bob_Daemon Version
begin

text \<open>
  The program \<open>bob\<close> (\<open>cmd/bob/main.go\<close>: \<open>main\<close>): the table of commands and the exit status. The
  usage text is its exit status.
\<close>

text \<open>How a process ends: with a status and perhaps an error on standard error, as the
  foreground half of \<open>serve -D\<close>, or as the running daemon.\<close>

datatype bob_end =
    BobEnds nat "bob_failure option"
  | BobPrints string
  | BobDetached nat
  | BobServes Server tls_config string "event list"

definition bob_ends :: "bob_failure + unit \<Rightarrow> bob_end" where
  "bob_ends r =
     (case r of
        Inr u \<Rightarrow> BobEnds 0 None
      | Inl (BobExit n) \<Rightarrow> BobEnds n None
      | Inl BobPanic \<Rightarrow> BobEnds 2 None
      | Inl e \<Rightarrow> BobEnds 1 (Some e))"

definition bob_served :: "bob_failure + serve_outcome \<Rightarrow> bob_end" where
  "bob_served r =
     (case r of
        Inr (Daemonized pid) \<Rightarrow> BobDetached pid
      | Inr (Serving sv cfg addr evs) \<Rightarrow> BobServes sv cfg addr evs
      | Inl e \<Rightarrow> bob_ends (Inl e))"

definition bob_commands :: "bob_host \<Rightarrow> (string \<times> (string list \<Rightarrow> unit bob_op)) list" where
  "bob_commands H =
     [(''ca'', cmdCA H), (''init'', cmdInitBob H), (''sign-csr'', cmdSignCSR H),
      (''rotate-master-password'', cmdRotateMasterPassword H), (''rotate-master-key'', cmdRotateMasterKey H),
      (''list-keys'', cmdListKeys H), (''migrate-aad'', cmdMigrateAAD H)]"

definition bob_main ::
  "serve_env \<Rightarrow> bob_host \<Rightarrow> runtime_info \<Rightarrow> build_stamp option \<Rightarrow> string list \<Rightarrow> bob \<Rightarrow> bob_end \<times> bob" where
  "bob_main S H rt stamp argv b =
     (case argv of
        prog # name # args \<Rightarrow>
          if name = ''serve'' then (case cmdServe S H args b of (r, b') \<Rightarrow> (bob_served r, b'))
          else if name \<in> set [''version'', ''--version'', ''-V'']
          then (BobPrints (version_format ''bob'' (readBuildInfo rt stamp)), b)
          else
            (case map_of (bob_commands H) name of
               None \<Rightarrow> (BobEnds 2 None, b)
             | Some cmd \<Rightarrow> (case cmd args b of (r, b') \<Rightarrow> (bob_ends r, b')))
      | _ \<Rightarrow> (BobEnds 2 None, b))"

end
