(* ===== verification/Bob_Lifecycle.thy ===== *)
theory Bob_Lifecycle
  imports Bob_Serve
begin

text \<open>
  Serving, rotating and serving again: the envelope file that a rotation writes
  (\<open>cmd/bob/rotate.go\<close>) is read back by the next start of the daemon (\<open>cmd/bob/main.go\<close>), and
  what the first daemon encrypted the second one decrypts (\<open>internal/keystore\<close>).
\<close>

section \<open>What the JSON of the envelope file preserves\<close>

text \<open>The integers of the file fit Go's \<open>int\<close>, its strings are ASCII (\<open>encoding/json\<close> replaces
  invalid UTF-8), and it has a key.\<close>

definition int64 :: "int \<Rightarrow> bool" where
  "int64 i \<longleftrightarrow> - (2 ^ 63) \<le> i \<and> i < 2 ^ 63"

definition plain_env :: "Envelope \<Rightarrow> bool" where
  "plain_env e \<longleftrightarrow> int64 (Env_ID e) \<and>
     list_all is_ascii [Env_Created e, Env_KDF e, Env_Salt e, Env_IV e, Env_Tag e, Env_Wrapped e]"

definition plain_file :: "EnvelopeFile \<Rightarrow> bool" where
  "plain_file f \<longleftrightarrow> EF_Keys f \<noteq> [] \<and> int64 (EF_Version f) \<and> int64 (EF_Current f) \<and> list_all plain_env (EF_Keys f)"

definition envelope_codec :: "bob_host \<Rightarrow> bool" where
  "envelope_codec H \<longleftrightarrow> (\<forall>f. plain_file f \<longrightarrow> bh_readEnvelope H (bh_printEnvelope H f) = WithKeys (Some f))"

lemma ascii_subset: "set s \<subseteq> {c. (of_char c :: nat) < 128} \<Longrightarrow> is_ascii s"
  by (auto simp: is_ascii_def list_all_iff)

lemma hex_ascii: "is_ascii (HexEncode bs)"
  by (rule ascii_subset) (rule subset_trans [OF HexEncode_set], auto)

lemma Base64Encode_set: "b64_alphabet al \<Longrightarrow> set (Base64Encode al bs) \<subseteq> set al \<union> {CHR ''=''}"
proof -
  assume a: "b64_alphabet al"
  then have "al ! n \<in> set al" if "n < 64" for n using that by (simp add: b64_alphabet_def)
  then show ?thesis by (induction al bs rule: Base64Encode.induct) simp_all
qed

lemma base64_ascii: "is_ascii (Base64Encode b64_std bs)"
proof (rule ascii_subset)
  have "set b64_std \<union> {CHR ''=''} \<subseteq> {c. (of_char c :: nat) < 128}"
    by (auto simp: b64_std_def)
  with Base64Encode_set [OF b64_std_alphabet] show "set (Base64Encode b64_std bs) \<subseteq> {c. (of_char c :: nat) < 128}"
    by blast
qed

lemma Wrap_plain:
  assumes "Wrap G K salt iv mk pass = Inr e" and "int64 i" and "is_ascii c"
  shows "plain_env (e\<lparr>Env_ID := i, Env_Created := c\<rparr>)"
proof -
  from assms(1) obtain s p where w: "salt = Some s" "Seal G iv (DeriveKEK K pass s DefaultParams) mk = Inr p"
    by (auto simp: Wrap_def Let_def split: option.splits sum.splits)
  from w(2) obtain v a b where p: "p = HexEncode v @ '':'' @ HexEncode a @ '':'' @ HexEncode b"
    unfolding Seal_def by (rule sealAAD_cases)
  from assms(1) w have "Env_KDF e = ''argon2id''" "Env_Salt e = Base64Encode b64_std s"
    "Env_IV e = HexEncode v" "Env_Tag e = HexEncode a" "Env_Wrapped e = HexEncode b"
    by (auto simp: Wrap_def Let_def p splitPacked_hex simp del: append.simps)
  with assms(2,3) show ?thesis by (simp add: plain_env_def hex_ascii base64_ascii)
qed

text \<open>What a rotation writes is of that kind.\<close>

lemma wrap_keys_plain:
  assumes "wrap_keys H created pass ks b = (Inr es, b')" and "\<forall>(i, k) \<in> set ks. int64 i"
    and "\<forall>i c. created i = Some c \<longrightarrow> is_ascii c" and "is_ascii (bh_stamp H)"
  shows "list_all plain_env es \<and> length es = length ks"
  using assms(1,2)
proof (induction ks arbitrary: es b)
  case (Cons a ks)
  obtain i k where a: "a = (i, k)" by (cases a)
  from Cons.prems(1) obtain ne es' b1 where w: "Wrap (bh_gcm H) (bh_kdf H) (bh_draw H (b_draws b) saltLen)
      (bh_draw H (Suc (b_draws b)) gcmNonceLen) k pass = Inr ne"
    and r: "wrap_keys H created pass ks b1 = (Inr es', b')"
    and es: "es = ne\<lparr>Env_ID := i, Env_Created := (case created i of
      Some c \<Rightarrow> if c \<noteq> '''' then c else bh_stamp H | None \<Rightarrow> bh_stamp H)\<rparr> # es'"
    by (auto simp: a andThen_Inr split: sum.splits)
  have "plain_env (hd es)"
    unfolding es list.sel using Cons.prems(2) assms(3,4)
    by (intro Wrap_plain [OF w]) (auto simp: a split: option.splits)
  with Cons.IH [OF r] Cons.prems(2) es show ?case by (simp add: a)
qed simp

lemma created_plain: "plain_file f \<Longrightarrow> created_at f i = Some c \<Longrightarrow> is_ascii c"
  by (auto simp: created_at_def plain_file_def list_all_iff plain_env_def dest!: map_of_SomeD)

lemma rewrapAll_plain:
  assumes "bob_ok H" and "rewrapAll H f mks pass b = (Inr f', b')" and "plain_file f0"
    and "EF_Keys f = EF_Keys f0" and "\<forall>(i, k) \<in> set mks. int64 i" and "mks \<noteq> []" and "int64 (EF_Current f)"
    and "is_ascii (bh_stamp H)"
  shows "plain_file (MarshalEnvelopeFile f')"
proof -
  from assms(2) obtain es where w: "wrap_keys H (created_at f) pass (bh_order H mks) b = (Inr es, b')"
    and f': "f' = f\<lparr>EF_Keys := exchange_sort es\<rparr>"
    by (auto simp: rewrapAll_def andThen_Inr)
  have c: "created_at f = created_at f0" by (simp add: created_at_def assms(4))
  have "list_all plain_env es \<and> length es = length (bh_order H mks)"
    using assms(1,5,8) created_plain [OF assms(3)]
    by (intro wrap_keys_plain [OF w [unfolded c]]) (auto simp: bob_ok_order)
  moreover have "length (bh_order H mks) = length mks"
    using assms(1) unfolding bob_ok_def by (metis size_mset)
  moreover have "length (exchange_sort es) = length es" by (metis exchange_sort_mset size_mset)
  ultimately show ?thesis
    using assms(6,7) by (auto simp: plain_file_def MarshalEnvelopeFile_def f' list_all_iff int64_def EnvelopeSchemaVersion_def)
qed

section \<open>From one start to the next\<close>

lemma served_store:
  "map_of mks cur = Some k \<Longrightarrow> st_keys (HoldMulti t mks cur ttl s) = mks \<and> st_current (HoldMulti t mks cur ttl s) = cur"
  by (auto simp: HoldMulti_def Let_def)

text \<open>What a rotation leaves on the disk, as the next start reads it.\<close>

lemma rotate_key_reload:
  assumes "bob_ok H" and "envelope_codec H" and "is_ascii (bh_stamp H)" and "plain_file f" and "NextID f < 2 ^ 63"
    and "rotate_key H d f pass b = (Inr (), b')" and "unwrapAll H f pass = Inr mks"
  shows "\<exists>f' fresh. envelope_of H d (b_disk b') = Some f' \<and> EF_Current f' = NextID f \<and> length fresh = 32 \<and>
    held H pass f' = Some ((map_of mks)(NextID f \<mapsto> fresh))"
proof -
  note s = unwrapAll_shape [OF assms(7)]
  from assms(6,7) obtain f1 mks1 b2 f2 b3 b4 where a: "add_key H f mks b = (Inr (f1, mks1), b2)"
    and r: "rewrapAll H f1 mks1 pass b2 = (Inr f2, b3)" and w: "writeEnvelope H d f2 b3 = (Inr (), b4)"
    and b': "b_disk b' = b_disk b4"
    by (auto simp: rotate_key_def andThen_Inr tell_def)
  note k = add_key_Inr [OF a assms(1) s(1,2)]
  note h = rewrapAll_held [OF assms(1) r k(3,4)]
  have f1: "EF_Keys f1 = EF_Keys f" "mks1 \<noteq> []" "fst ` set mks1 = insert (NextID f) (fst ` set mks)"
    using a by (auto simp: add_key_def andThen_Inr update_nonempty dom_update split: sum.splits)
  have "0 < NextID f" by (rule NextID_pos)
  then have "int64 (NextID f)" using assms(5) by (simp add: int64_def)
  moreover from assms(4) have "\<forall>e \<in> set (EF_Keys f). int64 (Env_ID e)"
    by (simp add: plain_file_def plain_env_def list_all_iff)
  ultimately have "\<forall>i \<in> fst ` set mks1. int64 i" using f1(3) s(3) by auto
  then have "plain_file (MarshalEnvelopeFile f2)"
    using \<open>int64 (NextID f)\<close> k(2) f1(2)
    by (intro rewrapAll_plain [OF assms(1) r assms(4) f1(1) _ _ _ assms(3)]) auto
  with assms(2) have rd: "bh_readEnvelope H (bh_printEnvelope H (MarshalEnvelopeFile f2)) = WithKeys (Some (MarshalEnvelopeFile f2))"
    and ne: "EF_Keys f2 \<noteq> []" by (auto simp: envelope_codec_def plain_file_def MarshalEnvelopeFile_def)
  from rd ne h(2) k(2) \<open>0 < NextID f\<close>
  have "LoadEnvelopeFile (bh_stamp H) (bh_readEnvelope H (bh_printEnvelope H (MarshalEnvelopeFile f2)))
      = Inr (MarshalEnvelopeFile f2)"
    by (simp add: LoadEnvelopeFile_def MarshalEnvelopeFile_def)
  from writeEnvelope_loads [OF w this] b' have "envelope_of H d (b_disk b') = Some (MarshalEnvelopeFile f2)"
    by simp
  moreover have "held H pass (MarshalEnvelopeFile f2) = Some (map_of mks1)" "EF_Current (MarshalEnvelopeFile f2) = NextID f"
    using h(1,2) k(2) by (simp_all add: MarshalEnvelopeFile_def)
  ultimately show ?thesis using k(1) by auto
qed

text \<open>A concrete codec: the fields of the file one after the other, each ended by a byte that
  is not ASCII.\<close>

definition FFsep :: char where "FFsep = CHR 0xFF"

definition demo_print_env :: "Envelope \<Rightarrow> string list" where
  "demo_print_env e =
     [Itoa (Env_ID e), Env_Created e, Env_KDF e, Env_Salt e, Itoa (uint (Params_M (Env_Params e))),
      Itoa (uint (Params_T (Env_Params e))), Itoa (uint (Params_P (Env_Params e))), Env_IV e, Env_Tag e, Env_Wrapped e]"

definition demo_print :: "EnvelopeFile \<Rightarrow> bytes" where
  "demo_print f = Join (Itoa (EF_Version f) # Itoa (EF_Current f) # concat (map demo_print_env (EF_Keys f))) [FFsep]"

definition get_int :: "string \<Rightarrow> int" where
  "get_int s = (case Atoi s of None \<Rightarrow> 0 | Some i \<Rightarrow> i)"

fun demo_read_keys :: "string list \<Rightarrow> Envelope list" where
  "demo_read_keys (i # c # k # s # m # t # p # v # g # w # rest) =
     \<lparr>Env_ID = get_int i, Env_Created = c, Env_KDF = k, Env_Salt = s,
      Env_Params = \<lparr>Params_M = word_of_int (get_int m), Params_T = word_of_int (get_int t), Params_P = word_of_int (get_int p)\<rparr>,
      Env_IV = v, Env_Tag = g, Env_Wrapped = w\<rparr> # demo_read_keys rest"
| "demo_read_keys _ = []"

definition demo_read :: "bytes \<Rightarrow> envelope_json" where
  "demo_read c =
     (case Split c FFsep of
        v # cur # rest \<Rightarrow>
          WithKeys (Some \<lparr>EF_Version = get_int v, EF_Keys = demo_read_keys rest, EF_Current = get_int cur\<rparr>)
      | _ \<Rightarrow> NotJSON)"

lemma get_int_Itoa: "int64 i \<Longrightarrow> get_int (Itoa i) = i"
  by (simp add: get_int_def int64_def Atoi_Itoa)

lemma get_int_word: "get_int (Itoa (uint (w :: 32 word))) = uint w" "get_int (Itoa (uint (w' :: 8 word))) = uint w'"
proof -
  have "int64 (uint w)" "int64 (uint w')"
    using uint_lt2p [of w] uint_lt2p [of w'] order_trans [OF _ uint_ge_0, of "- (2 ^ 63)"]
    by (auto simp: int64_def)
  then show "get_int (Itoa (uint w)) = uint w" "get_int (Itoa (uint w')) = uint w'" by (simp_all add: get_int_Itoa)
qed

lemma demo_read_print_env:
  "plain_env e \<Longrightarrow> demo_read_keys (demo_print_env e @ rest) = e # demo_read_keys rest"
  by (simp add: demo_print_env_def plain_env_def get_int_Itoa get_int_word)

lemma demo_read_print_keys: "list_all plain_env es \<Longrightarrow> demo_read_keys (concat (map demo_print_env es)) = es"
  by (induction es) (auto simp: demo_read_print_env)

lemma ascii_no_FF: "is_ascii s \<Longrightarrow> FFsep \<notin> set s"
  by (auto simp: is_ascii_def list_all_iff FFsep_def)

lemma demo_codec: "plain_file f \<Longrightarrow> demo_read (demo_print f) = WithKeys (Some f)"
proof -
  assume p: "plain_file f"
  let ?fs = "Itoa (EF_Version f) # Itoa (EF_Current f) # concat (map demo_print_env (EF_Keys f))"
  have "\<forall>s \<in> set ?fs. is_ascii s"
    using p by (auto simp: plain_file_def list_all_iff plain_env_def demo_print_env_def Itoa_ascii)
  then have "Split (Join ?fs [FFsep]) FFsep = ?fs"
    by (intro Split_Join) (auto dest: ascii_no_FF)
  with p show ?thesis
    by (simp add: demo_read_def demo_print_def demo_read_print_keys get_int_Itoa plain_file_def)
qed

section \<open>Properties\<close>

text \<open>C8: Secrets survive a key rotation. What a daemon started on an envelope encrypted, the
  daemon started on the envelope that \<open>rotate-master-key\<close> left, under the same password,
  decrypts to the same plaintext; it hands back the text sealed anew under the added version,
  and that text it decrypts as current.\<close>

theorem secrets_survive_rotation:
  assumes "bob_ok H" and "envelope_codec H" and "is_ascii (bh_stamp H)" and "plain_file f" and "ef_wf f"
    and "NextID f < 2 ^ 63"
    and "listening S H d ss f pass b0 = (Inr (Serving sv cfg addr evs), b0')"
    and "fst (Encrypt (bh_gcm H) (Some iv) t name p (sv_store sv)) = Inr packed" and "length iv = 12"
    and "rotate_key H d f pass b = (Inr (), b')"
  shows "\<exists>f'. envelope_of H d (b_disk b') = Some f' \<and> EF_Current f' = NextID f \<and>
    (\<forall>ss' c sv' cfg' addr' evs' c' iv' t' t''.
       listening S H d ss' f' pass c = (Inr (Serving sv' cfg' addr' evs'), c') \<longrightarrow> length iv' = 12 \<longrightarrow>
       (\<exists>rw. fst (Decrypt (bh_gcm H) (Some iv') t' name packed (sv_store sv')) = Inr (p, rw, False) \<and>
          fst (Decrypt (bh_gcm H) None t'' name rw (sv_store sv')) = Inr (p, [], True)))"
proof -
  from assms(7) obtain mks where u: "unwrapAll H f pass = Inr mks"
    and sv: "sv_store sv = HoldMulti (bh_times H 0) mks (EF_Current f) (duration_seconds (int_flag ss [''ttl''] 0)) NewStore"
    by (rule listening_Inr) (auto simp: NewServer_def)
  note s = unwrapAll_shape [OF u]
  obtain f' fresh where f': "envelope_of H d (b_disk b') = Some f'" "EF_Current f' = NextID f" "length fresh = 32"
    "held H pass f' = Some ((map_of mks)(NextID f \<mapsto> fresh))"
    using rotate_key_reload [OF assms(1-4,6,10) u] by blast
  have "EF_Current f \<in> fst ` set mks" using assms(5) s(3) by (simp add: ef_wf_def)
  then obtain k where k: "map_of mks (EF_Current f) = Some k" by (metis map_of_eq_None_iff not_None_eq)
  note st = served_store [OF k, of "bh_times H 0" "duration_seconds (int_flag ss [''ttl''] 0)" NewStore]
  from assms(4,5) have cur: "1 \<le> EF_Current f" "EF_Current f < 2 ^ 63"
    by (auto simp: ef_wf_def plain_file_def int64_def)
  have ne: "EF_Current f \<noteq> NextID f" using assms(5) NextID_fresh [of f] unfolding ef_wf_def by metis
  have "\<exists>rw. fst (Decrypt (bh_gcm H) (Some iv') t' name packed (sv_store sv')) = Inr (p, rw, False) \<and>
          fst (Decrypt (bh_gcm H) None t'' name rw (sv_store sv')) = Inr (p, [], True)"
    if l: "listening S H d ss' f' pass c = (Inr (Serving sv' cfg' addr' evs'), c')" and iv': "length iv' = 12"
    for ss' c sv' cfg' addr' evs' c' iv' t' t''
  proof -
    from l obtain mks' where u': "unwrapAll H f' pass = Inr mks'"
      and sv': "sv_store sv' = HoldMulti (bh_times H 0) mks' (NextID f) (duration_seconds (int_flag ss' [''ttl''] 0)) NewStore"
      by (rule listening_Inr) (auto simp: NewServer_def f'(2))
    from f'(4) u' have m: "map_of mks' = (map_of mks)(NextID f \<mapsto> fresh)" by (simp add: held_def)
    then have "map_of mks' (NextID f) = Some fresh" by simp
    note st' = served_store [OF this, of "bh_times H 0" "duration_seconds (int_flag ss' [''ttl''] 0)" NewStore]
    have "\<exists>rw. fst (Decrypt (bh_gcm H) (Some iv') t' name packed (sv_store sv')) =
          Inr (p, rw, st_current (sv_store sv) = st_current (sv_store sv')) \<and>
        (if st_current (sv_store sv) = st_current (sv_store sv') then rw = []
         else fst (Decrypt (bh_gcm H) None t'' name rw (sv_store sv')) = Inr (p, [], True))"
      using assms(1,6) st st' cur ne m f'(3) NextID_pos [of f]
      by (intro Decrypt_of_Encrypt [OF _ assms(8,9) _ _ _ _ _ _ _ iv', where k' = fresh])
        (simp_all add: bob_ok_def sv sv')
    then show ?thesis using st st' ne by (simp add: sv sv')
  qed
  with f'(1,2) show ?thesis by blast
qed

definition demo_host :: bob_host where
  "demo_host = (demo_bob demo_file)\<lparr>bh_readEnvelope := demo_read, bh_printEnvelope := demo_print\<rparr>"

lemma demo_host_facts:
  "bob_ok demo_host" "envelope_codec demo_host" "is_ascii (bh_stamp demo_host)" "smooth demo_host"
  "bh_gcm demo_host = demo_aead" "bh_kdf demo_host = demo_kdf"
  using demo_bob_ok [of demo_file] demo_smooth [of demo_file]
  by (simp_all add: demo_host_def bob_ok_def smooth_def envelope_codec_def demo_codec demo_bob_def)

lemma demo_env_plain: "int64 i \<Longrightarrow> plain_env (demo_env i)"
proof -
  assume i: "int64 i"
  have "kdf_ok demo_kdf" by (simp add: kdf_ok_def demo_kdf_def MasterKeyLen_def)
  from Wrap_total [OF this] obtain e where
    e: "Wrap demo_aead demo_kdf (Some (replicate 16 CHR ''s'')) (Some (replicate 12 CHR ''i''))
      (replicate 32 CHR ''k'') ''pw'' = Inr e" by blast
  from Wrap_plain [OF e i, of "''2025''"] show ?thesis by (simp add: demo_env_def e)
qed

lemma demo_file_facts: "plain_file demo_file" "ef_wf demo_file" "NextID demo_file = 3"
  "\<exists>mks. unwrapAll demo_host demo_file ''pw'' = Inr mks \<and> map_of mks 2 = Some (replicate 32 CHR ''k'')"
proof -
  have "plain_env (demo_env 1)" "plain_env (demo_env 2)" by (simp_all add: demo_env_plain int64_def)
  then show "plain_file demo_file" by (simp add: plain_file_def demo_file_def int64_def)
  show "ef_wf demo_file" by (rule demo_file_wf)
  show "NextID demo_file = 3" using demo_env_opens by (simp add: NextID_def max_id_def demo_file_def)
  show "\<exists>mks. unwrapAll demo_host demo_file ''pw'' = Inr mks \<and> map_of mks 2 = Some (replicate 32 CHR ''k'')"
    using demo_env_opens by (simp add: unwrapAll_def demo_host_facts demo_file_def)
qed

theorem secrets_survive_rotation_witness:
  "\<exists>packed f' b'. rotate_key demo_host ''d'' demo_file ''pw'' demo_state = (Inr (), b') \<and>
     envelope_of demo_host ''d'' (b_disk b') = Some f' \<and> EF_Current f' = 3 \<and> packed \<noteq> ''''"
proof -
  obtain mks where u: "unwrapAll demo_host demo_file ''pw'' = Inr mks" "map_of mks 2 = Some (replicate 32 CHR ''k'')"
    using demo_file_facts(4) by blast
  define ss :: settings where "ss = []"
  have b: "bytes_at ''d'' ''ca.crt'' (b_disk demo_served) = ''old''" "bytes_at ''d'' ''server.crt'' (b_disk demo_served) = ''old''"
    "bytes_at ''d'' ''server.key'' (b_disk demo_served) = ''old''"
    "b_disk demo_served (FilepathJoin [''d'', ''authz.json'']) = Content ''old''" by code_simp+
  obtain sv cfg addr evs c where l: "listening demo_serve demo_host ''d'' ss demo_file ''pw'' demo_served =
      (Inr (Serving sv cfg addr evs), c)"
    and sv: "sv_store sv = HoldMulti (bh_times demo_host 0) mks 2 (duration_seconds (int_flag ss [''ttl''] 0)) NewStore"
    using u(1) b
    by (auto simp: listening_def lift_def policy_at_def OpenOrDefault_def ServerConfig_def caPool_def demo_serve_def
        Let_def NewServer_def demo_file_def)
  note st = served_store [OF u(2), of "bh_times demo_host 0" "duration_seconds (int_flag ss [''ttl''] 0)" NewStore]
  obtain raw where "SealAAD demo_aead (Some (replicate 12 CHR ''n'')) (replicate 32 CHR ''k'') ''p'' ''a'' = Inr raw"
    using cs.seal_total [of "replicate 32 CHR ''k''"] by fastforce
  then have e: "fst (Encrypt (bh_gcm demo_host) (Some (replicate 12 CHR ''n'')) 0 ''a'' ''p'' (sv_store sv)) = Inr (PackVersion 2 raw)"
    using u(2) st by (simp add: Encrypt_def sv demo_host_facts)
  have "held demo_host ''pw'' demo_file = Some (map_of mks)" using u(1) by (simp add: held_def)
  from rotate_key_total [OF demo_host_facts(4) this] obtain b' where
    r: "rotate_key demo_host ''d'' demo_file ''pw'' demo_state = (Inr (), b')" by (metis prod.collapse)
  from secrets_survive_rotation [OF demo_host_facts(1-3) demo_file_facts(1,2) _ l e _ r] demo_file_facts(3) r
  show ?thesis by (fastforce simp: PackVersion_def)
qed

end
