(* ===== verification/Bob_Accept.thy ===== *)
theory Bob_Accept
  imports Bob_Daemon
begin

text \<open>
  The accept loop of the daemon (\<open>internal/server/server.go\<close>: \<open>Serve\<close>, with \<open>handleConn\<close> cut at
  its iterations): one goroutine for each accepted connection, all of them sharing the server
  with the timer and the shutdown. Their steps interleave freely; the result is shown to be a
  run of the daemon, so that what holds of its runs holds on every connection.
\<close>

section \<open>One connection\<close>

text \<open>A goroutine: started, in its loop with the peer's name and the bytes still to be read, or
  ended. A failed handshake and a peer without a name end it.\<close>

datatype goroutine = Fresh conn | Reading string bytes | Ended

definition begin_conn :: "conn \<Rightarrow> goroutine \<times> event list" where
  "begin_conn c =
     (case c of
        NotTLS \<Rightarrow> (Ended, [])
      | HandshakeFails remote err \<Rightarrow>
          (Ended, [audit ''HANDSHAKE_FAIL'' [(''remote'', FStr remote), (''err'', FStr err)]])
      | Established ident s \<Rightarrow> (if ident = [] then Ended else Reading ident s, []))"

text \<open>One iteration of the loop: the response written, if any, the events, the server, and the
  goroutine afterwards.\<close>

definition one_line ::
  "aead \<Rightarrow> (bytes \<Rightarrow> Request option) \<Rightarrow> world \<Rightarrow> string \<Rightarrow> bytes \<Rightarrow> Server \<Rightarrow>
     Response list \<times> event list \<times> Server \<times> goroutine" where
  "one_line G decode w ident s sv =
     (case ReadSlice maxReqBytes s of
        BufferFull \<Rightarrow>
          ([failure CodeBadRequest ''request exceeds 1 MiB''],
           [audit ''DROP'' [(''identity'', FStr ident), (''cause'', FStr ''request-too-large'')]], sv, Ended)
      | LastBytes line \<Rightarrow>
          (if line = [] then ([], [], sv, Ended)
           else (case serve_line G decode w ident line sv of (resp, evs, sv') \<Rightarrow> ([resp], evs, sv', Ended)))
      | FullLine line rest \<Rightarrow>
          (case serve_line G decode w ident line sv of (resp, evs, sv') \<Rightarrow> ([resp], evs, sv', Reading ident rest)))"

text \<open>The loop of a connection is the iteration of this step.\<close>

lemma conn_loop_one_line:
  "conn_loop G decode ws k ident s sv =
     (case one_line G decode (ws k) ident s sv of
        (resps, evs, sv', g) \<Rightarrow>
          (case g of
             Reading i rest \<Rightarrow>
               (case conn_loop G decode ws (Suc k) ident rest sv' of
                  (resps', evs', sv'') \<Rightarrow> (resps @ resps', evs @ evs', sv''))
           | _ \<Rightarrow> (resps, evs, sv')))"
  by (subst conn_loop.simps) (simp add: one_line_def split: slice.split prod.split)

section \<open>The accept loop\<close>

text \<open>The connections in the order in which they were accepted, each with its peer and its
  goroutine, and the responses written, with the number of the connection.\<close>

record serving =
  sg_daemon :: daemon
  sg_conns :: "(conn \<times> goroutine) list"
  sg_out :: "(nat \<times> Response) list"
  sg_returned :: bool

definition opened :: "Server \<Rightarrow> event list \<Rightarrow> serving" where
  "opened sv evs = \<lparr>sg_daemon = booted sv evs, sg_conns = [], sg_out = [], sg_returned = False\<rparr>"

definition set_conn :: "nat \<Rightarrow> goroutine \<Rightarrow> serving \<Rightarrow> serving" where
  "set_conn i g s = s\<lparr>sg_conns := (sg_conns s)[i := (fst (sg_conns s ! i), g)]\<rparr>"

definition logged :: "event list \<Rightarrow> serving \<Rightarrow> serving" where
  "logged evs s = s\<lparr>sg_daemon := (sg_daemon s)\<lparr>dm_log := dm_log (sg_daemon s) @ evs\<rparr>\<rparr>"

text \<open>Accepting ends when the listener is closed or reports an error, and with it the process. A
  panic of a goroutine is caught and audited.\<close>

inductive serve_step :: "aead \<Rightarrow> (bytes \<Rightarrow> Request option) \<Rightarrow> serving \<Rightarrow> serving \<Rightarrow> bool" for G decode where
  sv_accept: "\<not> sg_returned s \<Longrightarrow> dm_shutdown (sg_daemon s) \<noteq> Closed \<Longrightarrow>
    serve_step G decode s (s\<lparr>sg_conns := sg_conns s @ [(c, Fresh c)]\<rparr>)"
| sv_return: "\<not> sg_returned s \<Longrightarrow> serve_step G decode s (s\<lparr>sg_returned := True\<rparr>)"
| sv_begin: "\<not> sg_returned s \<Longrightarrow> i < length (sg_conns s) \<Longrightarrow> snd (sg_conns s ! i) = Fresh c \<Longrightarrow>
    begin_conn c = (g, evs) \<Longrightarrow> serve_step G decode s (set_conn i g (logged evs s))"
| sv_line: "\<not> sg_returned s \<Longrightarrow> i < length (sg_conns s) \<Longrightarrow> snd (sg_conns s ! i) = Reading ident bs \<Longrightarrow>
    possible G w \<Longrightarrow> one_line G decode w ident bs (dm_server (sg_daemon s)) = (resps, evs, sv', g) \<Longrightarrow>
    serve_step G decode s
      (set_conn i g (s\<lparr>sg_daemon := (sg_daemon s)\<lparr>dm_server := sv', dm_log := dm_log (sg_daemon s) @ evs,
                                      dm_sent := dm_sent (sg_daemon s) @ map (Pair ident) resps\<rparr>,
                      sg_out := sg_out s @ map (Pair i) resps\<rparr>))"
| sv_panic: "\<not> sg_returned s \<Longrightarrow> i < length (sg_conns s) \<Longrightarrow> snd (sg_conns s ! i) \<noteq> Ended \<Longrightarrow>
    serve_step G decode s
      (set_conn i Ended (logged [audit ''PANIC'' [(''err'', FStr err), (''stack'', FStr stack)]] s))"
| sv_own: "\<not> sg_returned s \<Longrightarrow> own_step (sg_daemon s) d \<Longrightarrow> serve_step G decode s (s\<lparr>sg_daemon := d\<rparr>)"

inductive serve_run :: "aead \<Rightarrow> (bytes \<Rightarrow> Request option) \<Rightarrow> serving \<Rightarrow> serving \<Rightarrow> bool" for G decode where
  serve_here: "serve_run G decode s s"
| serve_more: "serve_run G decode s s' \<Longrightarrow> serve_step G decode s' s'' \<Longrightarrow> serve_run G decode s s''"

inductive_cases serve_stepE: "serve_step G decode s s'"

declare serve_step.intros [intro] serve_run.intros [intro]

lemma serve_run_trans: "serve_run G decode b c \<Longrightarrow> serve_run G decode a b \<Longrightarrow> serve_run G decode a c"
  by (induction rule: serve_run.induct) auto

lemma set_conn_fields [simp]:
  "sg_daemon (set_conn i g s) = sg_daemon s" "sg_out (set_conn i g s) = sg_out s"
  "sg_returned (set_conn i g s) = sg_returned s" "length (sg_conns (set_conn i g s)) = length (sg_conns s)"
  "sg_conns (set_conn i g s) = (sg_conns s)[i := (fst (sg_conns s ! i), g)]"
  by (simp_all add: set_conn_def)

lemma logged_fields [simp]:
  "sg_out (logged evs s) = sg_out s" "sg_conns (logged evs s) = sg_conns s"
  "sg_daemon (logged evs s) = (sg_daemon s)\<lparr>dm_log := dm_log (sg_daemon s) @ evs\<rparr>"
  by (simp_all add: logged_def)

section \<open>The daemon behind it\<close>

lemma dm_run_step: "dm_step G d d' \<Longrightarrow> dm_run G d d'"
  by blast

lemma dm_run_trans: "dm_run G b c \<Longrightarrow> dm_run G a b \<Longrightarrow> dm_run G a c"
  by (induction rule: dm_run.induct) auto

text \<open>What a line makes of the daemon is a step of it, or two for a refusal that is audited.\<close>

lemma serve_line_run:
  assumes "possible G w" and "serve_line G decode w ident line (dm_server d) = (resp, evs, sv')"
  shows "dm_run G d (d\<lparr>dm_server := sv', dm_log := dm_log d @ evs, dm_sent := dm_sent d @ [(ident, resp)]\<rparr>)"
proof (cases "decode line")
  case None
  with assms(2) have "resp = failure CodeBadRequest ''malformed request''" "evs = []" "sv' = dm_server d"
    by (auto simp: serve_line_def)
  with dm_refuse [of G d ident] show ?thesis by (auto intro!: dm_run_step)
next
  case (Some req)
  with assms show ?thesis by (intro dm_run_step dm_request [of G w ident req]) (simp_all add: serve_line_def)
qed

lemma one_line_run:
  assumes "possible G w" and "one_line G decode w ident bs (dm_server d) = (resps, evs, sv', g)"
  shows "dm_run G d (d\<lparr>dm_server := sv', dm_log := dm_log d @ evs, dm_sent := dm_sent d @ map (Pair ident) resps\<rparr>)"
proof -
  have same: "dm_run G d (d\<lparr>dm_server := dm_server d, dm_log := dm_log d @ [], dm_sent := dm_sent d @ []\<rparr>)" by auto
  have full: "dm_run G d (d\<lparr>dm_server := dm_server d, dm_log := dm_log d @ es, dm_sent := dm_sent d @ [(ident, failure c m)]\<rparr>)"
    for es c m
    using dm_run_trans [OF dm_run_step [OF dm_refuse [of G "d\<lparr>dm_log := dm_log d @ es\<rparr>" ident c m]]
        dm_run_step [OF dm_note [of G d es]]] by simp
  show ?thesis
    using assms(2) serve_line_run [OF assms(1)] same full
    by (auto simp: one_line_def split: slice.splits prod.splits if_splits)
qed

lemma serve_step_daemon: "serve_step G decode s s' \<Longrightarrow> dm_run G (sg_daemon s) (sg_daemon s')"
  by (erule serve_stepE) (auto simp: one_line_run intro: dm_run_step)

lemma serve_run_daemon: "serve_run G decode s s' \<Longrightarrow> dm_run G (sg_daemon s) (sg_daemon s')"
  by (induction rule: serve_run.induct) (auto intro: dm_run_trans serve_step_daemon)

section \<open>What a connection gets\<close>

text \<open>A goroutine reads on behalf of the peer whose handshake it made, and what it has still to
  read is the end of what the peer sends.\<close>

definition own_input :: "conn \<times> goroutine \<Rightarrow> bool" where
  "own_input c =
     (case c of (peer, g) \<Rightarrow>
        (case g of
           Fresh c' \<Rightarrow> c' = peer
         | Reading ident rest \<Rightarrow> \<exists>bs. peer = Established ident bs \<and> ident \<noteq> [] \<and> suffix rest bs
         | Ended \<Rightarrow> True))"

text \<open>A response belongs to an authenticated peer, and data to a request the peer sent, that
  names only keys the policy allows, and that the audit log has an ALLOW event for.\<close>

definition deserved :: "Policy \<Rightarrow> (bytes \<Rightarrow> Request option) \<Rightarrow> event list \<Rightarrow> conn \<Rightarrow> Response \<Rightarrow> bool" where
  "deserved p decode evl peer resp \<longleftrightarrow>
     (\<exists>ident bs. peer = Established ident bs \<and> ident \<noteq> [] \<and>
        (carries_data resp \<longrightarrow>
           (\<exists>line req. sublist line bs \<and> decode line = Some req \<and> gated req \<and> passed p ident req evl)))"

lemma passed_mono: "passed p i req evs \<Longrightarrow> set evs \<subseteq> set evs' \<Longrightarrow> passed p i req evs'"
  unfolding passed_def by blast

lemma deserved_mono: "deserved p decode evl peer r \<Longrightarrow> set evl \<subseteq> set evl' \<Longrightarrow> deserved p decode evl' peer r"
proof -
  assume "deserved p decode evl peer r" and "set evl \<subseteq> set evl'"
  then show ?thesis
    using passed_mono [of p _ _ evl evl'] by (cases peer) (auto simp: deserved_def)
qed

definition kept :: "Policy \<Rightarrow> (bytes \<Rightarrow> Request option) \<Rightarrow> serving \<Rightarrow> bool" where
  "kept p decode s \<longleftrightarrow>
     sv_policy (dm_server (sg_daemon s)) = p \<and>
     (\<forall>c \<in> set (sg_conns s). own_input c) \<and>
     (\<forall>(i, r) \<in> set (sg_out s). i < length (sg_conns s) \<and>
        deserved p decode (dm_log (sg_daemon s)) (fst (sg_conns s ! i)) r)"

lemma begin_conn_own: "begin_conn c = (g, evs) \<Longrightarrow> own_input (c, g)"
  by (auto simp: begin_conn_def own_input_def split: conn.splits if_splits)

lemma ReadSlice_parts:
  "ReadSlice n s = FullLine line rest \<Longrightarrow> s = line @ rest"
  "ReadSlice n s = LastBytes line \<Longrightarrow> s = line"
  by (auto simp: ReadSlice_def split: option.splits if_splits)

lemma serve_line_deserved:
  assumes "serve_line G decode w ident line sv = (resp, evs, sv')" and "ident \<noteq> []" and "sublist line bs"
  shows "deserved (sv_policy sv) decode evs (Established ident bs) resp \<and> sv_policy sv' = sv_policy sv"
proof (cases "decode line")
  case None
  with assms show ?thesis by (auto simp: serve_line_def deserved_def)
next
  case (Some req)
  with assms(1) have d: "dispatch G w ident req sv = (resp, evs, sv')" by (simp add: serve_line_def)
  have "\<exists>line req. sublist line bs \<and> decode line = Some req \<and> gated req \<and> passed (sv_policy sv) ident req evs"
    if "carries_data resp"
    using dispatch_passed [OF d] that assms(3) Some by blast
  with assms(2) dispatch_policy [OF d] show ?thesis unfolding deserved_def by blast
qed

lemma one_line_deserved:
  assumes "one_line G decode w ident s sv = (resps, evs, sv', g)" and "ident \<noteq> []" and "suffix s bs"
  shows "sv_policy sv' = sv_policy sv \<and> own_input (Established ident bs, g) \<and>
    (\<forall>r \<in> set resps. deserved (sv_policy sv) decode evs (Established ident bs) r)"
proof (cases "ReadSlice maxReqBytes s")
  case (FullLine line rest)
  obtain pre where b: "bs = pre @ line @ rest" using assms(3) ReadSlice_parts(1) [OF FullLine] by (auto elim: suffixE)
  then have "sublist line bs" and "suffix rest bs" by (auto simp: sublist_def suffix_def)
  with assms(1,2) FullLine show ?thesis
    using serve_line_deserved by (fastforce simp: one_line_def own_input_def split: prod.splits)
next
  case (LastBytes line)
  then have "sublist line bs" using assms(3) ReadSlice_parts(2) by blast
  with assms(1,2) LastBytes show ?thesis
    using serve_line_deserved
    by (fastforce simp: one_line_def own_input_def split: prod.splits if_splits)
next
  case BufferFull
  with assms(1,2) show ?thesis by (auto simp: one_line_def own_input_def deserved_def)
qed

lemma own_step_fields:
  "own_step d d' \<Longrightarrow> sv_policy (dm_server d') = sv_policy (dm_server d) \<and> set (dm_log d) \<subseteq> set (dm_log d') \<and>
     dm_sent d' = dm_sent d"
  by (erule own_stepE) auto

lemma serve_step_kept:
  assumes "serve_step G decode s s'" and k: "kept p decode s"
  shows "kept p decode s'"
proof -
  have upd: "\<forall>c \<in> set ((sg_conns s)[i := (fst (sg_conns s ! i), g)]). own_input c"
    if "own_input (fst (sg_conns s ! i), g)" for i g
    using k that set_update_subset_insert [of "sg_conns s" i "(fst (sg_conns s ! i), g)"] unfolding kept_def by blast
  have old: "\<And>i r. (i, r) \<in> set (sg_out s) \<Longrightarrow> i < length (sg_conns s) \<and>
        deserved p decode evl (fst (sg_conns s ! i)) r" if "set (dm_log (sg_daemon s)) \<subseteq> set evl" for evl
    using k that deserved_mono unfolding kept_def by blast
  have ext: "\<And>i r. (i, r) \<in> set (sg_out s) \<Longrightarrow> i < length (sg_conns s) \<and>
        deserved p decode (dm_log (sg_daemon s) @ es) (fst (sg_conns s ! i)) r" for es
    by (rule old) simp_all
  have own: "i < length (sg_conns s) \<Longrightarrow> own_input (sg_conns s ! i)" for i
    using k unfolding kept_def by auto
  have fst: "fst ((sg_conns s)[j := (fst (sg_conns s ! j), g)] ! i) = fst (sg_conns s ! i)"
    if "i < length (sg_conns s)" for i j g
    using that by (cases "i = j") auto
  show ?thesis
    using assms(1)
  proof cases
    case (sv_line i ident bs w resps evs sv' g)
    from own [OF sv_line(3)] sv_line(4) obtain all where c: "fst (sg_conns s ! i) = Established ident all"
      and i: "ident \<noteq> []" and su: "suffix bs all"
      by (cases "sg_conns s ! i") (auto simp: own_input_def)
    have p: "sv_policy (dm_server (sg_daemon s)) = p" using k by (simp add: kept_def)
    note o = one_line_deserved [OF sv_line(6) i su, unfolded p]
    have "\<forall>r \<in> set resps. deserved p decode (dm_log (sg_daemon s) @ evs) (Established ident all) r"
      using o deserved_mono [of p decode evs _ _ "dm_log (sg_daemon s) @ evs"] by auto
    moreover note fst [of _ i g, unfolded c]
    ultimately show ?thesis
      using o upd [of i g] ext [of _ _ evs] c sv_line by (auto simp: kept_def)
  next
    case (sv_begin i c g evs)
    have "own_input (fst (sg_conns s ! i), g)"
      using own [OF sv_begin(3)] sv_begin(4) begin_conn_own [OF sv_begin(5)]
      by (cases "sg_conns s ! i") (auto simp: own_input_def)
    with upd [of i g] ext [of _ _ evs] fst k sv_begin show ?thesis
      by (auto simp: kept_def)
  next
    case (sv_panic i err stack)
    have "own_input (fst (sg_conns s ! i), Ended)" by (simp add: own_input_def)
    with upd [of i Ended] ext [of _ _ "[audit ''PANIC'' [(''err'', FStr err), (''stack'', FStr stack)]]"]
      fst k sv_panic show ?thesis by (auto simp: kept_def)
  next
    case (sv_accept c)
    have "own_input (c, Fresh c)" by (simp add: own_input_def)
    with old [of "dm_log (sg_daemon s)"] k sv_accept show ?thesis
      by (fastforce simp: kept_def nth_append)
  next
    case (sv_own d)
    with old [of "dm_log d"] own_step_fields [OF sv_own(3)] k show ?thesis by (auto simp: kept_def)
  qed (use k in \<open>auto simp: kept_def\<close>)
qed

lemma serve_run_kept: "serve_run G decode s s' \<Longrightarrow> kept p decode s \<Longrightarrow> kept p decode s'"
  by (induction rule: serve_run.induct) (auto intro: serve_step_kept)

lemma opened_kept: "kept (sv_policy sv) decode (opened sv evs)"
  by (simp add: kept_def opened_def booted_def)

text \<open>The responses written are those the daemon sent.\<close>

lemma serve_step_out:
  "serve_step G decode s s' \<Longrightarrow> \<exists>new sent. sg_out s' = sg_out s @ new \<and>
     dm_sent (sg_daemon s') = dm_sent (sg_daemon s) @ sent \<and> map snd new = map snd sent"
  by (erule serve_stepE) (auto simp: comp_def dest: own_step_fields)

lemma serve_run_out:
  "serve_run G decode s s' \<Longrightarrow> \<exists>new sent. sg_out s' = sg_out s @ new \<and>
     dm_sent (sg_daemon s') = dm_sent (sg_daemon s) @ sent \<and> map snd new = map snd sent"
proof (induction rule: serve_run.induct)
  case (serve_more s s' s'')
  then obtain new sent where "sg_out s' = sg_out s @ new" "dm_sent (sg_daemon s') = dm_sent (sg_daemon s) @ sent"
    "map snd new = map snd sent" by blast
  moreover from serve_step_out [OF serve_more.hyps(2)] obtain new' sent' where "sg_out s'' = sg_out s' @ new'"
    "dm_sent (sg_daemon s'') = dm_sent (sg_daemon s') @ sent'" "map snd new' = map snd sent'" by blast
  ultimately show ?case by auto
qed auto

section \<open>An example\<close>

text \<open>A connection of the peer \<open>al\<close> that sends two lines, each read as a request to encrypt.\<close>

definition two_lines :: bytes where
  "two_lines = [CHR ''e'', LF, CHR ''e'', LF]"

definition read_encrypt :: "bytes \<Rightarrow> Request option" where
  "read_encrypt line = Some (NoRequest\<lparr>Req_Op := OpEncryptName, Req_Key := ''a'', Req_Plaintext := ''p''\<rparr>)"

lemma two_lines_slices:
  "ReadSlice maxReqBytes two_lines = FullLine [CHR ''e'', LF] [CHR ''e'', LF]"
  "ReadSlice maxReqBytes [CHR ''e'', LF] = FullLine [CHR ''e'', LF] []"
  by (simp_all add: ReadSlice_def two_lines_def maxReqBytes_def)

lemma two_lines_run:
  obtains s resp where "serve_run demo_aead read_encrypt (opened demo_server []) s" and "sg_out s = [(0, resp)]"
    and "carries_data resp" and "\<not> sg_returned s" and "dm_shutdown (sg_daemon s) = Waiting"
    and "sg_conns s = [(Established ''al'' two_lines, Reading ''al'' [CHR ''e'', LF])]"
proof -
  let ?G = demo_aead and ?c = "Established ''al'' two_lines"
  define s0 where "s0 = opened demo_server []"
  define s1 where "s1 = s0\<lparr>sg_conns := sg_conns s0 @ [(?c, Fresh ?c)]\<rparr>"
  define s2 where "s2 = set_conn 0 (Reading ''al'' two_lines) (logged [] s1)"
  have p: "possible ?G (calm 0)" using bg_idle [of ?G] by (simp add: possible_def calm_def)
  have sv: "dm_server (sg_daemon s2) = demo_server" by (simp add: s2_def s1_def s0_def opened_def booted_def)
  obtain raw where raw: "SealAAD ?G (Some (replicate 12 CHR ''n'')) demo_key ''p'' ''a'' = Inr raw" by (rule demo_seal)
  obtain resp evs sv' where l: "serve_line ?G read_encrypt (calm 0) ''al'' [CHR ''e'', LF] demo_server = (resp, evs, sv')"
    by (metis prod_cases3)
  have "Resp_Packed resp \<noteq> []"
    using l raw
    by (auto simp: serve_line_def read_encrypt_def dispatch_def op_defs do_encrypt_def guard_def NoRequest_def seen_def
        Encrypt_def PackVersion_def split: prod.splits)
  then have data: "carries_data resp" by (simp add: carries_data_def)
  define s3 where "s3 = set_conn 0 (Reading ''al'' [CHR ''e'', LF])
      (s2\<lparr>sg_daemon := (sg_daemon s2)\<lparr>dm_server := sv', dm_log := dm_log (sg_daemon s2) @ evs,
                                      dm_sent := dm_sent (sg_daemon s2) @ map (Pair ''al'') [resp]\<rparr>,
                      sg_out := sg_out s2 @ map (Pair 0) [resp]\<rparr>)"
  have "serve_step ?G read_encrypt s0 s1"
    unfolding s1_def by (rule sv_accept) (simp_all add: s0_def opened_def booted_def)
  moreover have "serve_step ?G read_encrypt s1 s2"
    unfolding s2_def by (rule sv_begin [of _ _ ?c]) (simp_all add: s1_def s0_def opened_def begin_conn_def)
  moreover have "serve_step ?G read_encrypt s2 s3"
    unfolding s3_def
    by (rule sv_line [OF _ _ _ p, of _ _ "''al''" two_lines])
      (simp_all add: sv one_line_def two_lines_slices l, simp_all add: s2_def s1_def s0_def opened_def logged_def)
  ultimately have "serve_run ?G read_encrypt (opened demo_server []) s3" unfolding s0_def [symmetric] by blast
  then show ?thesis
    by (rule that [of s3 resp]) (simp_all add: data, simp_all add: s3_def s2_def s1_def s0_def opened_def booted_def logged_def)
qed

section \<open>Properties\<close>

text \<open>C2: On no connection is there an answer that was not earned. However the goroutines of the
  connections, the idle timer and the shutdown interleave, a response is written only to a
  peer that made the handshake and has a name, and one with a ciphertext or a plaintext only
  for a request that this peer sent, that names only keys the policy gives it, and that the
  audit log has an ALLOW event for.\<close>

theorem answers_are_earned:
  assumes "serve_run G decode (opened sv evs) s" and "(i, resp) \<in> set (sg_out s)"
  shows "i < length (sg_conns s) \<and>
    deserved (sv_policy sv) decode (dm_log (sg_daemon s)) (fst (sg_conns s ! i)) resp"
  using serve_run_kept [OF assms(1) opened_kept] assms(2) unfolding kept_def by blast

theorem answers_are_earned_witness:
  "\<exists>s resp. serve_run demo_aead read_encrypt (opened demo_server []) s \<and> sg_out s = [(0, resp)] \<and> carries_data resp \<and>
    deserved (sv_policy demo_server) read_encrypt (dm_log (sg_daemon s)) (Established ''al'' two_lines) resp"
proof -
  obtain s resp where s: "serve_run demo_aead read_encrypt (opened demo_server []) s" "sg_out s = [(0, resp)]"
    "carries_data resp" "sg_conns s = [(Established ''al'' two_lines, Reading ''al'' [CHR ''e'', LF])]"
    by (rule two_lines_run)
  with answers_are_earned [OF s(1), of 0 resp] show ?thesis by auto
qed



end
