(* ===== verification/Spec2Isabelle.thy ===== *)
theory Spec2Isabelle
  imports Alice_Main Alice_Read Alice_Edit Enrolment Bob_Main Bob_Lifecycle Bob_Accept
begin

section \<open>The program\<close>

text \<open>
  AnB (Alice and Bob) is a secrets vault for agents. The command \<open>alice\<close> keeps ciphertexts and
  metadata in a directory of the user, redacts the files an agent reads, puts secrets into the
  files and the environments that an operator has allowed, and holds no key. The daemon \<open>bob\<close>
  holds the master keys, unlocked once by an operator's password, and encrypts and decrypts for
  the clients that a private certificate authority has enrolled. One request is one line of JSON
  over mutual TLS; the common name of the client's certificate is the identity that the policy,
  the rate limit and the audit log refer to.

  The development models both programs: the packages under \<open>internal/\<close> and the commands under
  \<open>cmd/alice\<close> and \<open>cmd/bob\<close>, from the arguments of the process to its exit status, its output,
  its files, its requests and its log. Every definition has the name of the Go function it
  models, as far as Isabelle allows (\<open>cmdInitBob\<close> is \<open>cmdInit\<close> of \<open>cmd/bob\<close>, \<open>VaultList\<close> is
  \<open>Vault.List\<close>, \<open>client_Encrypt\<close> is \<open>Client.Encrypt\<close>). A helper whose name is not a Go name models a loop, a
  branch or a literal inside such a function.
\<close>

section \<open>Theories and sources\<close>

text \<open>
  The language and its library:

  \<^item> \<open>Prelude\<close>: Go strings as lists of bytes; \<open>strings\<close>, \<open>strconv\<close>, runes.
  \<^item> \<open>Go_Regex\<close>: the expressions of \<open>regexp\<close> that the sources write, as a datatype \<open>rx\<close> with a
    backtracking matcher, leftmost first, and the \<open>Find\<close> functions on it.
  \<^item> \<open>Go_Os\<close>: \<open>path/filepath\<close> (Clean, Join, Match), \<open>os\<close>, the flag parser of package \<open>flag\<close>, and
    \<open>internal/term\<close>; the disk, a function from paths to contents; the environment of a child.

  \<^item> \<open>Atomic_File\<close>: the contract of a file that is replaced through a temporary one.

  The packages, in the order of their dependencies:

  \<^item> \<open>Version\<close> (\<open>internal/version\<close>), \<open>Authz\<close> (\<open>internal/authz\<close>), \<open>Ratelimit\<close>
    (\<open>internal/server/ratelimit.go\<close>), \<open>Crypto\<close> and \<open>Envelope\<close> (\<open>internal/crypto\<close>), \<open>Keystore\<close>
    (\<open>internal/keystore\<close>), \<open>Server\<close> (\<open>internal/server/server.go\<close> over the messages of
    \<open>internal/proto\<close>), \<open>Client\<close> (\<open>internal/client\<close>), \<open>Wire\<close> (both ends of one request as lines).
  \<^item> \<open>Aclrules\<close>, \<open>Lint\<close>, \<open>Rules_Migrate\<close> (\<open>internal/aclrules\<close>), \<open>Localvault\<close>
    (\<open>internal/localvault\<close>), \<open>Redact\<close> (\<open>internal/redact\<close>), \<open>Strength\<close> (\<open>internal/strength\<close>),
    \<open>Pwgen\<close> (\<open>internal/pwgen\<close>), \<open>Eth\<close> (\<open>internal/eth\<close>), \<open>Ca\<close> (\<open>internal/ca\<close>), \<open>Mtls\<close>
    (\<open>internal/mtls\<close>).

  The commands of \<open>cmd/alice\<close>:

  \<^item> \<open>Alice\<close>: the machine they run on and the helpers of \<open>main.go\<close> (loadClient, decryptKeys,
    applyRewraps and others).
  \<^item> \<open>Alice_Exec\<close> (\<open>exec.go\<close>, \<open>shell.go\<close>), \<open>Alice_Vault\<close> (\<open>sensitive.go\<close>: set, get, rm, desc, init,
    import), \<open>Alice_Files\<close> (\<open>safe.go\<close>: read, redact, write; scan; \<open>template.go\<close>), \<open>Alice_Admin\<close> (has,
    list, status, enroll, install-cert, \<open>audit.go\<close>, \<open>rekey.go\<close>, \<open>backfill.go\<close>, \<open>generate.go\<close>), \<open>Alice_Eth\<close> (\<open>eth.go\<close>),
    \<open>Alice_Main\<close> (\<open>main.go\<close>, \<open>completion.go\<close>, \<open>allowlist.go\<close>): the dispatch and the exit status.

  The commands of \<open>cmd/bob\<close>:

  \<^item> \<open>Bob\<close>: the machine and the shared helpers; \<open>Bob_Rotate\<close> (\<open>rotate.go\<close>), \<open>Bob_Admin\<close> (ca init,
    init, sign-csr of \<open>main.go\<close>), \<open>Bob_Migrate\<close> (\<open>migrate.go\<close>), \<open>Bob_Serve\<close> (serve and its
    daemonization), \<open>Bob_Daemon\<close> (\<open>audit.go\<close> and the running process), \<open>Bob_Accept\<close> (the accept
    loop and its goroutines), \<open>Bob_Main\<close> (the dispatch).

  The compositions:

  \<^item> \<open>Alice_Flow\<close>, \<open>Alice_Batch\<close>, \<open>Alice_Read\<close>, \<open>Alice_Edit\<close>: commands of Alice against the model of
    a running Bob; \<open>Enrolment\<close>: enroll, sign-csr and install-cert in a row; \<open>Bob_Lifecycle\<close>: serve,
    rotate and serve again.
\<close>

section \<open>State and operations\<close>

text \<open>
  \<^item> A package of pure functions is a group of functions. An error is a value of a sum or an
    option; the constructors of its error datatype are the \<open>errors.New\<close> and \<open>fmt.Errorf\<close> of the
    source, without their texts where no caller looks at them.
  \<^item> \<open>Keystore\<close>: the record \<open>Store\<close> has the fields of the Go struct. Each method is a function of
    the time and the store, one critical section of its mutex. The timer of \<open>time.AfterFunc\<close> is part
    of the transition system \<open>ks_step\<close>, whose steps are the operations, the start of a callback and the
    moment at which a started callback gets the mutex.
  \<^item> \<open>Server\<close>: \<open>dispatch\<close> takes the \<open>Server\<close> record (store, policy, buckets), the identity and one
    request to a response, the new server and the events of the audit log. A connection is the bytes
    it delivers; \<open>ReadSlice\<close> cuts lines of at most \<open>maxReqBytes\<close>.
  \<^item> \<open>Bob_Daemon\<close>: the process is a transition function over requests, idle ticks, signals and
    callbacks. \<open>Bob_Accept\<close> refines it: \<open>serve_step\<close> accepts a connection, lets one goroutine handle
    its next line, or lets the process take a step of its own, in any order.
  \<^item> The machine of Alice is \<open>host\<close> (what a run can not change: environment, terminals, clock,
    compiled libraries, the network) and \<open>alice\<close> (what it changes: disk, requests sent, standard
    input left, output). A command is a function of both and the arguments. Bob's tools have
    \<open>bob_host\<close> and \<open>bob\<close>, and are composed with \<open>andThen\<close>, \<open>check\<close> and \<open>fail\<close> in the order of the early
    returns of the source.
  \<^item> A file write is a list of disks, one for every system call, and a fault chosen by the host
    cuts it; a crash may leave any disk of the list.
  \<^item> The order in which Go ranges over a map is a function of the host, and so is any sort that is
    not stable; theorems hold for all such functions that permute, or visit each key.
\<close>

section \<open>Interfaces\<close>

text \<open>
  Where several parts share a contract it is a locale, interpreted on the definitions of the model:

  \<^item> \<open>Atomic_File.atomic_file\<close>: a file replaced through a temporary name, with sequences of such files;
    \<open>writeAtomic\<close> of Alice (\<open>wa\<close>) and \<open>writeFile\<close> of Bob (\<open>rp\<close>). \<open>Atomic_File.stored_value\<close> extends it by the
    encoding of a value: the vault (\<open>vf\<close>), the profile (\<open>cf\<close>) and the key envelope (\<open>ev\<close>).
  \<^item> \<open>Envelope.key_ring\<close>: keys by version and their retirement; the envelope file (\<open>ef\<close>) and the store of
    the daemon (\<open>sk\<close>), which \<open>Keystore.retire_in_step\<close> relates.
  \<^item> \<open>Keystore.name_sealing\<close>: what the store needs of package \<open>crypto\<close> (\<open>cs\<close>).
  \<^item> \<open>Localvault.secret_map\<close>: what the commands need of a vault (\<open>vm\<close>).
  \<^item> \<open>Ratelimit.rate_limiter\<close>: what the server needs of its limiter (\<open>tb\<close>).
\<close>

section \<open>Parameters\<close>

text \<open>
  What is not in the repository is an argument, and the hypotheses on it say what its documentation
  says:

  \<^item> AES-GCM (\<open>aead\<close>): \<open>aead_ok\<close>, opening inverts sealing; \<open>aead_binds\<close>, opening under other additional
    data fails. Argon2id (\<open>kdf\<close>): the length of its result. SHA-256 and Keccak-256: a function.
  \<^item> The JSON codecs of the vault, the envelope file, the requests and the configuration: printing and
    parsing are inverse on the values named by the hypothesis, up to the replacement of bytes that are
    not UTF-8 in the strings of a message (\<open>Wire.json_string\<close>).
  \<^item> \<open>regexp.Compile\<close> (\<open>compiler\<close>): for the patterns that \<open>LiteralRule\<close> writes, the expression
    they denote (\<open>compiles_quoted\<close>).
  \<^item> x509, ed25519 and ASN.1 (\<open>pki\<close>): \<open>pki_ok\<close>, what is marshalled parses back and a signature that
    verifies binds the request to its key. TLS: the configurations are modelled, the result of a
    handshake is an argument.
  \<^item> BIP-39, BIP-32 and secp256k1: the record of the Ethereum libraries in \<open>Eth\<close>.
  \<^item> Random sources, the clock, user and group names, faults of the file system, and the listener.

  The hypotheses of every property hold together for concrete instances (\<open>demo_aead\<close>, \<open>flow_codec\<close>,
  \<open>demo_pki\<close>, \<open>envelope_codec\<close> and others); its witness runs the model on them.
\<close>

section \<open>What the properties show\<close>

text \<open>
  \<^item> From end to end (C1 to C9): what \<open>alice read\<close> prints holds no removable plaintext of the vault; a
    response of the daemon goes to an authenticated peer that the policy allows, and has its line in the
    log; \<open>alice exec\<close> needs a rule; a secret set is the secret revealed; a batch keeps every
    secret; a certificate installed under a pairing code is the one signed for that key; concurrent
    connections refine a daemon that handles one request at a time; secrets survive rotations of the
    key and the password; a daemon serves with mutual TLS and its policy only.
  \<^item> The key store (C10 to C12, C31): its invariant over all interleavings with the timer, decryption
    across key versions, automatic lock, and the race in which a started callback wipes a store just
    refreshed.
  \<^item> The allowlist (C13 to C16, C27, C28, C32 to C34): literal rules admit the invocation they were made of
    and nothing else; the rules that load are well formed; who can change the file; the environment
    of the child; the migration of the old format keeps authority and loses nothing; agents see
    explicit rules only; the text that rules match is unambiguous.
  \<^item> Rotation and migration of the keys (C17 to C20, C23): refinement of an abstract key ring
    (\<open>Bob_Rotate.held\<close>), with the file unchanged on every failure.
  \<^item> The server (C21, C22, C30): the bound of the token bucket over any history; refusals have no
    effect; a value too large to be revealed again.
  \<^item> Redaction (C24, C25, C35): no known value is left, restoring inverts redaction, and the
    hand-written test of placeholders is the grammar.
  \<^item> Files and the remaining commands (C26, C29, C36 to C40): atomic replacement under faults and
    crashes, \<open>rm\<close>, the password's way to the background process, audit lines, addresses, and generated
    passwords, with the termination of the generator.
\<close>

section \<open>Bounds and fuel\<close>

text \<open>
  Times and versions are \<open>int\<close>; where Go has an \<open>int\<close> of 64 bits and a sum could leave it, the theorem has
  the bound as a hypothesis (\<open>Bob_Lifecycle.int64\<close>). The index of an Ethereum address is a \<open>32 word\<close>,
  cut from the argument as in the source. \<open>maxReqBytes\<close> is \<open>2 ^ 20\<close> and \<open>scanBufSize\<close> the 4096 bytes of the line reader of the rules
  file, as in the source. The regular expression matcher (\<open>Go_Regex.run\<close>) needs no fuel: an iteration of a star that consumes
  no byte is not followed by another, so its measure is the expression and the bytes left. The generator of passwords draws until its classes are covered: it is a partial function
  whose result is an option, and C40 shows that it returns under a fair source. All other recursion is
  structural or has its measure.
\<close>

section \<open>Not modelled\<close>

text \<open>
  \<^item> Locking of pages and the ban on core dumps (\<open>keystore/harden_*.go\<close>, \<open>mem_unix.go\<close>): system calls without
    an effect on values. \<open>Wipe\<close> is modelled by the absence of the key from the state.
  \<^item> Messages on standard error, usage texts, colours, column padding of tables, and the fixed text of the
    completion scripts: the model keeps which lines a command prints, and the values in them. The hits of \<open>alice
    scan\<close> in one line have the order of the candidates.
  \<^item> TLS handshakes, sockets and deadlines: a connection delivers bytes until it ends; in \<open>Wire.wire_call\<close> the
    reply to a request arrives. A run of a command meets one state of the world outside its own steps.
  \<^item> Tests, documentation and build files.
\<close>

end
